(* ===== verification/BBL_Prelude.thy ===== *)
theory BBL_Prelude
  imports Main "HOL-Library.Word" "HOL-Library.Monad_Syntax" "HOL-Library.Product_Lexorder"
    "HOL-Library.List_Lexorder"
begin

text \<open>
  Shared vocabulary of the development: the machine integers of the C sources, C arrays
  with undefined behaviour made explicit, list lemmas used by several components, and the
  interface (locale) of three-way comparators.

  A C array is a list. Reading or writing beyond its end is undefined behaviour in C; here
  it is the value \<^term>\<open>None\<close>, so that a statement \<open>f x = Some y\<close> includes that \<open>f\<close>
  stayed within its buffers.
\<close>

unbundle bit_operations_syntax

type_synonym u8 = "8 word"
type_synonym u16 = "16 word"
type_synonym u32 = "32 word"
type_synonym u64 = "64 word"

named_theorems mem_simps \<open>access to C arrays\<close>
named_theorems step_intros \<open>preservation of component invariants\<close>

section \<open>C arrays\<close>

definition ld :: "'a list \<Rightarrow> nat \<Rightarrow> 'a option" where
  "ld xs i = (if i < length xs then Some (xs ! i) else None)"

definition st :: "'a list \<Rightarrow> nat \<Rightarrow> 'a \<Rightarrow> 'a list option" where
  "st xs i v = (if i < length xs then Some (xs[i := v]) else None)"

text \<open>The effect of \<open>memcpy(xs + p, ys, length ys)\<close>.\<close>

definition st_range :: "'a list \<Rightarrow> nat \<Rightarrow> 'a list \<Rightarrow> 'a list option" where
  "st_range xs p ys =
     (if p + length ys \<le> length xs then Some (take p xs @ ys @ drop (p + length ys) xs) else None)"

text \<open>The bytes \<open>xs[p], ..., xs[p + n - 1]\<close>.\<close>

definition ld_range :: "'a list \<Rightarrow> nat \<Rightarrow> nat \<Rightarrow> 'a list option" where
  "ld_range xs p n = (if p + n \<le> length xs then Some (take n (drop p xs)) else None)"

lemma ld_Some [mem_simps]: "i < length xs \<Longrightarrow> ld xs i = Some (xs ! i)"
  by (simp add: ld_def)

lemma st_Some [mem_simps]: "i < length xs \<Longrightarrow> st xs i v = Some (xs[i := v])"
  by (simp add: st_def)

lemma st_range_Some [mem_simps]:
  "p + length ys \<le> length xs \<Longrightarrow>
   st_range xs p ys = Some (take p xs @ ys @ drop (p + length ys) xs)"
  by (simp add: st_range_def)

lemma ld_range_Some [mem_simps]:
  "p + n \<le> length xs \<Longrightarrow> ld_range xs p n = Some (take n (drop p xs))"
  by (simp add: ld_range_def)

lemma length_st: "st xs i v = Some ys \<Longrightarrow> length ys = length xs"
  by (auto simp: st_def split: if_splits)

lemma length_st_range: "st_range xs p ys = Some zs \<Longrightarrow> length zs = length xs"
  by (auto simp: st_range_def split: if_splits)

lemma ld_range_st_range:
  "st_range xs p ys = Some zs \<Longrightarrow> ld_range zs p (length ys) = Some ys"
  by (auto simp: st_range_def ld_range_def split: if_splits)

section \<open>Lists\<close>

lemma nth_drop_Cons: "i < length xs \<Longrightarrow> drop i xs = xs ! i # drop (Suc i) xs"
  by (simp add: Cons_nth_drop_Suc)

lemma distinct_remove1_append:
  "distinct (xs @ x # ys) \<Longrightarrow> remove1 x (xs @ x # ys) = xs @ ys"
  by (simp add: remove1_append)

lemma length_remove1_Suc: "x \<in> set xs \<Longrightarrow> Suc (length (remove1 x xs)) = length xs"
  by (simp add: length_remove1) (metis Suc_pred length_pos_if_in_set)

lemma takeWhile_upto: "x \<notin> set xs \<Longrightarrow> takeWhile (\<lambda>c. c \<noteq> x) (xs @ x # ys) = xs"
  by (induction xs) auto

section \<open>Words\<close>

lemma unat_ucast_up [simp]:
  "LENGTH('a::len) \<le> LENGTH('b::len) \<Longrightarrow> unat (ucast (x :: 'a word) :: 'b word) = unat x"
  by (simp add: unsigned_ucast_eq take_bit_nat_eq_self_iff)
     (metis unsigned_less less_le_trans one_le_numeral power_increasing)

lemma of_nat_unat_id: "of_nat (unat w) = (w :: 'a::len word)"
  by simp

lemma unat_of_nat_small: "n < 2 ^ LENGTH('a) \<Longrightarrow> unat (of_nat n :: 'a::len word) = n"
  by (simp add: unat_of_nat)

lemma unat_u8_less: "unat (b :: u8) < 256"
  using unsigned_less [of b] by simp

lemma uint_u8_less: "uint (b :: u8) < 256"
  using uint_lt2p [of b] by simp

lemma unat_u16_less: "unat (b :: u16) < 65536"
  using unsigned_less [of b] by simp

lemma unat_u32_less: "unat (b :: u32) < 4294967296"
  using unsigned_less [of b] by simp

lemma unat_u64_less: "unat (b :: u64) < 18446744073709551616"
  using unsigned_less [of b] by simp

section \<open>Three-way comparators\<close>

text \<open>
  The C sources order keys with functions that return a negative number, zero or a positive
  number. The contract of such a function is that it decides a linear order on a key; it is
  stated once here, with the laws its callers rely on.
\<close>

locale comparator =
  fixes cmp :: "'a \<Rightarrow> 'a \<Rightarrow> int"
    and key :: "'a \<Rightarrow> 'k::linorder"
  assumes cmp_key: "cmp x y = (if key x < key y then -1 else if key y < key x then 1 else 0)"
begin

lemma cmp_lt_iff: "cmp x y = -1 \<longleftrightarrow> key x < key y"
  by (auto simp: cmp_key)

lemma cmp_gt_iff: "cmp x y = 1 \<longleftrightarrow> key y < key x"
  by (auto simp: cmp_key)

lemma cmp_eq_iff: "cmp x y = 0 \<longleftrightarrow> key x = key y"
  by (auto simp: cmp_key)

lemma cmp_antisym: "cmp y x = - cmp x y"
  by (auto simp: cmp_key)

lemma cmp_trans: "cmp x y = -1 \<Longrightarrow> cmp y z = -1 \<Longrightarrow> cmp x z = -1"
  by (auto simp: cmp_lt_iff)

lemma cmp_cases: "cmp x y = -1 \<or> cmp x y = 0 \<or> cmp x y = 1"
  by (auto simp: cmp_key)

end

end
