(* ===== verification/Byte_Order.thy ===== *)
theory Byte_Order
  imports BBL_Prelude
begin

text \<open>
  Big and little endian integers and the bounded write buffer of
  \<^verbatim>\<open>code/common/src/utils.c\<close> (\<open>read_be_uint\<close>, \<open>write_be_uint\<close>, \<open>inc_be_uint\<close>,
  \<open>push_be_uint\<close>, \<open>push_data\<close>, \<open>write_le_uint\<close>, \<open>push_le_uint\<close>). A pointer into a
  buffer is the buffer and an offset; the loops run over the remaining count. The lemmas
  relate every routine to the byte sequences \<open>be_bytes\<close> and \<open>le_bytes\<close>.
\<close>

section \<open>Definitions\<close>

fun read_be_loop :: "u8 list \<Rightarrow> nat \<Rightarrow> nat \<Rightarrow> u64 \<Rightarrow> u64 option" where
  "read_be_loop mem i 0 value = Some value"
| "read_be_loop mem i (Suc n) value =
     do { b \<leftarrow> ld mem i; read_be_loop mem (Suc i) n (push_bit 8 value OR ucast b) }"

definition read_be_uint :: "u8 list \<Rightarrow> nat \<Rightarrow> nat \<Rightarrow> u64 option" where
  "read_be_uint mem p len = (if len = 0 \<or> len > 8 then Some 0 else read_be_loop mem p len 0)"

fun write_be_loop :: "nat \<Rightarrow> nat \<Rightarrow> u64 \<Rightarrow> u8 list \<Rightarrow> u8 list option" where
  "write_be_loop p 0 value mem = Some mem"
| "write_be_loop p (Suc n) value mem =
     do { mem' \<leftarrow> st mem (p + n) (ucast (value AND 0xff));
          write_be_loop p n (drop_bit 8 value) mem' }"

definition write_be_uint :: "u8 list \<Rightarrow> nat \<Rightarrow> nat \<Rightarrow> u64 \<Rightarrow> (bool \<times> u8 list) option" where
  "write_be_uint mem p len value =
     (if len = 0 \<or> len > 8 then Some (False, mem)
      else do { mem' \<leftarrow> write_be_loop p len value mem; Some (True, mem') })"

definition inc_be_uint :: "u8 list \<Rightarrow> nat \<Rightarrow> nat \<Rightarrow> (bool \<times> u8 list) option" where
  "inc_be_uint mem p len =
     do { value \<leftarrow> read_be_uint mem p len; write_be_uint mem p len (value + 1) }"

record io_buffer =
  iob_data :: "u8 list"
  iob_start_idx :: u32
  iob_idx :: u32
  iob_size :: u32

text \<open>
  \<open>length\<close> is a \<open>size_t\<close> in \<open>push_be_uint\<close> and \<open>push_data\<close>, so their bound check is a
  64 bit sum; in \<open>push_le_uint\<close> it is a \<open>uint32_t\<close> and the sum is a 32 bit one. The result
  of the write itself is ignored.
\<close>

definition push_be_uint :: "io_buffer \<Rightarrow> u64 \<Rightarrow> u64 \<Rightarrow> (bool \<times> io_buffer) option" where
  "push_be_uint b len value =
     (if ucast (iob_idx b) + len > ucast (iob_size b) then Some (False, b)
      else do { (_, mem) \<leftarrow> write_be_uint (iob_data b) (unat (iob_idx b)) (unat len) value;
                Some (True, b\<lparr>iob_data := mem, iob_idx := iob_idx b + ucast len\<rparr>) })"

definition push_data :: "io_buffer \<Rightarrow> u8 list \<Rightarrow> u64 \<Rightarrow> (bool \<times> io_buffer) option" where
  "push_data b bytes len =
     (if ucast (iob_idx b) + len > ucast (iob_size b) then Some (False, b)
      else do { src \<leftarrow> ld_range bytes 0 (unat len);
                mem \<leftarrow> st_range (iob_data b) (unat (iob_idx b)) src;
                Some (True, b\<lparr>iob_data := mem, iob_idx := iob_idx b + ucast len\<rparr>) })"

fun write_le_loop :: "nat \<Rightarrow> nat \<Rightarrow> u64 \<Rightarrow> u8 list \<Rightarrow> u8 list option" where
  "write_le_loop p 0 value mem = Some mem"
| "write_le_loop p (Suc n) value mem =
     do { mem' \<leftarrow> st mem p (ucast (value AND 0xff));
          write_le_loop (Suc p) n (drop_bit 8 value) mem' }"

definition write_le_uint :: "u8 list \<Rightarrow> nat \<Rightarrow> nat \<Rightarrow> u64 \<Rightarrow> (bool \<times> u8 list) option" where
  "write_le_uint mem p len value =
     (if len = 0 \<or> len > 8 then Some (False, mem)
      else do { mem' \<leftarrow> write_le_loop p len value mem; Some (True, mem') })"

definition push_le_uint :: "io_buffer \<Rightarrow> u32 \<Rightarrow> u64 \<Rightarrow> (bool \<times> io_buffer) option" where
  "push_le_uint b len value =
     (if iob_idx b + len > iob_size b then Some (False, b)
      else do { (_, mem) \<leftarrow> write_le_uint (iob_data b) (unat (iob_idx b)) (unat len) value;
                Some (True, b\<lparr>iob_data := mem, iob_idx := iob_idx b + len\<rparr>) })"

section \<open>Byte sequences\<close>

fun le_bytes :: "nat \<Rightarrow> u64 \<Rightarrow> u8 list" where
  "le_bytes 0 v = []"
| "le_bytes (Suc n) v = ucast (v AND 0xff) # le_bytes n (drop_bit 8 v)"

definition be_bytes :: "nat \<Rightarrow> u64 \<Rightarrow> u8 list" where
  "be_bytes n v = rev (le_bytes n v)"

fun le_val :: "u8 list \<Rightarrow> nat" where
  "le_val [] = 0"
| "le_val (b # bs) = unat b + 256 * le_val bs"

definition be_val :: "u8 list \<Rightarrow> nat" where
  "be_val bs = le_val (rev bs)"

lemma le_bytes_numeral [simp]:
  "le_bytes (numeral k) v = ucast (v AND 0xff) # le_bytes (pred_numeral k) (drop_bit 8 v)"
  by (simp add: numeral_eq_Suc)

lemma length_le_bytes [simp]: "length (le_bytes n v) = n"
  by (induction n arbitrary: v) auto

lemma length_be_bytes [simp]: "length (be_bytes n v) = n"
  by (simp add: be_bytes_def)

lemma le_val_append: "le_val (xs @ ys) = le_val xs + 256 ^ length xs * le_val ys"
  by (induction xs) (auto simp: algebra_simps)

lemma be_val_snoc: "be_val (bs @ [b]) = 256 * be_val bs + unat b"
  by (simp add: be_val_def)

lemma be_val_Nil [simp]: "be_val [] = 0"
  by (simp add: be_val_def)

lemma le_val_less: "le_val bs < 256 ^ length bs"
proof (induction bs)
  case (Cons b bs)
  have "le_val (b # bs) < 256 + 256 * le_val bs"
    using unat_u8_less [of b] by simp
  also have "\<dots> = 256 * Suc (le_val bs)"
    by simp
  also have "\<dots> \<le> 256 * 256 ^ length bs"
    using Cons by (intro mult_le_mono) auto
  finally show ?case by simp
qed simp

lemma be_val_less: "be_val bs < 256 ^ length bs"
  using le_val_less [of "rev bs"] by (simp add: be_val_def)

lemma unat_low_byte: "unat (ucast (v AND 0xff) :: u8) = unat (v :: u64) mod 256"
proof -
  have "v AND 0xff = take_bit 8 v"
    by (simp add: take_bit_eq_mask mask_eq_exp_minus_1)
  then have "unat (ucast (v AND 0xff) :: u8) = take_bit 8 (unat v)"
    by (simp add: unsigned_ucast_eq unsigned_take_bit_eq min_def)
  then show ?thesis
    by (simp add: take_bit_eq_mod)
qed

lemma unat_drop8: "unat (drop_bit 8 (v :: u64)) = unat v div 256"
  by (simp add: drop_bit_eq_div unat_div_distrib)

lemma le_val_le_bytes: "le_val (le_bytes n v) = unat v mod 256 ^ n"
proof (induction n arbitrary: v)
  case (Suc n)
  have "le_val (le_bytes (Suc n) v) = unat v mod 256 + 256 * (unat v div 256 mod 256 ^ n)"
    by (simp add: unat_low_byte Suc unat_drop8)
  also have "\<dots> = unat v mod (256 * 256 ^ n)"
    by (simp add: mod_mult2_eq)
  finally show ?case by simp
qed simp

lemma be_val_be_bytes: "be_val (be_bytes n v) = unat v mod 256 ^ n"
  by (simp add: be_val_def be_bytes_def le_val_le_bytes)

section \<open>The loops compute the byte sequences\<close>

lemma write_le_loop_eq:
  "p + n \<le> length mem \<Longrightarrow>
   write_le_loop p n v mem = Some (take p mem @ le_bytes n v @ drop (p + n) mem)"
proof (induction n arbitrary: p v mem)
  case (Suc n)
  let ?b = "ucast (v AND 0xff) :: u8"
  have "take (Suc p) (mem[p := ?b]) = take p mem @ [?b]"
    using Suc.prems by (simp add: take_Suc_conv_app_nth)
  with Suc show ?case
    by (simp add: mem_simps)
qed simp

lemma write_be_loop_eq:
  "p + n \<le> length mem \<Longrightarrow>
   write_be_loop p n v mem = Some (take p mem @ be_bytes n v @ drop (p + n) mem)"
proof (induction n arbitrary: v mem)
  case (Suc n)
  let ?b = "ucast (v AND 0xff) :: u8"
  have "drop (p + n) (mem[p + n := ?b]) = ?b # drop (Suc (p + n)) mem"
    using Suc.prems by (simp add: nth_drop_Cons)
  with Suc show ?case
    by (simp add: mem_simps be_bytes_def)
qed (simp add: be_bytes_def)

lemma unat_shift_or:
  assumes "unat v < 2 ^ 56"
  shows "unat (push_bit 8 v OR ucast (b :: u8) :: u64) = 256 * unat v + unat b"
proof -
  have lt: "256 * unat v + unat b < 2 ^ 64"
    using assms unat_u8_less [of b] by simp
  have "push_bit 8 v AND ucast b = 0"
    by (rule bit_word_eqI) (auto simp: bit_simps dest: bit_imp_le_length)
  then have "push_bit 8 v OR ucast b = push_bit 8 v + ucast b"
    by (simp add: disjunctive_add_eq_or)
  then show ?thesis
    using lt by (simp add: push_bit_eq_mult unat_word_ariths)
qed

lemma read_be_loop_eq:
  "p + n \<le> length mem \<Longrightarrow> k + n \<le> 8 \<Longrightarrow> unat v < 256 ^ k \<Longrightarrow>
   \<exists>w. read_be_loop mem p n v = Some w \<and>
       unat w = unat v * 256 ^ n + be_val (take n (drop p mem))"
proof (induction n arbitrary: p v k)
  case (Suc n)
  let ?v = "push_bit 8 v OR ucast (mem ! p) :: u64"
  have "(256 :: nat) ^ k \<le> 256 ^ 7"
    using Suc.prems by (intro power_increasing) auto
  then have v: "unat ?v = 256 * unat v + unat (mem ! p)"
    using Suc.prems by (intro unat_shift_or) simp
  moreover have "\<dots> < 256 ^ Suc k"
    using Suc.prems(3) unat_u8_less [of "mem ! p"] by simp
  ultimately obtain w where
    w: "read_be_loop mem (Suc p) n ?v = Some w"
       "unat w = unat ?v * 256 ^ n + be_val (take n (drop (Suc p) mem))"
    using Suc.IH [of "Suc p" "Suc k" ?v] Suc.prems by auto
  have "be_val (take (Suc n) (drop p mem)) =
        unat (mem ! p) * 256 ^ n + be_val (take n (drop (Suc p) mem))"
    using Suc.prems by (simp add: nth_drop_Cons be_val_def le_val_append)
  with w v Suc.prems show ?case
    by (simp add: mem_simps algebra_simps)
qed simp

lemma read_be_uint_eq:
  assumes "0 < len" "len \<le> 8" "p + len \<le> length mem"
  shows "read_be_uint mem p len = Some (of_nat (be_val (take len (drop p mem))))"
proof -
  obtain w where "read_be_loop mem p len 0 = Some w" "unat w = be_val (take len (drop p mem))"
    using read_be_loop_eq [of p len mem 0 0] assms by auto
  with assms show ?thesis
    by (simp add: read_be_uint_def) (metis of_nat_unat_id)
qed

lemma write_be_uint_eq:
  assumes "0 < len" "len \<le> 8" "p + len \<le> length mem"
  shows "write_be_uint mem p len v = Some (True, take p mem @ be_bytes len v @ drop (p + len) mem)"
  using assms by (simp add: write_be_uint_def write_be_loop_eq)

lemma write_le_uint_eq:
  assumes "0 < len" "len \<le> 8" "p + len \<le> length mem"
  shows "write_le_uint mem p len v = Some (True, take p mem @ le_bytes len v @ drop (p + len) mem)"
  using assms by (simp add: write_le_uint_def write_le_loop_eq)

lemma pow256_eq: "(256 :: nat) ^ n = 2 ^ (8 * n)"
  by (simp add: power_mult)

lemma of_nat_mod_pow256: "of_nat (unat v mod 256 ^ n) = (take_bit (8 * n) v :: u64)"
  by (simp add: pow256_eq flip: take_bit_eq_mod) (metis of_nat_unat_id take_bit_of_nat)

lemma be_bytes_of_be_val:
  assumes "length bs = n" "n \<le> 8"
  shows "be_bytes n (of_nat (be_val bs)) = bs"
proof -
  have inj: "length xs = length ys \<Longrightarrow> le_val xs = le_val ys \<Longrightarrow> xs = ys" for xs ys
  proof (induction xs ys rule: list_induct2)
    case (Cons x xs y ys)
    then have "unat x mod 256 = unat y mod 256 \<and> le_val xs = le_val ys"
      using unat_u8_less [of x] unat_u8_less [of y] by simp
    with Cons show ?case
      using unat_u8_less [of x] unat_u8_less [of y] by (simp add: unsigned_word_eqI)
  qed simp
  have "(256 :: nat) ^ n \<le> 2 ^ 64"
    using assms power_increasing [of n 8 "256 :: nat"] by simp
  then have "be_val bs < 2 ^ 64"
    using be_val_less [of bs] assms by simp
  then have "be_val (be_bytes n (of_nat (be_val bs))) = be_val bs"
    using be_val_less [of bs] assms by (simp add: be_val_be_bytes unat_of_nat)
  then show ?thesis
    using inj [of "rev (be_bytes n (of_nat (be_val bs)))" "rev bs"] assms
    by (simp add: be_val_def)
qed

section \<open>The write buffer\<close>

definition iob_wf :: "io_buffer \<Rightarrow> bool" where
  "iob_wf b \<longleftrightarrow> iob_idx b \<le> iob_size b \<and> unat (iob_size b) \<le> length (iob_data b)"

definition iob_contents :: "io_buffer \<Rightarrow> u8 list" where
  "iob_contents b = take (unat (iob_idx b)) (iob_data b)"

definition iob_room :: "io_buffer \<Rightarrow> nat" where
  "iob_room b = unat (iob_size b) - unat (iob_idx b)"

text \<open>
  What every \<open>push\<close> routine promises: an item that fits is appended to the contents, one
  that does not is refused and the buffer is left alone. Callers push items one after the
  other; \<open>push_all_contents\<close> is what they rely on.
\<close>

locale append_buffer =
  fixes push :: "io_buffer \<Rightarrow> 'v \<Rightarrow> (bool \<times> io_buffer) option"
    and bytes :: "'v \<Rightarrow> u8 list"
    and wf :: "io_buffer \<Rightarrow> bool"
    and ok :: "'v \<Rightarrow> bool"
  assumes push_refused: "wf b \<Longrightarrow> ok v \<Longrightarrow> iob_room b < length (bytes v) \<Longrightarrow> push b v = Some (False, b)"
    and push_fits: "wf b \<Longrightarrow> ok v \<Longrightarrow> length (bytes v) \<le> iob_room b \<Longrightarrow>
      \<exists>b'. push b v = Some (True, b') \<and> wf b' \<and> iob_contents b' = iob_contents b @ bytes v \<and>
           iob_room b' = iob_room b - length (bytes v) \<and> iob_size b' = iob_size b"
begin

fun push_all :: "io_buffer \<Rightarrow> 'v list \<Rightarrow> io_buffer option" where
  "push_all b [] = Some b"
| "push_all b (v # vs) = do { (_, b') \<leftarrow> push b v; push_all b' vs }"

lemma push_keeps_wf:
  "wf b \<Longrightarrow> ok v \<Longrightarrow> \<exists>r b'. push b v = Some (r, b') \<and> wf b'"
  using push_refused [of b v] push_fits [of b v] by (metis not_le)

lemma push_all_contents:
  "wf b \<Longrightarrow> list_all ok vs \<Longrightarrow> length (concat (map bytes vs)) \<le> iob_room b \<Longrightarrow>
   \<exists>b'. push_all b vs = Some b' \<and> wf b' \<and>
        iob_contents b' = iob_contents b @ concat (map bytes vs)"
proof (induction vs arbitrary: b)
  case (Cons v vs)
  obtain b' where b': "push b v = Some (True, b')" "wf b'"
    "iob_contents b' = iob_contents b @ bytes v" "iob_room b' = iob_room b - length (bytes v)"
    using push_fits [of b v] Cons.prems by auto
  with Cons.IH [of b'] Cons.prems show ?case
    by auto
qed simp

end

lemma iob_wf_unat:
  "iob_wf b \<longleftrightarrow> unat (iob_idx b) \<le> unat (iob_size b) \<and> unat (iob_size b) \<le> length (iob_data b)"
  by (simp add: iob_wf_def word_le_nat_alt)

text \<open>Both bound checks compare the sum of the cursor and the length without wrap-around.\<close>

lemma idx_check_64:
  assumes "unat (len :: u64) < 2 ^ 63"
  shows "ucast (iob_size b) < ucast (iob_idx b) + len \<longleftrightarrow> unat (iob_size b) < unat (iob_idx b) + unat len"
proof -
  have "unat (iob_idx b) < 2 ^ 32"
    using unsigned_less [of "iob_idx b"] by simp
  then have "unat (ucast (iob_idx b) + len) = unat (iob_idx b) + unat len"
    using assms by (simp add: unat_word_ariths)
  then show ?thesis
    by (simp add: word_less_nat_alt)
qed

lemma idx_check_32:
  assumes "unat (iob_idx b) + unat (len :: u32) < 2 ^ 32"
  shows "iob_size b < iob_idx b + len \<longleftrightarrow> unat (iob_size b) < unat (iob_idx b) + unat len"
  using assms by (simp add: word_less_nat_alt unat_word_ariths)

text \<open>Writing \<open>n\<close> bytes at the cursor and advancing it appends them to the contents.\<close>

lemma iob_append:
  assumes "iob_wf b" "unat (iob_idx b) + length ys \<le> unat (iob_size b)"
    and "unat idx' = unat (iob_idx b) + length ys"
  defines "b' \<equiv> b\<lparr>iob_data := take (unat (iob_idx b)) (iob_data b) @ ys @
      drop (unat (iob_idx b) + length ys) (iob_data b), iob_idx := idx'\<rparr>"
  shows "iob_wf b' \<and> iob_contents b' = iob_contents b @ ys \<and>
    iob_room b' = iob_room b - length ys \<and> iob_size b' = iob_size b"
  using assms by (auto simp: iob_wf_unat iob_contents_def iob_room_def)

lemma push_be_uint_refused:
  assumes "iob_wf b" "0 < len" "len \<le> 8" "iob_room b < unat len"
  shows "push_be_uint b len v = Some (False, b)"
proof -
  have "unat len \<le> 8"
    using assms(3) by (simp add: word_le_nat_alt)
  then have "ucast (iob_size b) < ucast (iob_idx b) + len"
    using assms by (subst idx_check_64) (auto simp: iob_room_def iob_wf_unat)
  then show ?thesis
    by (simp add: push_be_uint_def)
qed

lemma unat_idx_advance:
  assumes "unat (iob_idx b) + n \<le> unat (iob_size b)" "unat (len :: 'a::len word) = n"
  shows "unat (iob_idx b + ucast len) = unat (iob_idx b) + n"
proof -
  have "unat (iob_idx b) + n < 2 ^ 32"
    using assms unat_u32_less [of "iob_size b"] by simp
  moreover from this have "unat (ucast len :: u32) = n"
    using assms by (simp add: unsigned_ucast_eq take_bit_nat_eq_self_iff)
  ultimately show ?thesis
    by (simp add: unat_word_ariths)
qed

lemma push_be_uint_fits:
  assumes "iob_wf b" "0 < len" "len \<le> 8" "unat len \<le> iob_room b"
  shows "\<exists>b'. push_be_uint b len v = Some (True, b') \<and> iob_wf b' \<and>
    iob_contents b' = iob_contents b @ be_bytes (unat len) v \<and>
    iob_room b' = iob_room b - unat len \<and> iob_size b' = iob_size b"
proof -
  have len: "0 < unat len" "unat len \<le> 8"
    using assms by (simp_all add: word_le_nat_alt unat_gt_0 word_neq_0_conv)
  have fit: "unat (iob_idx b) + unat len \<le> unat (iob_size b)"
    using assms by (auto simp: iob_room_def iob_wf_unat)
  have idx: "unat (iob_idx b + ucast len) = unat (iob_idx b) + length (be_bytes (unat len) v)"
    using unat_idx_advance [OF fit refl] by simp
  have "\<not> ucast (iob_size b) < ucast (iob_idx b) + len"
    using fit len by (subst idx_check_64) auto
  moreover have "write_be_uint (iob_data b) (unat (iob_idx b)) (unat len) v = Some (True,
      take (unat (iob_idx b)) (iob_data b) @ be_bytes (unat len) v @
      drop (unat (iob_idx b) + unat len) (iob_data b))"
    using fit assms(1) len by (intro write_be_uint_eq) (auto simp: iob_wf_unat)
  ultimately show ?thesis
    using iob_append [OF assms(1) _ idx] fit by (simp add: push_be_uint_def)
qed

interpretation push_be: append_buffer
  "\<lambda>b (len, v). push_be_uint b len v" "\<lambda>(len, v). be_bytes (unat len) v" iob_wf
  "\<lambda>(len, v). 0 < len \<and> len \<le> 8"
  by unfold_locales (auto intro: push_be_uint_refused push_be_uint_fits)

definition iob_wf32 :: "io_buffer \<Rightarrow> bool" where
  "iob_wf32 b \<longleftrightarrow> iob_wf b \<and> unat (iob_size b) < 2 ^ 32 - 8"

lemma push_le_uint_refused:
  assumes "iob_wf32 b" "0 < len" "len \<le> 8" "iob_room b < unat len"
  shows "push_le_uint b len v = Some (False, b)"
proof -
  have "unat len \<le> 8"
    using assms(3) by (simp add: word_le_nat_alt)
  then have "iob_size b < iob_idx b + len"
    using assms by (subst idx_check_32) (auto simp: iob_room_def iob_wf_unat iob_wf32_def)
  then show ?thesis
    by (simp add: push_le_uint_def)
qed

lemma push_le_uint_fits:
  assumes "iob_wf32 b" "0 < len" "len \<le> 8" "unat len \<le> iob_room b"
  shows "\<exists>b'. push_le_uint b len v = Some (True, b') \<and> iob_wf32 b' \<and>
    iob_contents b' = iob_contents b @ le_bytes (unat len) v \<and>
    iob_room b' = iob_room b - unat len \<and> iob_size b' = iob_size b"
proof -
  have wf: "iob_wf b"
    using assms by (simp add: iob_wf32_def)
  have len: "0 < unat len" "unat len \<le> 8"
    using assms by (simp_all add: word_le_nat_alt unat_gt_0 word_neq_0_conv)
  have fit: "unat (iob_idx b) + unat len \<le> unat (iob_size b)"
    using assms by (auto simp: iob_room_def iob_wf_unat iob_wf32_def)
  have idx: "unat (iob_idx b + len) = unat (iob_idx b) + length (le_bytes (unat len) v)"
    using unat_idx_advance [OF fit refl] by simp
  have "\<not> iob_size b < iob_idx b + len"
    using fit unat_u32_less [of "iob_size b"] by (subst idx_check_32) auto
  moreover have "write_le_uint (iob_data b) (unat (iob_idx b)) (unat len) v = Some (True,
      take (unat (iob_idx b)) (iob_data b) @ le_bytes (unat len) v @
      drop (unat (iob_idx b) + unat len) (iob_data b))"
    using fit wf len by (intro write_le_uint_eq) (auto simp: iob_wf_unat)
  ultimately show ?thesis
    using iob_append [OF wf _ idx] fit assms(1) by (simp add: push_le_uint_def iob_wf32_def)
qed

interpretation push_le: append_buffer
  "\<lambda>b (len, v). push_le_uint b len v" "\<lambda>(len, v). le_bytes (unat len) v" iob_wf32
  "\<lambda>(len, v). 0 < len \<and> len \<le> 8"
  by unfold_locales (auto intro: push_le_uint_refused push_le_uint_fits)

lemma push_data_refused:
  assumes "iob_wf b" "length d < 2 ^ 63" "iob_room b < length d"
  shows "push_data b d (of_nat (length d)) = Some (False, b)"
proof -
  have "ucast (iob_size b) < ucast (iob_idx b) + (of_nat (length d) :: u64)"
    using assms by (subst idx_check_64) (auto simp: iob_room_def iob_wf_unat unat_of_nat_small)
  then show ?thesis
    by (simp add: push_data_def)
qed

lemma push_data_fits:
  assumes "iob_wf b" "length d < 2 ^ 63" "length d \<le> iob_room b"
  shows "\<exists>b'. push_data b d (of_nat (length d)) = Some (True, b') \<and> iob_wf b' \<and>
    iob_contents b' = iob_contents b @ d \<and>
    iob_room b' = iob_room b - length d \<and> iob_size b' = iob_size b"
proof -
  let ?len = "of_nat (length d) :: u64"
  have len: "unat ?len = length d"
    using assms by (simp add: unat_of_nat_small)
  have fit: "unat (iob_idx b) + length d \<le> unat (iob_size b)"
    using assms by (auto simp: iob_room_def iob_wf_unat)
  have idx: "unat (iob_idx b + ucast ?len) = unat (iob_idx b) + length d"
    using unat_idx_advance [OF fit len] .
  have "\<not> ucast (iob_size b) < ucast (iob_idx b) + ?len"
    using fit len assms(2) by (subst idx_check_64) auto
  then show ?thesis
    using iob_append [OF assms(1) _ idx] fit len assms(1)
    by (simp add: push_data_def mem_simps iob_wf_unat)
qed

interpretation push_bytes: append_buffer
  "\<lambda>b d. push_data b d (of_nat (length d))" "\<lambda>d. d" iob_wf "\<lambda>d. length d < 2 ^ 63"
  by unfold_locales (auto intro: push_data_refused push_data_fits)

section \<open>Properties\<close>

text \<open>
  C1. Writing a 64 bit value as a big endian integer of 1 to 8 bytes inside a buffer
  succeeds, changes only these bytes, and reading it back gives the value truncated to that
  many bytes.
\<close>

theorem be_uint_roundtrip:
  assumes "0 < len" "len \<le> 8" "p + len \<le> length mem"
  shows "\<exists>mem'. write_be_uint mem p len v = Some (True, mem') \<and>
    read_be_uint mem' p len = Some (take_bit (8 * len) v) \<and>
    take p mem' = take p mem \<and> drop (p + len) mem' = drop (p + len) mem \<and>
    length mem' = length mem"
proof -
  let ?mem' = "take p mem @ be_bytes len v @ drop (p + len) mem"
  have "read_be_uint ?mem' p len = Some (take_bit (8 * len) v)"
    using assms by (subst read_be_uint_eq) (auto simp: be_val_be_bytes of_nat_mod_pow256)
  then show ?thesis
    using assms by (auto simp: write_be_uint_eq)
qed

theorem be_uint_roundtrip_witness:
  "\<exists>mem'. write_be_uint [7, 7, 7, 7] 1 2 0x12345 = Some (True, mem') \<and>
     read_be_uint mem' 1 2 = Some 0x2345"
  using be_uint_roundtrip [of 2 1 "[7, 7, 7, 7]" "0x12345"] by auto

text \<open>
  Incrementing a big endian counter of 1 to 8 bytes in place adds one modulo
  \<open>256 ^ len\<close> (it wraps to zero after the largest value) and changes no other byte.
\<close>

theorem inc_be_uint_correct:
  assumes "0 < len" "len \<le> 8" "p + len \<le> length mem"
  shows "\<exists>mem'. inc_be_uint mem p len = Some (True, mem') \<and>
    be_val (take len (drop p mem')) = (be_val (take len (drop p mem)) + 1) mod 256 ^ len \<and>
    take p mem' = take p mem \<and> drop (p + len) mem' = drop (p + len) mem"
proof -
  let ?x = "be_val (take len (drop p mem))"
  have "?x < 256 ^ len"
    using be_val_less [of "take len (drop p mem)"] assms by simp
  moreover have "(256 :: nat) ^ len dvd 2 ^ 64"
    using assms by (simp only: pow256_eq) (rule le_imp_power_dvd, simp)
  ultimately have "unat (of_nat ?x + 1 :: u64) mod 256 ^ len = (?x + 1) mod 256 ^ len"
    by (simp add: unat_word_ariths unat_of_nat mod_mod_cancel mod_Suc_eq flip: of_nat_Suc)
  then show ?thesis
    using assms by (simp add: inc_be_uint_def read_be_uint_eq write_be_uint_eq be_val_be_bytes)
qed

theorem inc_be_uint_correct_witness:
  "\<exists>mem'. inc_be_uint [1, 0xff, 0xff, 2] 1 2 = Some (True, mem') \<and>
     be_val (take 2 (drop 1 mem')) = 0 \<and> take 1 mem' = [1]"
  using inc_be_uint_correct [of 2 1 "[1, 0xff, 0xff, 2]"]
  by (auto simp: be_val_def)



end
