(* ===== verification/Checksum.thy ===== *)
theory Checksum
  imports BBL_Prelude
begin

text \<open>
  The OSI Fletcher checksum of \<^verbatim>\<open>code/common/src/checksum.c\<close>, used for IS-IS LSPs and OSPF
  LSAs. \<open>calculate_fletcher_checksum\<close> works on \<open>int64_t\<close> sums, which are integers here (the
  lemma \<open>fletcher_loop_bounds\<close> shows that they stay in range for every buffer below 128 MiB);
  \<open>validate_fletcher_checksum\<close> works on \<open>uint64_t\<close> and keeps its word type.
\<close>

section \<open>Definitions\<close>

fun validate_loop :: "u8 list \<Rightarrow> nat \<Rightarrow> nat \<Rightarrow> u64 \<Rightarrow> u64 \<Rightarrow> (u64 \<times> u64) option" where
  "validate_loop mem p 0 c0 c1 = Some (c0, c1)"
| "validate_loop mem p (Suc n) c0 c1 =
     do { b \<leftarrow> ld mem p; validate_loop mem (Suc p) n (c0 + ucast b) (c1 + (c0 + ucast b)) }"

definition validate_fletcher_checksum :: "u8 list \<Rightarrow> nat \<Rightarrow> u16 option" where
  "validate_fletcher_checksum mem len =
     do { (c0, c1) \<leftarrow> validate_loop mem 0 len 0 0;
          Some (ucast (push_bit 8 (c1 mod 255) OR (c0 mod 255))) }"

text \<open>The C remainder of \<open>int64_t\<close> values truncates towards zero.\<close>

definition c_rem :: "int \<Rightarrow> int \<Rightarrow> int" where
  "c_rem a b = (if a < 0 then - ((- a) mod b) else a mod b)"

text \<open>One \<open>c0 += *pptr++; c1 += c0;\<close>\<close>

definition fl_step :: "u8 list \<Rightarrow> nat \<times> int \<times> int \<Rightarrow> (nat \<times> int \<times> int) option" where
  "fl_step mem = (\<lambda>(p, c0, c1).
     do { b \<leftarrow> ld mem p; Some (Suc p, c0 + int (unat b), c1 + (c0 + int (unat b))) })"

fun fl_remainder :: "u8 list \<Rightarrow> nat \<Rightarrow> nat \<times> int \<times> int \<Rightarrow> (nat \<times> int \<times> int) option" where
  "fl_remainder mem 0 s = Some s"
| "fl_remainder mem (Suc tlen) s = do { s' \<leftarrow> fl_step mem s; fl_remainder mem tlen s' }"

function fl_unrolled :: "u8 list \<Rightarrow> nat \<Rightarrow> nat \<times> int \<times> int \<Rightarrow> (nat \<times> int \<times> int) option" where
  "fl_unrolled mem tlen s =
     (if tlen \<ge> 10 then
        do { s \<leftarrow> fl_step mem s; s \<leftarrow> fl_step mem s; s \<leftarrow> fl_step mem s; s \<leftarrow> fl_step mem s;
             s \<leftarrow> fl_step mem s; s \<leftarrow> fl_step mem s; s \<leftarrow> fl_step mem s; s \<leftarrow> fl_step mem s;
             s \<leftarrow> fl_step mem s; s \<leftarrow> fl_step mem s;
             fl_unrolled mem (tlen - 10) s }
      else fl_remainder mem tlen s)"
  by pat_completeness auto
termination
  by (relation "measure (\<lambda>(mem, tlen, s). tlen)") auto

declare fl_unrolled.simps [simp del]

text \<open>
  The check octets computed from the sums; \<open>c0\<close> and \<open>c1\<close> of the source hold the sums
  \<open>S0\<close>, \<open>S1\<close> on entry and the octets \<open>x\<close>, \<open>y\<close> at the end, and \<open>d\<close> is
  \<open>length - checksum_offset\<close>.
\<close>

definition fl_octets :: "int \<Rightarrow> int \<Rightarrow> int \<Rightarrow> int \<times> int" where
  "fl_octets S0 S1 d =
     (let s0 = c_rem S0 255;
          y = c_rem (S1 - d * s0) 255;
          y = (if y \<le> 0 then y + 255 else y);
          x = 255 - y - s0
      in (if x \<le> 0 then x + 255 else x, y))"

definition calculate_fletcher_checksum :: "u8 list \<Rightarrow> nat \<Rightarrow> nat \<Rightarrow> (u16 \<times> u8 list) option" where
  "calculate_fletcher_checksum mem checksum_offset len =
     do { mem \<leftarrow> st mem checksum_offset 0;
          mem \<leftarrow> st mem (checksum_offset + 1) 0;
          (_, c0, c1) \<leftarrow> fl_unrolled mem len (0, 0, 0);
          let (x, y) = fl_octets c0 c1 (int len - int checksum_offset);
          Some (word_of_int (push_bit 8 x OR y), mem) }"

section \<open>The two sums\<close>

fun fl_S0 :: "u8 list \<Rightarrow> int" where
  "fl_S0 [] = 0"
| "fl_S0 (b # bs) = int (unat b) + fl_S0 bs"

fun fl_S1 :: "u8 list \<Rightarrow> int" where
  "fl_S1 [] = 0"
| "fl_S1 (b # bs) = int (Suc (length bs)) * int (unat b) + fl_S1 bs"

lemma fl_remainder_eq:
  "p + n \<le> length mem \<Longrightarrow>
   fl_remainder mem n (p, c0, c1) =
     Some (p + n, c0 + fl_S0 (take n (drop p mem)),
           c1 + int n * c0 + fl_S1 (take n (drop p mem)))"
proof (induction n arbitrary: p c0 c1)
  case (Suc n)
  then show ?case
    by (simp add: fl_step_def mem_simps nth_drop_Cons algebra_simps)
qed simp

text \<open>Ten times unrolled or not, the loop performs the same steps.\<close>

lemma fl_remainder_split:
  "fl_remainder mem (m + n) s = do { s' \<leftarrow> fl_remainder mem m s; fl_remainder mem n s' }"
proof (induction m arbitrary: s)
  case (Suc m)
  then have "fl_remainder mem (m + n) = (\<lambda>s. fl_remainder mem m s \<bind> fl_remainder mem n)"
    by blast
  then show ?case by (simp add: bind_assoc)
qed simp

lemma fl_unrolled_eq_remainder: "fl_unrolled mem tlen s = fl_remainder mem tlen s"
proof (induction tlen arbitrary: s rule: less_induct)
  case (less tlen)
  show ?case
  proof (cases "tlen \<ge> 10")
    case True
    define k where "k = tlen - 10"
    have k: "tlen = Suc (Suc (Suc (Suc (Suc (Suc (Suc (Suc (Suc (Suc k)))))))))"
      using True by (simp add: k_def)
    have "fl_unrolled mem k = fl_remainder mem k"
      using less [of k] by (intro ext) (simp add: k)
    moreover have "fl_remainder mem (Suc n) = (\<lambda>s. fl_step mem s \<bind> fl_remainder mem n)" for n
      by (intro ext) simp
    ultimately show ?thesis
      by (subst fl_unrolled.simps) (simp add: k del: fl_remainder.simps)
  qed (simp add: fl_unrolled.simps [of mem tlen s])
qed

lemma fl_S0_bounds: "0 \<le> fl_S0 bs \<and> fl_S0 bs \<le> 255 * int (length bs)"
proof (induction bs)
  case (Cons b bs)
  with uint_u8_less [of b] show ?case by simp
qed simp

lemma fl_S1_bounds: "0 \<le> fl_S1 bs \<and> fl_S1 bs \<le> 255 * int (length bs) * int (length bs)"
proof (induction bs)
  case (Cons b bs)
  have "int (Suc (length bs)) * int (unat b) \<le> int (Suc (length bs)) * 255"
    using uint_u8_less [of b] by (intro mult_left_mono) auto
  with Cons show ?case
    by (simp add: algebra_simps)
qed simp

lemma validate_loop_eq:
  "p + n \<le> length mem \<Longrightarrow>
   validate_loop mem p n c0 c1 =
     Some (c0 + of_int (fl_S0 (take n (drop p mem))),
           c1 + of_nat n * c0 + of_int (fl_S1 (take n (drop p mem))))"
proof (induction n arbitrary: p c0 c1)
  case (Suc n)
  then show ?case
    by (simp add: mem_simps nth_drop_Cons algebra_simps)
qed simp

lemma fl_S0_update:
  "k < length bs \<Longrightarrow> fl_S0 (bs[k := x]) = fl_S0 bs - int (unat (bs ! k)) + int (unat x)"
  by (induction bs arbitrary: k) (auto split: nat.splits)

lemma fl_S1_update:
  "k < length bs \<Longrightarrow> fl_S1 (bs[k := x]) =
     fl_S1 bs + (int (length bs) - int k) * (int (unat x) - int (unat (bs ! k)))"
  by (induction bs arbitrary: k) (auto split: nat.splits simp: algebra_simps)

text \<open>
  The \<open>int64_t\<close> accumulators of \<open>calculate_fletcher_checksum\<close> never leave their range on a
  buffer shorter than \<open>2 ^ 27\<close> bytes, and neither does the difference taken afterwards.
\<close>

lemma fletcher_loop_bounds:
  assumes "len \<le> length mem" "len < 2 ^ 27"
  obtains c0 c1 where "fl_unrolled mem len (0, 0, 0) = Some (len, c0, c1)"
    and "c0 = fl_S0 (take len mem)" and "c1 = fl_S1 (take len mem)"
    and "0 \<le> c0" and "c0 < 2 ^ 63" and "0 \<le> c1" and "c1 < 2 ^ 63"
proof -
  have "int (length (take len mem)) < 2 ^ 27"
    using assms by simp
  moreover from this have "int (length (take len mem)) * int (length (take len mem)) \<le> 2 ^ 27 * 2 ^ 27"
    by (intro mult_mono) auto
  ultimately show ?thesis
    using that [OF _ refl refl] fl_remainder_eq [of 0 len mem 0 0] assms
      fl_S0_bounds [of "take len mem"] fl_S1_bounds [of "take len mem"]
    by (simp add: fl_unrolled_eq_remainder)
qed

lemma validate_zero_iff:
  assumes "len \<le> length mem" "len < 2 ^ 27"
    and "255 dvd fl_S0 (take len mem)" "255 dvd fl_S1 (take len mem)"
  shows "validate_fletcher_checksum mem len = Some 0"
proof -
  have bnd: "int (length (take len mem)) < 2 ^ 27"
    using assms by simp
  moreover from this have "int (length (take len mem)) * int (length (take len mem)) \<le> 2 ^ 27 * 2 ^ 27"
    by (intro mult_mono) auto
  ultimately have "0 \<le> fl_S0 (take len mem)" "fl_S0 (take len mem) < 2 ^ 64"
    and "0 \<le> fl_S1 (take len mem)" "fl_S1 (take len mem) < 2 ^ 64"
    using fl_S0_bounds [of "take len mem"] fl_S1_bounds [of "take len mem"] by simp_all
  moreover have "(word_of_int x :: u64) mod 255 = 0" if "0 \<le> x" "x < 2 ^ 64" "255 dvd x" for x
    using that by (simp add: word_uint_eq_iff uint_mod uint_word_of_int)
  ultimately show ?thesis
    using assms by (simp add: validate_fletcher_checksum_def validate_loop_eq)
qed

section \<open>The check octets\<close>

lemma c_rem_255: "\<exists>q. c_rem a 255 = a - 255 * q \<and> -255 < c_rem a 255 \<and> c_rem a 255 < 255"
proof (cases "a < 0")
  case True
  have "(- a) mod 255 = - a - 255 * ((- a) div 255)"
    by (simp add: minus_mult_div_eq_mod)
  moreover have "0 \<le> (- a) mod 255" "(- a) mod 255 < 255"
    by simp_all
  ultimately show ?thesis
    using True by (intro exI [of _ "- ((- a) div 255)"]) (simp add: c_rem_def)
next
  case False
  have "a mod 255 = a - 255 * (a div 255)"
    by (simp add: minus_mult_div_eq_mod)
  moreover have "0 \<le> a mod 255" "a mod 255 < 255"
    by simp_all
  ultimately show ?thesis
    using False by (intro exI [of _ "a div 255"]) (simp add: c_rem_def)
qed

lemma fl_octets_spec:
  assumes "fl_octets S0 S1 d = (x, y)" "0 \<le> S0"
  shows "1 \<le> x \<and> x \<le> 255 \<and> 1 \<le> y \<and> y \<le> 255 \<and>
    255 dvd S0 + x + y \<and> 255 dvd S1 + d * x + (d - 1) * y"
proof -
  obtain q where q: "c_rem S0 255 = S0 - 255 * q"
    using c_rem_255 [of S0] by auto
  have s0: "0 \<le> c_rem S0 255" "c_rem S0 255 < 255"
    using assms(2) by (simp_all add: c_rem_def)
  define y0 where "y0 = c_rem (S1 - d * c_rem S0 255) 255"
  obtain r where r: "y0 = S1 - d * c_rem S0 255 - 255 * r" "-255 < y0" "y0 < 255"
    using c_rem_255 [of "S1 - d * c_rem S0 255"] by (auto simp: y0_def)
  define ey where "ey = (if y0 \<le> 0 then 1 else 0 :: int)"
  have y: "y = y0 + 255 * ey" and yb: "1 \<le> y" "y \<le> 255"
    using assms(1) r by (auto simp: fl_octets_def Let_def y0_def ey_def split: if_splits)
  define ex where "ex = (if 255 - y - c_rem S0 255 \<le> 0 then 1 else 0 :: int)"
  have x: "x = 255 - y - c_rem S0 255 + 255 * ex" and xb: "1 \<le> x" "x \<le> 255"
    using assms(1) r s0 yb by (auto simp: fl_octets_def Let_def y0_def ex_def split: if_splits)
  have "S0 + x + y = 255 * (q + 1 + ex)"
    by (simp add: x q)
  moreover have "S1 + d * x + (d - 1) * y = 255 * (r - ey + d * (1 + ex))"
    by (simp add: x y r(1) algebra_simps)
  ultimately show ?thesis
    using xb yb by (metis dvd_triv_left)
qed

lemma calculate_fletcher_eq:
  assumes "off + 1 < len" "len \<le> length mem"
    and "fl_octets (fl_S0 (take len (mem[off := 0, off + 1 := 0])))
           (fl_S1 (take len (mem[off := 0, off + 1 := 0]))) (int len - int off) = (x, y)"
  shows "calculate_fletcher_checksum mem off len =
    Some (word_of_int (push_bit 8 x OR y), mem[off := 0, off + 1 := 0])"
  using assms
  by (simp add: calculate_fletcher_checksum_def mem_simps fl_unrolled_eq_remainder
      fl_remainder_eq)

lemma unat_word_of_int_u16: "0 \<le> z \<Longrightarrow> z < 65536 \<Longrightarrow> unat (word_of_int z :: u16) = nat z"
  by (simp add: unsigned_of_int take_bit_eq_mod)

lemma octet_pair:
  assumes "0 \<le> x" "x < 256" "0 \<le> y" "y < 256"
  shows "unat (ucast (drop_bit 8 (word_of_int (push_bit 8 x OR y) :: u16)) :: u8) = nat x"
    and "unat (ucast (word_of_int (push_bit 8 x OR y) :: u16) :: u8) = nat y"
proof -
  have "take_bit 8 y = y"
    using assms by (simp add: take_bit_int_eq_self_iff)
  then have "n < 8" if "bit y n" for n
    using that by (metis bit_take_bit_iff)
  then have "push_bit 8 x AND y = 0"
    by (intro bit_eqI) (force simp: bit_simps)
  then have "push_bit 8 x OR y = x * 256 + y"
    by (simp add: push_bit_eq_mult flip: disjunctive_add_eq_or)
  then have w: "unat (word_of_int (push_bit 8 x OR y) :: u16) = nat (x * 256 + y)"
    using assms unat_word_of_int_u16 [of "x * 256 + y"] by simp
  show "unat (ucast (drop_bit 8 (word_of_int (push_bit 8 x OR y) :: u16)) :: u8) = nat x"
    using assms by (simp add: unsigned_ucast_eq drop_bit_eq_div unat_div_distrib w take_bit_eq_mod)
  show "unat (ucast (word_of_int (push_bit 8 x OR y) :: u16) :: u8) = nat y"
    using assms by (simp add: unsigned_ucast_eq w take_bit_eq_mod nat_add_distrib nat_mult_distrib)
qed

section \<open>Properties\<close>

text \<open>
  C3. Storing the calculated checksum in network byte order at its offset makes the
  buffer verify: \<open>validate_fletcher_checksum\<close> returns 0. The calculation itself stays inside
  the buffer, only clears the two checksum octets, and never produces a zero octet (which the
  protocols reserve for "no checksum").
\<close>

theorem fletcher_checksum_validates:
  assumes "off + 1 < len" "len \<le> length mem" "len < 2 ^ 27"
  shows "\<exists>chk. calculate_fletcher_checksum mem off len = Some (chk, mem[off := 0, off + 1 := 0]) \<and>
    validate_fletcher_checksum
      (mem[off := ucast (drop_bit 8 chk), off + 1 := ucast chk]) len = Some 0 \<and>
    (ucast (drop_bit 8 chk) :: u8) \<noteq> 0 \<and> (ucast chk :: u8) \<noteq> 0"
proof -
  let ?z = "take len (mem[off := 0, off + 1 := 0])"
  let ?d = "int len - int off"
  obtain x y where xy: "fl_octets (fl_S0 ?z) (fl_S1 ?z) ?d = (x, y)"
    by fastforce
  define chk :: u16 where "chk = word_of_int (push_bit 8 x OR y)"
  have calc: "calculate_fletcher_checksum mem off len = Some (chk, mem[off := 0, off + 1 := 0])"
    using calculate_fletcher_eq [OF assms(1,2) xy] by (simp add: chk_def)
  have oct: "1 \<le> x \<and> x \<le> 255 \<and> 1 \<le> y \<and> y \<le> 255 \<and>
      255 dvd fl_S0 ?z + x + y \<and> 255 dvd fl_S1 ?z + ?d * x + (?d - 1) * y"
    using fl_octets_spec [OF xy] fl_S0_bounds [of ?z] by simp
  then have hi: "unat (ucast (drop_bit 8 chk) :: u8) = nat x" and lo: "unat (ucast chk :: u8) = nat y"
    using octet_pair [of x y] by (simp_all add: chk_def)
  define m where "m = mem[off := ucast (drop_bit 8 chk), off + 1 := ucast chk]"
  have m: "take len m = ?z[off := ucast (drop_bit 8 chk), off + 1 := ucast chk]"
    by (simp add: m_def take_update_swap list_update_swap [of off "Suc off"])
  have "fl_S0 (take len m) = fl_S0 ?z + x + y" "fl_S1 (take len m) = fl_S1 ?z + ?d * x + (?d - 1) * y"
    using assms oct hi lo unfolding m
    by (simp_all add: fl_S0_update fl_S1_update take_update_swap)
  then have "validate_fletcher_checksum m len = Some 0"
    using assms oct by (intro validate_zero_iff) (auto simp: m_def)
  moreover have "(ucast (drop_bit 8 chk) :: u8) \<noteq> 0" "(ucast chk :: u8) \<noteq> 0"
    using hi lo oct by (auto simp: unat_eq_0)
  ultimately show ?thesis
    using calc by (auto simp: m_def)
qed

theorem fletcher_checksum_validates_witness:
  "\<exists>chk. calculate_fletcher_checksum [2, 8, 80, 0xff, 0xff, 137] 3 6 =
      Some (chk, [2, 8, 80, 0, 0, 137]) \<and>
    validate_fletcher_checksum [2, 8, 80, ucast (drop_bit 8 chk), ucast chk, 137] 6 = Some 0"
  using fletcher_checksum_validates [of 3 6 "[2, 8, 80, 0xff, 0xff, 137]"] by auto

text \<open>
  C4. The ten-fold unrolled summation loop visits exactly the \<open>len\<close> bytes of the buffer
  and computes the plain and the position-weighted byte sum, within the \<open>int64_t\<close> range.
\<close>

theorem fletcher_unrolled_loop_correct:
  assumes "len \<le> length mem" "len < 2 ^ 27"
  shows "fl_unrolled mem len (0, 0, 0) =
      Some (len, \<Sum>i<len. int (unat (mem ! i)), \<Sum>i<len. (int len - int i) * int (unat (mem ! i))) \<and>
    (\<Sum>i<len. int (unat (mem ! i))) < 2 ^ 63 \<and>
    (\<Sum>i<len. (int len - int i) * int (unat (mem ! i))) < 2 ^ 63"
proof -
  have S0: "fl_S0 bs = (\<Sum>i<length bs. int (unat (bs ! i)))" for bs
    by (induction bs) (simp_all add: sum.lessThan_Suc_shift del: sum.lessThan_Suc)
  have S1: "fl_S1 bs = (\<Sum>i<length bs. (int (length bs) - int i) * int (unat (bs ! i)))" for bs
    by (induction bs) (simp_all add: sum.lessThan_Suc_shift del: sum.lessThan_Suc)
  show ?thesis
    by (rule fletcher_loop_bounds [OF assms]) (use assms in \<open>simp add: S0 S1\<close>)
qed

theorem fletcher_unrolled_loop_correct_witness:
  "fl_unrolled [1, 1, 1, 1, 1, 1, 1, 1, 1, 1, 5] 11 (0, 0, 0) = Some (11, 15, 70)"
  using fletcher_unrolled_loop_correct [of 11 "[1, 1, 1, 1, 1, 1, 1, 1, 1, 1, 5]"]
  by (simp add: lessThan_nat_numeral)

end
