(* ===== verification/Net_Addr.thy ===== *)
theory Net_Addr
  imports Byte_Order
begin

text \<open>
  Address arithmetic of \<^verbatim>\<open>code/common/src/utils.c\<close>: netmasks, prefixes, multicast MAC
  addresses, MAC comparison. A \<open>uint32_t\<close> that holds an address in network byte order is the
  host's little endian reading of the four bytes, as on the x86-64 hosts the tool is built for;
  \<open>be32toh\<close> and \<open>htobe32\<close> swap its bytes.
\<close>

section \<open>Definitions\<close>

definition bswap32 :: "u32 \<Rightarrow> u32" where
  "bswap32 x = push_bit 24 (x AND 0xff) OR push_bit 8 (x AND 0xff00) OR
     drop_bit 8 (x AND 0xff0000) OR drop_bit 24 (x AND 0xff000000)"

text \<open>\<open>while(m & 0x80000000) \<dots>\<close> of \<open>ipv4_mask_to_len\<close>: each turn shifts one set bit out.\<close>

function mask_loop :: "u8 \<Rightarrow> u32 \<Rightarrow> u8 \<times> u32" where
  "mask_loop l m = (if m AND 0x80000000 \<noteq> 0 then mask_loop (l + 1) (push_bit 1 m) else (l, m))"
  by pat_completeness auto

definition set_bits :: "u32 \<Rightarrow> nat set" where
  "set_bits m = {n. n < 32 \<and> bit m n}"

lemma msb_test: "m AND 0x80000000 \<noteq> (0 :: u32) \<longleftrightarrow> bit m 31"
proof -
  have "(0x80000000 :: u32) = push_bit 31 1"
    by simp
  then show ?thesis
    by (metis and_exp_eq_0_iff_not_bit push_bit_of_1)
qed

lemma bit_shift1: "bit (m * 2 :: u32) n \<longleftrightarrow> n < 32 \<and> n \<noteq> 0 \<and> bit m (n - 1)"
proof -
  have "m * 2 = push_bit 1 m"
    by simp
  then show ?thesis
    by (simp only: bit_push_bit_iff) auto
qed

lemma finite_set_bits [simp]: "finite (set_bits m)"
  by (simp add: set_bits_def)

lemma card_set_bits_shift:
  assumes "bit m 31"
  shows "card (set_bits (m * 2)) < card (set_bits m)"
proof -
  have "set_bits (m * 2) \<subseteq> Suc ` (set_bits m - {31})"
  proof
    fix n assume "n \<in> set_bits (m * 2)"
    then have "n = Suc (n - 1)" "n - 1 \<in> set_bits m - {31}"
      by (auto simp: set_bits_def bit_shift1)
    then show "n \<in> Suc ` (set_bits m - {31})"
      by (metis imageI)
  qed
  then have "card (set_bits (m * 2)) \<le> card (Suc ` (set_bits m - {31}))"
    by (intro card_mono) auto
  also have "\<dots> = card (set_bits m - {31})"
    by (simp add: card_image)
  also have "\<dots> < card (set_bits m)"
    using assms by (intro card_Diff1_less) (auto simp: set_bits_def)
  finally show ?thesis .
qed

termination mask_loop
  by (relation "measure (\<lambda>(l, m). card (set_bits m))") (auto simp: msb_test card_set_bits_shift)

declare mask_loop.simps [simp del]

definition ipv4_mask_to_len :: "u32 \<Rightarrow> u8" where
  "ipv4_mask_to_len netmask = (let (l, m) = mask_loop 0 (bswap32 netmask) in if m \<noteq> 0 then 0 else l)"

definition ipv4_len_to_mask :: "u8 \<Rightarrow> u32" where
  "ipv4_len_to_mask len =
     (if len \<ge> 32 then 0xffffffff
      else if len = 0 then 0
      else bswap32 (NOT (push_bit (32 - unat len) 1 - 1)))"

record ipv4_prefix =
  ipv4p_len :: u8
  ipv4p_address :: u32

definition ipv4_addr_in_network :: "u32 \<Rightarrow> ipv4_prefix \<Rightarrow> bool" where
  "ipv4_addr_in_network address network =
     (let netmask = ipv4_len_to_mask (ipv4p_len network)
      in address AND netmask = ipv4p_address network AND netmask)"

text \<open>A MAC address is an array of \<open>ETH_ADDR_LEN\<close> = 6 bytes.\<close>

type_synonym mac_addr = "u8 \<times> u8 \<times> u8 \<times> u8 \<times> u8 \<times> u8"

fun mac_bytes :: "mac_addr \<Rightarrow> u8 list" where
  "mac_bytes (a, b, c, d, e, f) = [a, b, c, d, e, f]"

fun compare_mac_loop :: "u8 list \<Rightarrow> u8 list \<Rightarrow> int" where
  "compare_mac_loop (x # xs) (y # ys) =
     (if x > y then 1 else if x < y then -1 else compare_mac_loop xs ys)"
| "compare_mac_loop _ _ = 0"

definition compare_mac_addresses :: "mac_addr \<Rightarrow> mac_addr \<Rightarrow> int" where
  "compare_mac_addresses mac1 mac2 = compare_mac_loop (mac_bytes mac1) (mac_bytes mac2)"

text \<open>Storing a \<open>uint32_t\<close> through a cast pointer writes its four bytes in memory order.\<close>

definition ipv4_multicast_mac :: "u32 \<Rightarrow> u8 list \<Rightarrow> u8 list option" where
  "ipv4_multicast_mac ipv4 mac =
     do { mac \<leftarrow> st_range mac 2 (le_bytes 4 (ucast ipv4));
          mac \<leftarrow> st mac 0 0x01;
          mac \<leftarrow> st mac 1 0x00;
          mac \<leftarrow> st mac 2 0x5e;
          b \<leftarrow> ld mac 3;
          st mac 3 (b AND 0x7f) }"

definition ipv6_multicast_mac :: "u8 list \<Rightarrow> u8 list \<Rightarrow> u8 list option" where
  "ipv6_multicast_mac ipv6 mac =
     do { last4 \<leftarrow> ld_range ipv6 12 4;
          mac \<leftarrow> st_range mac 2 last4;
          mac \<leftarrow> st mac 0 0x33;
          st mac 1 0x33 }"

text \<open>
  \<open>ipv6_addr_not_zero\<close> reads two 64 bit words at the address. \<open>ipv6_prefix_not_zero\<close> passes
  \<open>(ipv6addr_t *)prefix + 1\<close>: the pointer arithmetic is in units of \<open>ipv6addr_t\<close>, 16 bytes,
  so the words are read at offset 16 of memory that starts with the 17 bytes of the prefix
  (\<open>len\<close>, then \<open>address\<close>).
\<close>

definition ipv6_addr_not_zero :: "u8 list \<Rightarrow> nat \<Rightarrow> bool option" where
  "ipv6_addr_not_zero mem p =
     do { w0 \<leftarrow> ld_range mem p 8;
          if w0 \<noteq> replicate 8 0 then Some True
          else do { w1 \<leftarrow> ld_range mem (p + 8) 8; Some (w1 \<noteq> replicate 8 0) } }"

definition ipv6_prefix_not_zero :: "u8 list \<Rightarrow> bool option" where
  "ipv6_prefix_not_zero prefix =
     do { len \<leftarrow> ld prefix 0;
          if len > 0 then ipv6_addr_not_zero prefix 16 else Some False }"

section \<open>Netmasks\<close>

text \<open>The host order mask whose \<open>j\<close> top bits are set.\<close>

definition top_mask :: "nat \<Rightarrow> u32" where
  "top_mask j = NOT (mask (32 - j))"

lemma bit_top_mask: "bit (top_mask j) n \<longleftrightarrow> n < 32 \<and> 32 - j \<le> n"
  by (auto simp: top_mask_def bit_simps)

lemma shift_top_mask: "j < 32 \<Longrightarrow> top_mask (Suc j) * 2 = top_mask j"
  by (rule bit_word_eqI) (auto simp: bit_shift1 bit_top_mask)

lemma top_mask_0 [simp]: "top_mask 0 = 0"
  by (rule bit_word_eqI) (auto simp: bit_top_mask)

lemma mask_loop_top_mask: "j \<le> 32 \<Longrightarrow> mask_loop l (top_mask j) = (l + of_nat j, 0)"
proof (induction j arbitrary: l)
  case 0
  then show ?case by (simp add: mask_loop.simps)
next
  case (Suc j)
  then show ?case
    by (simp add: mask_loop.simps [of l "top_mask (Suc j)"] msb_test bit_top_mask
        shift_top_mask algebra_simps)
qed

text \<open>The loop returns zero as rest exactly for the masks with leading ones only.\<close>

lemma mask_loop_zero:
  "mask_loop l m = (l', 0) \<Longrightarrow> \<exists>j \<le> 32. m = top_mask j"
proof (induction l m rule: mask_loop.induct)
  case (1 l m)
  show ?case
  proof (cases "bit m 31")
    case False
    with "1.prems" have "m = 0"
      by (simp add: mask_loop.simps [of l m] msb_test)
    then show ?thesis
      by (intro exI [of _ 0]) simp
  next
    case True
    with 1 obtain j where j: "j \<le> 32" "m * 2 = top_mask j"
      by (auto simp: mask_loop.simps [of l m] msb_test)
    have shifted: "bit m n \<longleftrightarrow> bit (top_mask j) (Suc n)" if "n < 31" for n
      using that by (simp add: bit_shift1 flip: j(2))
    have "m = top_mask (min 32 (Suc j))"
    proof (rule bit_word_eqI)
      fix n assume "n < LENGTH(32)"
      with True j(1) shifted [of n] show "bit m n \<longleftrightarrow> bit (top_mask (min 32 (Suc j))) n"
        by (cases "n = 31") (auto simp: bit_top_mask)
    qed
    then show ?thesis
      by (intro exI [of _ "min 32 (Suc j)"]) simp
  qed
qed

lemma bswap32_bit:
  "bit (bswap32 x) n \<longleftrightarrow> n < 32 \<and> bit x (8 * (3 - n div 8) + n mod 8)"
proof -
  have masks: "(0xff :: u32) = mask 8" "(0xff00 :: u32) = push_bit 8 (mask 8)"
    "(0xff0000 :: u32) = push_bit 16 (mask 8)" "(0xff000000 :: u32) = push_bit 24 (mask 8)"
    by (simp_all add: mask_eq_exp_minus_1)
  consider "n < 8" | "8 \<le> n" "n < 16" | "16 \<le> n" "n < 24" | "24 \<le> n" "n < 32" | "32 \<le> n"
    by linarith
  then show ?thesis
  proof cases
    case 1
    then have "n div 8 = 0" "n mod 8 = n" by auto
    with 1 show ?thesis by (simp add: bswap32_def masks bit_simps add.commute)
  next
    case 2
    then have "n div 8 = 1" "n mod 8 = n - 8" by presburger+
    with 2 show ?thesis by (auto simp: bswap32_def masks bit_simps add.commute)
  next
    case 3
    then have "n div 8 = 2" "n mod 8 = n - 16" by presburger+
    with 3 show ?thesis by (auto simp: bswap32_def masks bit_simps add.commute)
  next
    case 4
    then have "n div 8 = 3" "n mod 8 = n - 24" by presburger+
    with 4 show ?thesis by (auto simp: bswap32_def masks bit_simps add.commute)
  next
    case 5
    then show ?thesis by (simp add: bswap32_def bit_simps)
  qed
qed

lemma bswap_index: "n < 32 \<Longrightarrow> 8 * (3 - n div 8) + n mod 8 < (32 :: nat)"
  by presburger

lemma bswap_index_involution:
  assumes "n < (32 :: nat)"
  shows "(let k = 8 * (3 - n div 8) + n mod 8 in 8 * (3 - k div 8) + k mod 8) = n"
proof -
  have "n div 8 \<le> 3"
    using assms by simp
  then show ?thesis
    by (simp add: Let_def div_mult_self4 mult.commute)
qed

lemma bswap32_involution [simp]: "bswap32 (bswap32 x) = x"
  by (rule bit_word_eqI) (use bswap_index_involution bswap_index in \<open>simp add: bswap32_bit Let_def\<close>)

lemma bswap32_and: "bswap32 (x AND y) = bswap32 x AND bswap32 y"
  by (rule bit_word_eqI) (auto simp: bswap32_bit bit_simps bswap_index)

lemma bswap32_inj [simp]: "bswap32 x = bswap32 y \<longleftrightarrow> x = y"
  by (metis bswap32_involution)

lemma len_to_mask_top:
  assumes "len \<le> 32"
  shows "ipv4_len_to_mask len = bswap32 (top_mask (unat len))"
proof -
  have full: "bswap32 (top_mask 32) = 0xffffffff"
  proof (rule bit_word_eqI)
    have ones: "(0xffffffff :: u32) = mask 32"
      by (simp add: mask_eq_exp_minus_1)
    fix n assume "n < LENGTH(32)"
    then show "bit (bswap32 (top_mask 32)) n \<longleftrightarrow> bit (0xffffffff :: u32) n"
      by (simp add: ones bit_mask_iff bswap32_bit bit_top_mask bswap_index)
  qed
  consider "len = 32" | "len = 0" | "len < 32" "len \<noteq> 0"
    using assms by fastforce
  then show ?thesis
  proof cases
    case 1
    then show ?thesis using full by (simp add: ipv4_len_to_mask_def)
  next
    case 2
    then show ?thesis by (simp add: ipv4_len_to_mask_def bswap32_def)
  next
    case 3
    then have "\<not> len \<ge> 32" by simp
    with 3 show ?thesis
      by (simp add: ipv4_len_to_mask_def top_mask_def mask_eq_exp_minus_1)
  qed
qed

section \<open>Properties\<close>

definition lin_cmp :: "'a::linorder \<Rightarrow> 'a \<Rightarrow> int" where
  "lin_cmp x y = (if x < y then -1 else if y < x then 1 else 0)"

lemma lin_cmp_Pair:
  "lin_cmp (x, r) (y, s) = (if x > y then 1 else if x < y then -1 else lin_cmp r s)"
  by (auto simp: lin_cmp_def)

lemma lin_cmp_flip: "lin_cmp x y = (if x > y then 1 else if x < y then -1 else 0)"
  by (auto simp: lin_cmp_def)

lemma compare_mac_lin_cmp: "compare_mac_addresses m1 m2 = lin_cmp m1 m2"
  by (cases m1; cases m2) (simp add: compare_mac_addresses_def lin_cmp_Pair lin_cmp_flip [of "_ :: u8"])

interpretation mac_order: comparator compare_mac_addresses "\<lambda>m. m"
  by unfold_locales (simp add: compare_mac_lin_cmp lin_cmp_def)

text \<open>
  C5. \<open>ipv4_mask_to_len\<close> inverts \<open>ipv4_len_to_mask\<close> on every prefix length from 0 to 32, and
  every netmask it maps to a non-zero length is the mask of that length: a mask with a hole is
  reported as 0.
\<close>

theorem ipv4_mask_len_roundtrip:
  "(len \<le> 32 \<longrightarrow> ipv4_mask_to_len (ipv4_len_to_mask len) = len) \<and>
   (ipv4_mask_to_len netmask \<noteq> 0 \<longrightarrow>
      ipv4_mask_to_len netmask \<le> 32 \<and> ipv4_len_to_mask (ipv4_mask_to_len netmask) = netmask)"
proof (intro conjI impI)
  assume "len \<le> 32"
  moreover from this have "unat len \<le> 32"
    by (simp add: word_le_nat_alt)
  ultimately show "ipv4_mask_to_len (ipv4_len_to_mask len) = len"
    by (simp add: ipv4_mask_to_len_def len_to_mask_top mask_loop_top_mask)
next
  assume nz: "ipv4_mask_to_len netmask \<noteq> 0"
  obtain l m where lm: "mask_loop 0 (bswap32 netmask) = (l, m)"
    by fastforce
  with nz have "m = 0"
    by (auto simp: ipv4_mask_to_len_def split: if_splits)
  with lm obtain j where j: "j \<le> 32" "bswap32 netmask = top_mask j"
    using mask_loop_zero by blast
  then have len: "ipv4_mask_to_len netmask = of_nat j"
    by (simp add: ipv4_mask_to_len_def mask_loop_top_mask)
  have uj: "unat (of_nat j :: u8) = j"
    using j by (simp add: unat_of_nat_small)
  then show le: "ipv4_mask_to_len netmask \<le> 32"
    using j len by (simp add: word_le_nat_alt)
  show "ipv4_len_to_mask (ipv4_mask_to_len netmask) = netmask"
    using le j uj by (metis bswap32_involution len len_to_mask_top)
qed

theorem ipv4_mask_len_roundtrip_witness:
  "ipv4_mask_to_len (ipv4_len_to_mask 24) = 24 \<and> ipv4_mask_to_len 0x00ff00ff = 0"
proof
  show "ipv4_mask_to_len (ipv4_len_to_mask 24) = 24"
    using ipv4_mask_len_roundtrip [of 24] by simp
  show "ipv4_mask_to_len 0x00ff00ff = 0"
    by (simp add: ipv4_mask_to_len_def bswap32_def mask_loop.simps)
qed

text \<open>
  C6. An address belongs to a network exactly when its first \<open>len\<close> bits in network byte order
  are those of the network address; with \<open>len = 0\<close> every address belongs to it.
\<close>

theorem ipv4_addr_in_network_iff:
  assumes "ipv4p_len n \<le> 32"
  shows "ipv4_addr_in_network a n \<longleftrightarrow>
    drop_bit (32 - unat (ipv4p_len n)) (bswap32 a) =
    drop_bit (32 - unat (ipv4p_len n)) (bswap32 (ipv4p_address n))"
proof -
  let ?k = "32 - unat (ipv4p_len n)"
  have len: "unat (ipv4p_len n) \<le> 32"
    using assms by (simp add: word_le_nat_alt)
  have drop: "drop_bit ?k x = drop_bit ?k y \<longleftrightarrow> (x AND top_mask (unat (ipv4p_len n))) =
      (y AND top_mask (unat (ipv4p_len n)))" for x y :: u32
  proof
    assume eq: "drop_bit ?k x = drop_bit ?k y"
    show "x AND top_mask (unat (ipv4p_len n)) = y AND top_mask (unat (ipv4p_len n))"
    proof (rule bit_word_eqI)
      fix i assume "i < LENGTH(32)"
      moreover have "bit x i = bit y i" if "?k \<le> i"
        using arg_cong [OF eq, of "\<lambda>w. bit w (i - ?k)"] that by (simp add: bit_simps)
      ultimately show "bit (x AND top_mask (unat (ipv4p_len n))) i =
          bit (y AND top_mask (unat (ipv4p_len n))) i"
        by (auto simp: bit_simps bit_top_mask)
    qed
  next
    assume eq: "x AND top_mask (unat (ipv4p_len n)) = y AND top_mask (unat (ipv4p_len n))"
    show "drop_bit ?k x = drop_bit ?k y"
    proof (rule bit_word_eqI)
      fix i assume "i < LENGTH(32)"
      show "bit (drop_bit ?k x) i = bit (drop_bit ?k y) i"
        using arg_cong [OF eq, of "\<lambda>w. bit w (?k + i)"]
        by (auto simp: bit_simps bit_top_mask dest: bit_imp_le_length)
    qed
  qed
  have "a AND ipv4_len_to_mask (ipv4p_len n) =
      bswap32 (bswap32 a AND top_mask (unat (ipv4p_len n)))" for a
    by (simp add: len_to_mask_top assms bswap32_and)
  then show ?thesis
    by (simp add: ipv4_addr_in_network_def Let_def drop)
qed

theorem ipv4_addr_in_network_iff_witness:
  "ipv4_addr_in_network 0x0502000a \<lparr>ipv4p_len = 16, ipv4p_address = 0x0000000a\<rparr> \<and>
   \<not> ipv4_addr_in_network 0x0502010a \<lparr>ipv4p_len = 16, ipv4p_address = 0x0000000a\<rparr>"
  using ipv4_addr_in_network_iff [of "\<lparr>ipv4p_len = 16, ipv4p_address = 0x0000000a\<rparr>"]
  by (simp add: bswap32_def)

text \<open>
  C7. \<open>ipv6_prefix_not_zero\<close> does not look at the address of the prefix: given the 17 bytes
  of an \<open>ipv6_prefix\<close> with a non-zero length and nothing behind them, its read leaves the
  structure, and with memory behind it the first 15 bytes of the address have no influence
  on the answer.
\<close>

theorem ipv6_prefix_not_zero_reads_past_address:
  "(length prefix = 17 \<and> prefix ! 0 \<noteq> 0 \<longrightarrow> ipv6_prefix_not_zero prefix = None) \<and>
   (length addr15 = 15 \<and> length addr15' = 15 \<longrightarrow>
      ipv6_prefix_not_zero (len # addr15 @ tail) = ipv6_prefix_not_zero (len # addr15' @ tail))"
proof (intro conjI impI)
  assume "length prefix = 17 \<and> prefix ! 0 \<noteq> 0"
  then show "ipv6_prefix_not_zero prefix = None"
    by (simp add: ipv6_prefix_not_zero_def ld_def word_neq_0_conv ipv6_addr_not_zero_def
        ld_range_def)
next
  assume len: "length addr15 = 15 \<and> length addr15' = 15"
  then have "ld_range (len # addr15 @ tail) 16 8 = ld_range (len # addr15' @ tail) 16 8"
    and "ld_range (len # addr15 @ tail) 24 8 = ld_range (len # addr15' @ tail) 24 8"
    by (simp_all add: ld_range_def)
  then show "ipv6_prefix_not_zero (len # addr15 @ tail) = ipv6_prefix_not_zero (len # addr15' @ tail)"
    by (simp add: ipv6_prefix_not_zero_def ld_def ipv6_addr_not_zero_def cong: if_cong)
qed

theorem ipv6_prefix_not_zero_reads_past_address_witness:
  "ipv6_prefix_not_zero (64 # 0x20 # replicate 15 0) = None \<and>
   ipv6_prefix_not_zero (64 # 0x20 # replicate 14 0 @ replicate 16 0) = Some False"
proof
  show "ipv6_prefix_not_zero (64 # 0x20 # replicate 15 0) = None"
    using ipv6_prefix_not_zero_reads_past_address [of "64 # 0x20 # replicate 15 0"] by simp
  show "ipv6_prefix_not_zero (64 # 0x20 # replicate 14 0 @ replicate 16 0) = Some False"
    by code_simp
qed

end
