(* ===== verification/Text_Utils.thy ===== *)
theory Text_Utils
  imports Net_Addr
begin

text \<open>
  Text routines of \<^verbatim>\<open>code/common/src/utils.c\<close>: the key/value tables, printing and scanning of
  IPv4 and ISO prefixes, substring replacement. A C string is the list of its characters
  before the terminating NUL. The parts of the C library they call (\<open>strtok_r\<close>, \<open>atoi\<close>,
  \<open>sscanf\<close> with \<open>%hhu\<close>, \<open>inet_ntop\<close>, \<open>inet_pton\<close>, \<open>strstr\<close>) are written out first.
  Which of the rotating static result buffers is used is not modelled.
\<close>

section \<open>C library\<close>

definition is_digit :: "char \<Rightarrow> bool" where
  "is_digit c \<longleftrightarrow> (48 :: nat) \<le> of_char c \<and> of_char c \<le> (57 :: nat)"

definition digit_val :: "char \<Rightarrow> nat" where
  "digit_val c = of_char c - 48"

definition digit_char :: "nat \<Rightarrow> char" where
  "digit_char d = char_of (48 + d)"

definition is_space :: "char \<Rightarrow> bool" where
  "is_space c \<longleftrightarrow> of_char c \<in> {9, 10, 11, 12, 13, 32 :: nat}"

text \<open>\<open>%u\<close> and \<open>%d\<close> of a non-negative value.\<close>

fun dec_str :: "nat \<Rightarrow> string" where
  "dec_str n = (if n < 10 then [digit_char n] else dec_str (n div 10) @ [digit_char (n mod 10)])"

declare dec_str.simps [simp del]

fun read_dec :: "nat \<Rightarrow> string \<Rightarrow> nat" where
  "read_dec acc [] = acc"
| "read_dec acc (c # cs) = (if is_digit c then read_dec (acc * 10 + digit_val c) cs else acc)"

text \<open>\<open>strtol\<close> in base 10, clamped to the range of a \<open>long\<close>.\<close>

definition clamp_long :: "int \<Rightarrow> int" where
  "clamp_long x = max (- (2 ^ 63)) (min (2 ^ 63 - 1) x)"

definition c_strtol :: "string \<Rightarrow> int" where
  "c_strtol s = (case dropWhile is_space s of
       [] \<Rightarrow> 0
     | c # cs \<Rightarrow> if c = CHR ''-'' then clamp_long (- int (read_dec 0 cs))
               else if c = CHR ''+'' then clamp_long (int (read_dec 0 cs))
               else clamp_long (int (read_dec 0 (c # cs))))"

text \<open>\<open>%hhu\<close>: no conversion without a digit, otherwise the value truncated to a byte.\<close>

definition scan_hhu :: "string \<Rightarrow> u8 option" where
  "scan_hhu s = (case dropWhile is_space s of
       [] \<Rightarrow> None
     | c # cs \<Rightarrow>
         let neg = (c = CHR ''-''); ds = (if c = CHR ''-'' \<or> c = CHR ''+'' then cs else c # cs)
         in case ds of
              [] \<Rightarrow> None
            | d # _ \<Rightarrow> if is_digit d
                then Some (word_of_int ((if neg then -1 else 1) * min (2 ^ 64 - 1) (int (read_dec 0 ds))))
                else None)"

text \<open>One call of \<open>strtok_r\<close>: skipped delimiters, token, and the rest behind the delimiter.\<close>

definition strtok_slash :: "string \<Rightarrow> (string \<times> string \<times> string) option" where
  "strtok_slash s =
     (let lead = takeWhile (\<lambda>c. c = CHR ''/'') s;
          rest = dropWhile (\<lambda>c. c = CHR ''/'') s;
          tok = takeWhile (\<lambda>c. c \<noteq> CHR ''/'') rest
      in if rest = [] then None else Some (lead, tok, drop (length tok + 1) rest))"

text \<open>\<open>inet_ntop(AF_INET, \<dots>)\<close> on the four address bytes.\<close>

definition ntop4 :: "u8 list \<Rightarrow> string" where
  "ntop4 bs = concat (map (\<lambda>i. (if i = 0 then [] else ''.'') @ dec_str (unat (bs ! i))) [0..<4])"

text \<open>
  \<open>inet_pton(AF_INET, \<dots>)\<close>: the octets read so far, in reverse order, the value of the octet
  being read, and whether it has a digit yet.
\<close>

fun pton4 :: "nat list \<Rightarrow> nat \<Rightarrow> bool \<Rightarrow> string \<Rightarrow> u8 list option" where
  "pton4 octets cur saw [] =
     (if saw \<and> length octets = 3 then Some (map of_nat (rev (cur # octets))) else None)"
| "pton4 octets cur saw (c # cs) =
     (if is_digit c then
        let new = cur * 10 + digit_val c
        in if (saw \<and> cur = 0) \<or> new > 255 \<or> (\<not> saw \<and> length octets \<ge> 4) then None
           else pton4 octets new True cs
      else if c = CHR ''.'' \<and> saw then
        if length octets \<ge> 3 then None else pton4 (cur # octets) 0 False cs
      else None)"

definition inet_pton4 :: "string \<Rightarrow> u8 list option" where
  "inet_pton4 s = pton4 [] 0 False s"

definition strstr :: "string \<Rightarrow> string \<Rightarrow> nat option" where
  "strstr s sub = find (\<lambda>i. take (length sub) (drop i s) = sub) [0..<Suc (length s)]"

section \<open>Key/value tables\<close>

record keyval =
  kv_val :: u32
  kv_key :: string

text \<open>A table ends at the entry whose key pointer is NULL; the list holds the entries before.\<close>

fun val2key :: "keyval list \<Rightarrow> u32 \<Rightarrow> string" where
  "val2key [] val = ''Unknown''"
| "val2key (kv # kvs) val = (if val = kv_val kv then kv_key kv else val2key kvs val)"

fun key2val :: "keyval list \<Rightarrow> string \<Rightarrow> u32" where
  "key2val [] key = 0"
| "key2val (kv # kvs) key = (if kv_key kv = key then kv_val kv else key2val kvs key)"

fun keyval_get_key :: "keyval list \<Rightarrow> u32 \<Rightarrow> string" where
  "keyval_get_key [] val = ''unknown''"
| "keyval_get_key (kv # kvs) val = (if kv_val kv = val then kv_key kv else keyval_get_key kvs val)"

section \<open>IPv4 text\<close>

definition format_ipv4_address :: "u32 \<Rightarrow> string" where
  "format_ipv4_address addr4 = ntop4 (le_bytes 4 (ucast addr4))"

text \<open>\<open>snprintf(\<dots>, 5, "/%d", len)\<close> keeps at most four characters.\<close>

definition format_ipv4_prefix :: "ipv4_prefix \<Rightarrow> string" where
  "format_ipv4_prefix p =
     format_ipv4_address (ipv4p_address p) @ take 4 (''/'' @ dec_str (unat (ipv4p_len p)))"

definition word_of_bytes4 :: "u8 list \<Rightarrow> u32" where
  "word_of_bytes4 bs = of_nat (le_val bs)"

definition scan_ipv4_address :: "string \<Rightarrow> u32 \<Rightarrow> bool \<times> u32" where
  "scan_ipv4_address s ipv4 =
     (case inet_pton4 s of None \<Rightarrow> (False, ipv4) | Some bs \<Rightarrow> (True, word_of_bytes4 bs))"

definition scan_ipv4_prefix :: "string \<Rightarrow> ipv4_prefix \<Rightarrow> bool \<times> ipv4_prefix" where
  "scan_ipv4_prefix s ipv4 =
     (let s' = takeWhile (\<lambda>c. c \<noteq> CHR ''/'') s;
          has_slash = CHR ''/'' \<in> set s;
          ipv4 = (if has_slash
                  then case scan_hhu (drop (length s' + 1) s) of
                         None \<Rightarrow> ipv4
                       | Some l \<Rightarrow> ipv4\<lparr>ipv4p_len := l\<rparr>
                  else ipv4\<lparr>ipv4p_len := 24\<rparr>)
      in if has_slash \<and> ipv4p_len ipv4 > 32 then (False, ipv4)
         else case inet_pton4 s' of
                None \<Rightarrow> (False, ipv4)
              | Some bs \<Rightarrow> (True, ipv4\<lparr>ipv4p_address := word_of_bytes4 bs\<rparr>))"

section \<open>ISO prefixes\<close>

record iso_prefix =
  isop_len :: u8
  isop_address :: "u8 list"

definition hextable :: "string" where
  "hextable = ''0123456789abcdef''"

text \<open>The loop of \<open>format_iso_prefix\<close> from byte \<open>i\<close> on, \<open>n\<close> bytes to go.\<close>

fun format_iso_loop :: "u8 list \<Rightarrow> nat \<Rightarrow> nat \<Rightarrow> nat \<Rightarrow> string" where
  "format_iso_loop address prefix_len i 0 = []"
| "format_iso_loop address prefix_len i (Suc n) =
     [hextable ! unat (drop_bit 4 (address ! i)), hextable ! unat ((address ! i) AND 0xf)] @
     (if i mod 2 = 0 \<and> i + 1 < prefix_len then ''.'' else []) @
     format_iso_loop address prefix_len (Suc i) n"

definition format_iso_prefix :: "iso_prefix \<Rightarrow> string" where
  "format_iso_prefix pfx =
     (if unat (isop_len pfx) > 20 * 8 then []
      else let prefix_len = (unat (isop_len pfx) + 7) div 8
           in format_iso_loop (isop_address pfx) prefix_len 0 prefix_len @
              ''/'' @ dec_str (unat (isop_len pfx)))"

text \<open>One character of \<open>scan_iso_prefix\<close>: the new \<open>val\<close> and \<open>digit\<close>.\<close>

definition iso_char :: "char \<Rightarrow> u16 \<Rightarrow> nat \<Rightarrow> u16 \<times> nat" where
  "iso_char c val digit =
     (let k = (of_char c :: nat) in
      if 48 \<le> k \<and> k \<le> 57 then (push_bit 4 val OR of_nat (k - 48), digit + 1)
      else if 97 \<le> k \<and> k \<le> 102 then (push_bit 4 val OR of_nat (k - 97), digit + 1)
      else if 65 \<le> k \<and> k \<le> 70 then (push_bit 4 val OR of_nat (k - 65), digit + 1)
      else (val, digit))"

fun scan_iso_loop :: "string \<Rightarrow> u16 \<Rightarrow> nat \<Rightarrow> nat \<Rightarrow> u8 list \<Rightarrow> bool \<times> u8 list" where
  "scan_iso_loop [] val digit prefix_idx address = (True, address)"
| "scan_iso_loop (c # cs) val digit prefix_idx address =
     (let (val, digit) = iso_char c val digit in
      if prefix_idx \<ge> 20 then (False, address)
      else if digit = 2
           then scan_iso_loop cs val 0 (Suc prefix_idx) (address[prefix_idx := ucast (val AND 0xff)])
           else scan_iso_loop cs val digit prefix_idx address)"

text \<open>\<open>uint16_t len = strlen(s)\<close> is the length modulo \<open>2 ^ 16\<close>.\<close>

definition scan_iso_prefix :: "string \<Rightarrow> bool \<times> iso_prefix" where
  "scan_iso_prefix str =
     (let pfx = \<lparr>isop_len = 0, isop_address = replicate 20 0\<rparr> in
      case strtok_slash str of
        None \<Rightarrow> (False, pfx)
      | Some (lead, tok, rest) \<Rightarrow>
          let s = lead @ tok;
              (ok, address) = scan_iso_loop (take (length s mod 2 ^ 16) s) 0 0 0 (isop_address pfx);
              pfx = pfx\<lparr>isop_address := address\<rparr>
          in if \<not> ok then (False, pfx)
             else case strtok_slash rest of
                    None \<Rightarrow> (True, pfx)
                  | Some (_, tok, _) \<Rightarrow> (True, pfx\<lparr>isop_len := word_of_int (c_strtol tok)\<rparr>))"

section \<open>Substring replacement\<close>

definition SUB_STR_LEN :: nat where
  "SUB_STR_LEN = 256"

text \<open>
  The loop of \<open>replace_substring\<close>: \<open>cur\<close> is what is left of the source, \<open>result_len\<close> the
  length the result would have without the limit, \<open>out\<close> what has been copied. With an empty
  \<open>old\<close> string the loop makes no progress; not returning is \<^term>\<open>None\<close>.
\<close>

partial_function (option) replace_loop ::
    "string \<Rightarrow> string \<Rightarrow> string \<Rightarrow> nat \<Rightarrow> string \<Rightarrow> string option" where
  "replace_loop old new cur result_len out =
     (if cur = [] then Some out
      else case strstr cur old of
             Some c \<Rightarrow>
               replace_loop old new (drop (c + length old) cur) (result_len + (c + length new))
                 (if result_len + (c + length new) < SUB_STR_LEN then out @ take c cur @ new else out)
           | None \<Rightarrow>
               Some (if result_len + length cur < SUB_STR_LEN then out @ cur else out))"

definition replace_substring :: "string \<Rightarrow> string \<Rightarrow> string \<Rightarrow> string option" where
  "replace_substring source old new = replace_loop old new source 0 []"

section \<open>Decimal numbers\<close>

lemma is_digit_digit_char: "d < 10 \<Longrightarrow> is_digit (digit_char d)"
  by (simp add: is_digit_def digit_char_def)

lemma digit_val_digit_char [simp]: "d < 10 \<Longrightarrow> digit_val (digit_char d) = d"
  by (simp add: digit_val_def digit_char_def)

lemma dec_str_digits: "c \<in> set (dec_str n) \<Longrightarrow> is_digit c"
proof (induction n rule: dec_str.induct)
  case (1 n)
  then show ?case
    by (cases "n < 10") (auto simp: dec_str.simps [of n] is_digit_digit_char)
qed

lemma dec_str_not_Nil [simp]: "dec_str n \<noteq> []"
  by (subst dec_str.simps) simp

lemma read_dec_append:
  "(\<forall>c \<in> set ds. is_digit c) \<Longrightarrow> read_dec acc (ds @ rest) = read_dec (read_dec acc ds) rest"
  by (induction ds arbitrary: acc) auto

lemma read_dec_stop: "rest = [] \<or> \<not> is_digit (hd rest) \<Longrightarrow> read_dec acc rest = acc"
  by (cases rest) auto

lemma read_dec_dec_str: "read_dec 0 (dec_str n) = n"
proof (induction n rule: dec_str.induct)
  case (1 n)
  show ?case
  proof (cases "n < 10")
    case True
    then show ?thesis
      by (simp add: dec_str.simps [of n] is_digit_digit_char)
  next
    case False
    with 1 have "read_dec 0 (dec_str (n div 10)) = n div 10" by simp
    with False show ?thesis
      by (simp add: dec_str.simps [of n] read_dec_append dec_str_digits is_digit_digit_char)
  qed
qed

lemma dec_str_Cons: obtains c cs where "dec_str n = c # cs" "is_digit c"
  by (metis dec_str_digits dec_str_not_Nil list.set_intros(1) neq_Nil_conv)

lemma digit_not_special:
  "is_digit c \<Longrightarrow> \<not> is_space c \<and> c \<noteq> CHR ''-'' \<and> c \<noteq> CHR ''+'' \<and> c \<noteq> CHR ''/'' \<and> c \<noteq> CHR ''.''"
  by (auto simp: is_digit_def is_space_def)

lemma scan_hhu_dec_str:
  assumes "n < 256"
  shows "scan_hhu (dec_str n) = Some (of_nat n)"
proof -
  obtain c cs where c: "dec_str n = c # cs" "is_digit c"
    by (rule dec_str_Cons)
  have "read_dec 0 (c # cs) = n"
    using read_dec_dec_str [of n] c by simp
  with c assms show ?thesis
    by (simp add: scan_hhu_def digit_not_special del: read_dec.simps)
qed

lemma c_strtol_dec_str:
  assumes "n < 256"
  shows "c_strtol (dec_str n) = int n"
proof -
  obtain c cs where c: "dec_str n = c # cs" "is_digit c"
    by (rule dec_str_Cons)
  have "read_dec 0 (c # cs) = n"
    using read_dec_dec_str [of n] c by simp
  with c assms show ?thesis
    by (simp add: c_strtol_def clamp_long_def digit_not_special del: read_dec.simps)
qed

section \<open>IPv4 round trip\<close>

text \<open>\<open>pton4\<close> consumes one printed octet.\<close>

lemma pton4_digits:
  "n < 256 \<Longrightarrow> length octets < 4 \<Longrightarrow>
   pton4 octets 0 False (dec_str n @ rest) = pton4 octets n True rest"
proof (induction n arbitrary: rest rule: dec_str.induct)
  case (1 n)
  show ?case
  proof (cases "n < 10")
    case True
    with 1 show ?thesis
      by (simp add: dec_str.simps [of n] is_digit_digit_char)
  next
    case False
    then have "n div 10 \<noteq> 0" by simp
    with 1 False show ?thesis
      by (simp add: dec_str.simps [of n] is_digit_digit_char Let_def)
  qed
qed

lemma ntop4_eq:
  "ntop4 [a, b, c, d] = dec_str (unat a) @ CHR ''.'' # dec_str (unat b) @ CHR ''.'' #
     dec_str (unat c) @ CHR ''.'' # dec_str (unat d)"
  by (simp add: ntop4_def upt_rec)

lemma inet_pton4_ntop4: "inet_pton4 (ntop4 [a, b, c, d]) = Some [a, b, c, d]"
proof -
  have dot: "\<not> is_digit CHR ''.''"
    by (simp add: is_digit_def)
  have last: "pton4 os 0 False (dec_str n) = pton4 os n True []" if "n < 256" "length os < 4" for os n
    using pton4_digits [of n os "[]"] that by simp
  show ?thesis
    by (simp add: inet_pton4_def ntop4_eq pton4_digits last unat_u8_less dot)
qed

lemma le_bytes_word_of_bytes4:
  assumes "le_bytes 4 (ucast addr) = bs"
  shows "word_of_bytes4 bs = addr"
proof -
  have "le_val bs = unat addr"
    using unat_u32_less [of addr] unfolding assms [symmetric] le_val_le_bytes by simp
  then show ?thesis
    by (simp add: word_of_bytes4_def)
qed

lemma ntop4_no_slash: "CHR ''/'' \<notin> set (ntop4 [a, b, c, d])"
  by (auto simp: ntop4_eq dest!: dec_str_digits simp: is_digit_def)

section \<open>ISO round trip\<close>

text \<open>What \<open>scan_iso_prefix\<close> makes of the two hexadecimal digits of a byte.\<close>

definition iso_rescan :: "u8 \<Rightarrow> u8" where
  "iso_rescan b = of_nat (16 * (unat (drop_bit 4 b) mod 10) + unat (b AND 0xf) mod 10)"

lemma hextable_char:
  "k < 16 \<Longrightarrow> of_char (hextable ! k) = (if k < 10 then 48 + k else 87 + k)"
proof -
  assume "k < 16"
  then have "k \<in> set [0..<16]" by simp
  then show ?thesis
    by (simp add: upt_rec) (elim disjE; simp add: hextable_def)
qed

lemma iso_char_hextable:
  assumes "k < 16"
  shows "iso_char (hextable ! k) val digit = (push_bit 4 val OR of_nat (k mod 10), Suc digit)"
proof (cases "k < 10")
  case True
  then show ?thesis
    by (simp add: iso_char_def hextable_char Let_def)
next
  case False
  then have "87 + k - 97 = k - 10" and "k mod 10 = k - 10"
    using assms by presburger+
  with False assms show ?thesis
    by (simp add: iso_char_def hextable_char Let_def)
qed

lemma iso_char_dot: "iso_char CHR ''.'' val digit = (val, digit)"
  by (simp add: iso_char_def)

lemma nibble_bounds: "unat (drop_bit 4 (b :: u8)) < 16" "unat (b AND 0xf) < 16"
proof -
  show "unat (drop_bit 4 b) < 16"
    using unat_u8_less [of b] by (simp add: drop_bit_eq_div unat_div_distrib)
  show "unat (b AND 0xf) < 16"
    using word_and_le1 [of b "0xf"] by (simp add: word_le_nat_alt)
qed

lemma two_nibbles:
  assumes "h < 10" "l < 10"
  shows "(ucast ((push_bit 4 (push_bit 4 val OR of_nat h) OR of_nat l :: u16) AND 0xff) :: u8) =
    of_nat (16 * h + l)"
proof -
  have lt: "n < 4" if "bit x n" "x < 16" for x n :: nat
  proof -
    have "take_bit 4 x = x"
      using that(2) by (simp add: take_bit_nat_eq_self_iff)
    then show ?thesis
      using that(1) by (metis bit_take_bit_iff)
  qed
  have "push_bit 4 h AND l = 0"
    by (rule bit_eqI) (use lt [of l] assms(2) in \<open>fastforce simp: bit_simps\<close>)
  then have sum: "16 * h + l = push_bit 4 h OR l"
    by (simp add: push_bit_eq_mult flip: disjunctive_add_eq_or)
  have mask: "(0xff :: u16) = mask 8"
    by (simp add: mask_eq_exp_minus_1)
  show ?thesis
    unfolding sum mask
    by (rule bit_word_eqI) (use lt [of l] assms(2) in \<open>auto simp: bit_simps\<close>)
qed

lemma scan_iso_loop_format:
  "i + n = prefix_len \<Longrightarrow> prefix_len \<le> 20 \<Longrightarrow> length address = 20 \<Longrightarrow> length A = 20 \<Longrightarrow>
   scan_iso_loop (format_iso_loop address prefix_len i n) val 0 i A =
     (True, take i A @ map iso_rescan (take n (drop i address)) @ drop (i + n) A)"
proof (induction n arbitrary: i val A)
  case (Suc n)
  let ?b = "address ! i"
  let ?hi = "unat (drop_bit 4 ?b)" and ?lo = "unat (?b AND 0xf)"
  let ?v = "push_bit 4 (push_bit 4 val OR of_nat (?hi mod 10)) OR of_nat (?lo mod 10) :: u16"
  have b: "ucast (?v AND 0xff) = iso_rescan ?b"
    unfolding iso_rescan_def by (rule two_nibbles) simp_all
  have dot: "scan_iso_loop ((if i mod 2 = 0 \<and> i + 1 < prefix_len then ''.'' else []) @ cs) v 0 (Suc i) A' =
      scan_iso_loop cs v 0 (Suc i) A'" for cs v A'
    using Suc.prems by (simp add: iso_char_dot)
  have "scan_iso_loop (format_iso_loop address prefix_len i (Suc n)) val 0 i A =
      scan_iso_loop (format_iso_loop address prefix_len (Suc i) n) ?v 0 (Suc i) (A[i := iso_rescan ?b])"
    using Suc.prems dot by (simp add: iso_char_hextable nibble_bounds b [simplified])
  also have "\<dots> = (True, take (Suc i) (A[i := iso_rescan ?b]) @
      map iso_rescan (take n (drop (Suc i) address)) @ drop (Suc i + n) (A[i := iso_rescan ?b]))"
    using Suc.prems by (intro Suc.IH) auto
  finally show ?case
    using Suc.prems by (simp add: take_Suc_conv_app_nth nth_drop_Cons)
qed simp

section \<open>Replacement without a limit\<close>

lemma strstr_Some:
  assumes "strstr s sub = Some i"
  shows "take (length sub) (drop i s) = sub" "i \<le> length s"
  using assms by (auto simp: strstr_def find_Some_iff simp del: upt_Suc)

function replace_all :: "string \<Rightarrow> string \<Rightarrow> string \<Rightarrow> string" where
  "replace_all old new cur =
     (if old = [] \<or> cur = [] then cur
      else case strstr cur old of
             None \<Rightarrow> cur
           | Some c \<Rightarrow> take c cur @ new @ replace_all old new (drop (c + length old) cur))"
  by pat_completeness auto
termination
  by (relation "measure (\<lambda>(old, new, cur). length cur)") (auto dest: strstr_Some(2))

declare replace_all.simps [simp del]

lemma replace_loop_total:
  "old \<noteq> [] \<Longrightarrow> length out \<le> result_len \<Longrightarrow> length out < SUB_STR_LEN \<Longrightarrow>
   \<exists>r. replace_loop old new cur result_len out = Some r \<and> length r < SUB_STR_LEN \<and>
       (result_len + length (replace_all old new cur) < SUB_STR_LEN \<longrightarrow>
          r = out @ replace_all old new cur)"
proof (induction old new cur arbitrary: result_len out rule: replace_all.induct)
  case (1 old new cur)
  show ?case
  proof (cases "cur = []")
    case True
    with "1.prems" show ?thesis
      by (simp add: replace_loop.simps replace_all.simps)
  next
    case nonempty: False
    show ?thesis
    proof (cases "strstr cur old")
      case None
      with nonempty "1.prems" show ?thesis
        by (simp add: replace_loop.simps [of old new cur] replace_all.simps [of old new cur])
    next
      case (Some c)
      define rl where "rl = result_len + (c + length new)"
      define out' where "out' = (if rl < SUB_STR_LEN then out @ take c cur @ new else out)"
      have c: "c \<le> length cur"
        using strstr_Some(2) [OF Some] .
      have "length out' \<le> rl" "length out' < SUB_STR_LEN"
        using "1.prems" c by (auto simp: out'_def rl_def)
      then obtain r where r: "replace_loop old new (drop (c + length old) cur) rl out' = Some r"
        "length r < SUB_STR_LEN"
        "rl + length (replace_all old new (drop (c + length old) cur)) < SUB_STR_LEN \<longrightarrow>
          r = out' @ replace_all old new (drop (c + length old) cur)"
        using "1.IH" [OF _ Some "1.prems"(1)] nonempty "1.prems"(1) by blast
      have "replace_loop old new cur result_len out = Some r"
        using nonempty Some r(1)
        by (simp add: replace_loop.simps [of old new cur] rl_def out'_def)
      moreover have "replace_all old new cur =
          take c cur @ new @ replace_all old new (drop (c + length old) cur)"
        using nonempty Some "1.prems"(1) by (simp add: replace_all.simps [of old new cur])
      ultimately show ?thesis
        using r(2,3) c by (auto simp: out'_def rl_def)
    qed
  qed
qed

lemma replace_loop_diverges: "cur \<noteq> [] \<Longrightarrow> replace_loop [] new cur result_len out = None"
proof (rule ccontr)
  assume cur: "cur \<noteq> []" and "replace_loop [] new cur result_len out \<noteq> None"
  then obtain r where r: "replace_loop [] new cur result_len out = Some r"
    by blast
  have "([] :: string) = [] \<longrightarrow> cur \<noteq> [] \<longrightarrow> False"
  proof (rule replace_loop.raw_induct [where P = "\<lambda>old new cur rl out r. old = [] \<longrightarrow> cur \<noteq> [] \<longrightarrow> False", OF _ r])
    fix f :: "string \<Rightarrow> string \<Rightarrow> string \<Rightarrow> nat \<Rightarrow> string \<Rightarrow> string option" and old new cur rl out r
    assume IH: "\<And>old new cur rl out r. f old new cur rl out = Some r \<Longrightarrow> old = [] \<longrightarrow> cur \<noteq> [] \<longrightarrow> False"
      and eq: "(if cur = [] then Some out
        else case strstr cur old of
               None \<Rightarrow> Some (if rl + length cur < SUB_STR_LEN then out @ cur else out)
             | Some c \<Rightarrow> f old new (drop (c + length old) cur) (rl + (c + length new))
                 (if rl + (c + length new) < SUB_STR_LEN then out @ take c cur @ new else out)) = Some r"
    have "strstr cur [] = Some 0"
      by (simp add: strstr_def upt_rec)
    then show "old = [] \<longrightarrow> cur \<noteq> [] \<longrightarrow> False"
      using eq IH by fastforce
  qed
  with cur show False by simp
qed

section \<open>Properties\<close>

text \<open>
  C8. Scanning the printed form of an IPv4 prefix with a length of at most 32 succeeds and
  gives the prefix back, whatever the target held before.
\<close>

theorem ipv4_prefix_text_roundtrip:
  assumes "ipv4p_len p \<le> 32"
  shows "scan_ipv4_prefix (format_ipv4_prefix p) old = (True, p)"
proof -
  obtain a b c d where bytes: "le_bytes 4 (ucast (ipv4p_address p)) = [a, b, c, d]"
    by simp
  let ?n = "unat (ipv4p_len p)"
  have n: "?n \<le> 32"
    using assms by (simp add: word_le_nat_alt)
  then have "length (dec_str ?n) \<le> 2"
    by (auto simp: dec_str.simps [of ?n] dec_str.simps [of "?n div 10"])
  then have printed: "format_ipv4_prefix p = ntop4 [a, b, c, d] @ CHR ''/'' # dec_str ?n"
    by (simp add: format_ipv4_prefix_def format_ipv4_address_def bytes del: le_bytes_numeral)
  have split: "takeWhile (\<lambda>x. x \<noteq> CHR ''/'') (ntop4 [a, b, c, d] @ CHR ''/'' # t) = ntop4 [a, b, c, d]" for t
    by (rule takeWhile_upto [OF ntop4_no_slash])
  have addr: "word_of_bytes4 [a, b, c, d] = ipv4p_address p"
    by (rule le_bytes_word_of_bytes4 [OF bytes])
  have "\<not> 32 < ipv4p_len p"
    using assms by simp
  then show ?thesis
    using n unfolding printed scan_ipv4_prefix_def split
    by (simp add: scan_hhu_dec_str inet_pton4_ntop4 addr Let_def)
qed

theorem ipv4_prefix_text_roundtrip_witness:
  "scan_ipv4_prefix (format_ipv4_prefix \<lparr>ipv4p_len = 24, ipv4p_address = 0x0002010a\<rparr>)
     \<lparr>ipv4p_len = 0, ipv4p_address = 0\<rparr> = (True, \<lparr>ipv4p_len = 24, ipv4p_address = 0x0002010a\<rparr>)"
  using ipv4_prefix_text_roundtrip [of "\<lparr>ipv4p_len = 24, ipv4p_address = 0x0002010a\<rparr>"] by simp

text \<open>
  C9. Scanning the printed form of a non-empty ISO prefix (at most 160 bits, zero beyond its
  length) returns the prefix with every hexadecimal digit \<open>a\<close> to \<open>f\<close> read as \<open>0\<close> to
  \<open>5\<close>: \<open>scan_iso_prefix\<close> subtracts \<open>'a'\<close> and does not add ten. The round trip is exact
  for addresses whose digits are all decimal.
\<close>

theorem iso_prefix_text_rescan:
  assumes "0 < isop_len p" "isop_len p \<le> 160" "length (isop_address p) = 20"
    and "drop ((unat (isop_len p) + 7) div 8) (isop_address p) =
         replicate (20 - (unat (isop_len p) + 7) div 8) 0"
  shows "scan_iso_prefix (format_iso_prefix p) =
    (True, p\<lparr>isop_address := map iso_rescan (isop_address p)\<rparr>)"
proof -
  let ?n = "unat (isop_len p)"
  let ?k = "(?n + 7) div 8"
  let ?body = "format_iso_loop (isop_address p) ?k 0 ?k"
  have n: "0 < ?n" "?n \<le> 160"
    using assms(1,2) by (simp_all add: word_le_nat_alt unat_gt_0 word_neq_0_conv)
  then have k: "?k \<le> 20" "0 < ?k"
    by auto
  have no_slash: "i + m = ?k \<Longrightarrow> CHR ''/'' \<notin> set (format_iso_loop (isop_address p) ?k i m)" for i m
  proof (induction m arbitrary: i)
    case (Suc m)
    have "of_char CHR ''/'' \<noteq> (of_char (hextable ! j) :: nat)" if "j < 16" for j
      using that by (simp add: hextable_char)
    then have "CHR ''/'' \<noteq> hextable ! j" if "j < 16" for j
      using that by metis
    with Suc show ?case
      using nibble_bounds [of "isop_address p ! i"] by auto
  qed simp
  have len: "length (format_iso_loop (isop_address p) ?k i m) \<le> 3 * m" for i m
    by (induction m arbitrary: i) (auto intro: le_SucI)
  have body: "?body \<noteq> []" "CHR ''/'' \<notin> set ?body" "length ?body < 2 ^ 16"
    using k no_slash [of 0 ?k] len [of 0 ?k] by (auto simp: gr0_conv_Suc)
  have dec: "CHR ''/'' \<notin> set (dec_str ?n)"
    by (auto dest!: dec_str_digits simp: is_digit_def)
  have tok1: "strtok_slash (?body @ CHR ''/'' # dec_str ?n) = Some ([], ?body, dec_str ?n)"
    using body by (cases ?body) (auto simp: strtok_slash_def takeWhile_upto Let_def)
  have tok2: "strtok_slash (dec_str ?n) = Some ([], dec_str ?n, [])"
  proof -
    have tok: "takeWhile (\<lambda>c. c \<noteq> CHR ''/'') (dec_str ?n) = dec_str ?n"
      using dec by (auto simp: takeWhile_eq_all_conv)
    have lead: "takeWhile (\<lambda>c. c = CHR ''/'') (dec_str ?n) = []"
      "dropWhile (\<lambda>c. c = CHR ''/'') (dec_str ?n) = dec_str ?n"
      using dec by (cases "dec_str ?n"; auto)+
    show ?thesis
      unfolding strtok_slash_def Let_def lead tok by simp
  qed
  have loop: "scan_iso_loop ?body 0 0 0 (replicate 20 0) = (True, map iso_rescan (isop_address p))"
    (is "_ = (True, ?r)")
  proof -
    have "?r = map iso_rescan (take ?k (isop_address p) @ drop ?k (isop_address p))"
      by simp
    also have "\<dots> = map iso_rescan (take ?k (isop_address p)) @ replicate (20 - ?k) 0"
      unfolding assms(4) by (simp add: iso_rescan_def)
    finally show ?thesis
      using scan_iso_loop_format [of 0 ?k ?k "isop_address p" "replicate 20 0" 0] k assms(3) by simp
  qed
  have "format_iso_prefix p = ?body @ CHR ''/'' # dec_str ?n"
    using n by (simp add: format_iso_prefix_def Let_def)
  then show ?thesis
    using body(3) n unat_u8_less [of "isop_len p"]
    by (simp add: scan_iso_prefix_def tok1 tok2 loop c_strtol_dec_str)
qed

theorem iso_prefix_text_rescan_witness:
  "scan_iso_prefix (format_iso_prefix \<lparr>isop_len = 24, isop_address = [0x49, 0x00, 0xa9] @ replicate 17 0\<rparr>)
     = (True, \<lparr>isop_len = 24, isop_address = [0x49, 0x00, 0x09] @ replicate 17 0\<rparr>)"
proof -
  have "iso_rescan 0x49 = 0x49" "iso_rescan 0xa9 = 0x09" "iso_rescan 0 = 0"
    by (simp_all add: iso_rescan_def)
  then show ?thesis
    using iso_prefix_text_rescan
      [of "\<lparr>isop_len = 24, isop_address = [0x49, 0x00, 0xa9] @ replicate 17 0\<rparr>"]
    by simp
qed



text \<open>
  A prefix length of 256 or more is not rejected by \<open>scan_ipv4_prefix\<close>: \<open>%hhu\<close> stores it
  modulo 256 before the range check. Every printed address with the suffix \<open>/n\<close> is accepted
  exactly when \<open>n mod 256\<close> is at most 32, and gets that length.
\<close>

theorem scan_ipv4_prefix_wraps_length:
  assumes "n < 2 ^ 64"
  shows "scan_ipv4_prefix (ntop4 [a, b, c, d] @ ''/'' @ dec_str n) old =
    (n mod 256 \<le> 32,
     if n mod 256 \<le> 32
     then \<lparr>ipv4p_len = of_nat n, ipv4p_address = word_of_bytes4 [a, b, c, d]\<rparr>
     else old\<lparr>ipv4p_len := of_nat n\<rparr>)"
proof -
  obtain x xs where x: "dec_str n = x # xs" "is_digit x"
    by (rule dec_str_Cons)
  have "read_dec 0 (x # xs) = n"
    using read_dec_dec_str [of n] x by simp
  moreover have "min (2 ^ 64 - 1) (int n) = int n"
    using assms by simp
  ultimately have scan: "scan_hhu (dec_str n) = Some (of_nat n)"
    using x by (simp add: scan_hhu_def digit_not_special del: read_dec.simps)
  have "32 < (of_nat n :: u8) \<longleftrightarrow> \<not> n mod 256 \<le> 32"
    by (auto simp: word_less_nat_alt unat_of_nat)
  then show ?thesis
    by (simp add: scan_ipv4_prefix_def takeWhile_upto ntop4_no_slash scan inet_pton4_ntop4 Let_def)
qed

theorem scan_ipv4_prefix_wraps_length_witness:
  "fst (scan_ipv4_prefix (ntop4 [10, 0, 0, 0] @ ''/'' @ dec_str 280) \<lparr>ipv4p_len = 0, ipv4p_address = 0\<rparr>) \<and>
   ipv4p_len (snd (scan_ipv4_prefix (ntop4 [10, 0, 0, 0] @ ''/'' @ dec_str 280)
     \<lparr>ipv4p_len = 0, ipv4p_address = 0\<rparr>)) = 24"
  using scan_ipv4_prefix_wraps_length [of 280 10 0 0 0 "\<lparr>ipv4p_len = 0, ipv4p_address = 0\<rparr>"]
  by simp

text \<open>
  On a table without repeated values and keys the two lookups are inverse to each
  other, for every entry of the table; a value that is not in the table prints as
  \<open>Unknown\<close>.
\<close>

theorem keyval_roundtrip:
  assumes "distinct (map kv_val tab)" "distinct (map kv_key tab)"
  shows "(kv \<in> set tab \<longrightarrow> key2val tab (val2key tab (kv_val kv)) = kv_val kv \<and>
            val2key tab (key2val tab (kv_key kv)) = kv_key kv) \<and>
         (v \<notin> kv_val ` set tab \<longrightarrow> val2key tab v = ''Unknown'')"
proof -
  have v2k: "distinct (map kv_val t) \<Longrightarrow> kv \<in> set t \<Longrightarrow> val2key t (kv_val kv) = kv_key kv" for t kv
    by (induction t) (auto simp: rev_image_eqI)
  have k2v: "distinct (map kv_key t) \<Longrightarrow> kv \<in> set t \<Longrightarrow> key2val t (kv_key kv) = kv_val kv" for t kv
    by (induction t) (auto simp: rev_image_eqI)
  have "v \<notin> kv_val ` set t \<Longrightarrow> val2key t v = ''Unknown''" for t
    by (induction t) auto
  with v2k k2v assms show ?thesis by simp
qed

theorem keyval_roundtrip_witness:
  "key2val [\<lparr>kv_val = 1, kv_key = ''p2p''\<rparr>, \<lparr>kv_val = 2, kv_key = ''broadcast''\<rparr>]
     (val2key [\<lparr>kv_val = 1, kv_key = ''p2p''\<rparr>, \<lparr>kv_val = 2, kv_key = ''broadcast''\<rparr>] 2) = 2"
  using keyval_roundtrip [of "[\<lparr>kv_val = 1, kv_key = ''p2p''\<rparr>, \<lparr>kv_val = 2, kv_key = ''broadcast''\<rparr>]"
      "\<lparr>kv_val = 2, kv_key = ''broadcast''\<rparr>"] by simp

end
