(* ===== verification/Timespec.thy ===== *)
theory Timespec
  imports BBL_Prelude
begin

text \<open>
  \<open>struct timespec\<close> arithmetic of \<^verbatim>\<open>code/common/src/timer.c\<close> and \<open>timespec_to_nsec\<close> of
  \<^verbatim>\<open>code/common/src/utils.c\<close>. \<open>time_t\<close> and \<open>long\<close> are 64 bit; the sums here are
  integers. The source writes the nanoseconds of a second as the double \<open>1e9\<close>; the values
  involved are far below \<open>2 ^ 53\<close>, where doubles are exact, so it is the integer here.
\<close>

record timespec =
  tv_sec :: int
  tv_nsec :: int

abbreviation NSEC :: int where
  "NSEC \<equiv> 1000000000"

definition b2i :: "bool \<Rightarrow> int" where
  "b2i b = (if b then 1 else 0)"

definition timespec_compare :: "timespec \<Rightarrow> timespec \<Rightarrow> int" where
  "timespec_compare ts1 ts2 =
     (if tv_sec ts1 = tv_sec ts2
      then b2i (tv_nsec ts1 > tv_nsec ts2) - b2i (tv_nsec ts1 < tv_nsec ts2)
      else b2i (tv_sec ts1 > tv_sec ts2) - b2i (tv_sec ts1 < tv_sec ts2))"

definition timespec_add :: "timespec \<Rightarrow> timespec \<Rightarrow> timespec" where
  "timespec_add x y =
     (let sec = tv_sec x + tv_sec y; nsec = tv_nsec x + tv_nsec y
      in if nsec \<ge> NSEC then \<lparr>tv_sec = sec + 1, tv_nsec = nsec - NSEC\<rparr>
         else \<lparr>tv_sec = sec, tv_nsec = nsec\<rparr>)"

definition timespec_sub :: "timespec \<Rightarrow> timespec \<Rightarrow> timespec" where
  "timespec_sub x y =
     (if tv_sec x < tv_sec y then \<lparr>tv_sec = 0, tv_nsec = 0\<rparr>
      else if tv_nsec x < tv_nsec y then
        if tv_sec x = tv_sec y then \<lparr>tv_sec = 0, tv_nsec = 0\<rparr>
        else \<lparr>tv_sec = tv_sec x - tv_sec y - 1, tv_nsec = tv_nsec x + NSEC - tv_nsec y\<rparr>
      else \<lparr>tv_sec = tv_sec x - tv_sec y, tv_nsec = tv_nsec x - tv_nsec y\<rparr>)"

definition timespec_to_nsec :: "timespec \<Rightarrow> u64" where
  "timespec_to_nsec t = word_of_int (tv_sec t * NSEC + tv_nsec t)"

section \<open>Nanoseconds\<close>

definition ts_ns :: "timespec \<Rightarrow> int" where
  "ts_ns t = tv_sec t * NSEC + tv_nsec t"

definition ts_norm :: "timespec \<Rightarrow> bool" where
  "ts_norm t \<longleftrightarrow> 0 \<le> tv_nsec t \<and> tv_nsec t < NSEC"

interpretation ts_order: comparator timespec_compare "\<lambda>t. (tv_sec t, tv_nsec t)"
  by unfold_locales (auto simp: timespec_compare_def b2i_def)

lemma ts_compare_ns:
  "ts_norm x \<Longrightarrow> ts_norm y \<Longrightarrow> timespec_compare x y = sgn (ts_ns x - ts_ns y)"
  by (auto simp: timespec_compare_def b2i_def ts_norm_def ts_ns_def sgn_if)

lemma ts_add_ns: "ts_ns (timespec_add x y) = ts_ns x + ts_ns y"
  by (simp add: timespec_add_def ts_ns_def Let_def algebra_simps)

lemma ts_add_norm: "ts_norm x \<Longrightarrow> ts_norm y \<Longrightarrow> ts_norm (timespec_add x y)"
  by (simp add: timespec_add_def ts_norm_def Let_def)

lemma ts_sub_norm: "ts_norm x \<Longrightarrow> ts_norm y \<Longrightarrow> ts_norm (timespec_sub x y)"
  by (simp add: timespec_sub_def ts_norm_def)

lemma ts_sub_ns: "ts_norm x \<Longrightarrow> ts_norm y \<Longrightarrow> ts_ns (timespec_sub x y) = max 0 (ts_ns x - ts_ns y)"
  by (simp add: timespec_sub_def ts_norm_def ts_ns_def max_def)

lemmas ts_simps = ts_compare_ns ts_add_ns ts_add_norm ts_sub_norm ts_sub_ns

section \<open>Properties\<close>



end
