(* ===== verification/Timer.thy ===== *)
theory Timer
  imports Timespec
begin

text \<open>
  The timer library of \<^verbatim>\<open>code/common/src/timer.c\<close>: timers with the same interval share a
  bucket, a queue ordered by insertion; deletions and restarts from within a walk are deferred
  to a change queue; deleted timers go to a garbage queue and are recycled.

  The heap is explicit. A \<open>timer_s\<close>, a \<open>timer_bucket_s\<close> and a client's \<open>timer_s *\<close>
  variable are known by their address, and a queue is the list of the addresses linked in it.
  Following a NULL or dangling pointer, or taking a queue head for a timer, has the value
  \<^term>\<open>None\<close>. \<open>calloc\<close> hands out a fresh address as long as \<open>tr_mem\<close> is positive and
  fails afterwards. The clock readings of an operation are arguments of it. The counters are
  \<open>uint32_t\<close> in the source and natural numbers here; by the invariant they are lengths of
  queues. \<open>nanosleep\<close> is the result of a walk.

  The callbacks of a walk are the client's; what they do to timers is a list of calls of this
  library, so a callback is a function from its timer to such a list.
\<close>

section \<open>State\<close>

type_synonym tid = nat
type_synonym bid = nat
type_synonym slot = nat

record timer =
  tm_expire :: timespec
  tm_timestamp :: "timespec option"
  tm_bucket :: "bid option"
  tm_ptimer :: "slot option"
  tm_data :: nat
  tm_cb :: "nat option"
  tm_expired :: bool
  tm_periodic :: bool
  tm_reset :: bool
  tm_delete :: bool
  tm_on_change :: bool
  tm_name :: string

record bucket =
  bk_q :: "tid list"
  bk_sec :: int
  bk_nsec :: int
  bk_timers :: nat

record timer_root =
  tr_bucket_q :: "bid list"
  tr_gc_q :: "tid list"
  tr_change_q :: "tid list"
  tr_buckets :: nat
  tr_gc :: nat
  tr_timer :: "tid \<rightharpoonup> timer"
  tr_bucket :: "bid \<rightharpoonup> bucket"
  tr_slot :: "slot \<rightharpoonup> tid"
  tr_next :: nat
  tr_mem :: nat

definition upd_timer :: "tid \<Rightarrow> (timer \<Rightarrow> timer) \<Rightarrow> timer_root \<Rightarrow> timer_root option" where
  "upd_timer t f r = do { tm \<leftarrow> tr_timer r t; Some (r\<lparr>tr_timer := (tr_timer r)(t \<mapsto> f tm)\<rparr>) }"

definition upd_bucket :: "bid \<Rightarrow> (bucket \<Rightarrow> bucket) \<Rightarrow> timer_root \<Rightarrow> timer_root option" where
  "upd_bucket b f r = do { bk \<leftarrow> tr_bucket r b; Some (r\<lparr>tr_bucket := (tr_bucket r)(b \<mapsto> f bk)\<rparr>) }"

text \<open>The entry behind \<open>x\<close> in a queue; the last entry has none.\<close>

fun q_next :: "'a \<Rightarrow> 'a list \<Rightarrow> 'a option" where
  "q_next x (y # ys) = (if x = y then (case ys of [] \<Rightarrow> None | z # _ \<Rightarrow> Some z) else q_next x ys)"
| "q_next x [] = None"

definition q_first :: "'a list \<Rightarrow> 'a option" where
  "q_first xs = (case xs of [] \<Rightarrow> None | x # _ \<Rightarrow> Some x)"

section \<open>Operations\<close>

definition timer_set_expire :: "int \<Rightarrow> int \<Rightarrow> timer \<Rightarrow> timer" where
  "timer_set_expire sec nsec tm =
     (let s = tv_sec (tm_expire tm) + sec; n = tv_nsec (tm_expire tm) + nsec
      in tm\<lparr>tm_expire := (if n \<ge> NSEC then \<lparr>tv_sec = s + 1, tv_nsec = n - NSEC\<rparr>
                         else \<lparr>tv_sec = s, tv_nsec = n\<rparr>),
            tm_expired := False\<rparr>)"

definition timer_change :: "tid \<Rightarrow> timer_root \<Rightarrow> timer_root option" where
  "timer_change t r =
     do { tm \<leftarrow> tr_timer r t;
          if tm_on_change tm then Some r
          else do { b \<leftarrow> tm_bucket tm;
                    _ \<leftarrow> tr_bucket r b;
                    upd_timer t (tm_on_change_update (\<lambda>_. True))
                      (r\<lparr>tr_change_q := tr_change_q r @ [t]\<rparr>) } }"

definition find_bucket :: "timer_root \<Rightarrow> int \<Rightarrow> int \<Rightarrow> bid option" where
  "find_bucket r sec nsec =
     find (\<lambda>b. case tr_bucket r b of None \<Rightarrow> False
                | Some bk \<Rightarrow> bk_sec bk = sec \<and> bk_nsec bk = nsec) (tr_bucket_q r)"

definition bucket_insert :: "tid \<Rightarrow> bid \<Rightarrow> timer_root \<Rightarrow> timer_root option" where
  "bucket_insert t b r =
     do { r \<leftarrow> upd_timer t (tm_bucket_update (\<lambda>_. Some b)) r;
          upd_bucket b (\<lambda>bk. bk\<lparr>bk_q := bk_q bk @ [t], bk_timers := bk_timers bk + 1\<rparr>) r }"

definition timer_enqueue_bucket :: "tid \<Rightarrow> int \<Rightarrow> int \<Rightarrow> timer_root \<Rightarrow> timer_root option" where
  "timer_enqueue_bucket t sec nsec r =
     (case find_bucket r sec nsec of
        Some b \<Rightarrow> bucket_insert t b r
      | None \<Rightarrow>
          if tr_mem r = 0 then Some r
          else let b = tr_next r
               in bucket_insert t b
                    (r\<lparr>tr_bucket_q := tr_bucket_q r @ [b],
                       tr_bucket := (tr_bucket r)(b \<mapsto> \<lparr>bk_q = [], bk_sec = sec, bk_nsec = nsec, bk_timers = 0\<rparr>),
                       tr_buckets := tr_buckets r + 1,
                       tr_next := b + 1, tr_mem := tr_mem r - 1\<rparr>))"

definition timer_dequeue_bucket :: "tid \<Rightarrow> timer_root \<Rightarrow> timer_root option" where
  "timer_dequeue_bucket t r =
     do { tm \<leftarrow> tr_timer r t;
          b \<leftarrow> tm_bucket tm;
          bk \<leftarrow> tr_bucket r b;
          let bk' = bk\<lparr>bk_q := remove1 t (bk_q bk), bk_timers := bk_timers bk - 1\<rparr>;
          let r' = r\<lparr>tr_timer := (tr_timer r)(t \<mapsto> tm\<lparr>tm_bucket := None\<rparr>)\<rparr>;
          if bk_timers bk' = 0
          then Some (r'\<lparr>tr_bucket_q := remove1 b (tr_bucket_q r),
                        tr_bucket := (tr_bucket r)(b := None),
                        tr_buckets := tr_buckets r - 1\<rparr>)
          else Some (r'\<lparr>tr_bucket := (tr_bucket r)(b \<mapsto> bk')\<rparr>) }"

definition timer_requeue :: "tid \<Rightarrow> int \<Rightarrow> int \<Rightarrow> timer_root \<Rightarrow> timer_root option" where
  "timer_requeue t sec nsec r =
     do { tm \<leftarrow> tr_timer r t;
          b \<leftarrow> tm_bucket tm;
          bk \<leftarrow> tr_bucket r b;
          r \<leftarrow> upd_timer t (timer_set_expire sec nsec) r;
          if bk_sec bk = sec \<and> bk_nsec bk = nsec
          then upd_bucket b (\<lambda>bk. bk\<lparr>bk_q := remove1 t (bk_q bk) @ [t]\<rparr>) r
          else do { r \<leftarrow> timer_dequeue_bucket t r; timer_enqueue_bucket t sec nsec r } }"

fun smear_loop :: "tid list \<Rightarrow> timespec \<Rightarrow> timespec \<Rightarrow> timer_root \<Rightarrow> timer_root option" where
  "smear_loop [] now step r = Some r"
| "smear_loop (t # ts) now step r =
     do { let e = timespec_add now step;
          r \<leftarrow> upd_timer t (tm_expire_update (\<lambda>_. e)) r;
          smear_loop ts e step r }"

definition timer_smear_bucket_internal :: "bid \<Rightarrow> timespec \<Rightarrow> timer_root \<Rightarrow> timer_root option" where
  "timer_smear_bucket_internal b now r =
     do { bk \<leftarrow> tr_bucket r b;
          if bk_timers bk > 1 \<and> bk_q bk \<noteq> []
          then do { last_timer \<leftarrow> tr_timer r (last (bk_q bk));
                    let diff = timespec_sub (tm_expire last_timer) now;
                    let step_nsec = (tv_sec diff * NSEC + tv_nsec diff) div int (bk_timers bk);
                    let step = \<lparr>tv_sec = step_nsec div NSEC, tv_nsec = step_nsec - step_nsec div NSEC * NSEC\<rparr>;
                    smear_loop (bk_q bk) now step r }
          else Some r }"

definition timer_smear_bucket :: "int \<Rightarrow> int \<Rightarrow> timespec \<Rightarrow> timer_root \<Rightarrow> timer_root option" where
  "timer_smear_bucket sec nsec now r =
     (case find_bucket r sec nsec of
        None \<Rightarrow> Some r
      | Some b \<Rightarrow> timer_smear_bucket_internal b now r)"

fun smear_buckets :: "(bid \<Rightarrow> timespec) \<Rightarrow> bid list \<Rightarrow> timer_root \<Rightarrow> timer_root option" where
  "smear_buckets now [] r = Some r"
| "smear_buckets now (b # bs) r =
     do { r \<leftarrow> timer_smear_bucket_internal b (now b) r; smear_buckets now bs r }"

definition timer_smear_all_buckets :: "(bid \<Rightarrow> timespec) \<Rightarrow> timer_root \<Rightarrow> timer_root option" where
  "timer_smear_all_buckets now r = smear_buckets now (tr_bucket_q r) r"

definition timer_del_internal :: "tid \<Rightarrow> timer_root \<Rightarrow> timer_root option" where
  "timer_del_internal t r =
     do { tm \<leftarrow> tr_timer r t;
          case tm_bucket tm of
            None \<Rightarrow> Some r
          | Some b \<Rightarrow>
              do { r \<leftarrow> timer_dequeue_bucket t r;
                   let r = r\<lparr>tr_gc_q := tr_gc_q r @ [t], tr_gc := tr_gc r + 1\<rparr>;
                   case tm_ptimer tm of
                     None \<Rightarrow> Some r
                   | Some s \<Rightarrow> upd_timer t (tm_ptimer_update (\<lambda>_. None)) (r\<lparr>tr_slot := (tr_slot r)(s := None)\<rparr>) } }"

definition timer_del :: "tid option \<Rightarrow> timer_root \<Rightarrow> timer_root option" where
  "timer_del timer r =
     (case timer of
        None \<Rightarrow> Some r
      | Some t \<Rightarrow> do { r \<leftarrow> upd_timer t (tm_delete_update (\<lambda>_. True)) r; timer_change t r })"

text \<open>One turn of the loop of \<open>timer_process_changes\<close>, for the first timer of the queue.\<close>

definition process_change :: "timespec \<Rightarrow> tid \<Rightarrow> timer_root \<Rightarrow> timer_root option" where
  "process_change now t r =
     do { tm \<leftarrow> tr_timer r t;
          r \<leftarrow> upd_timer t (tm_on_change_update (\<lambda>_. False)) (r\<lparr>tr_change_q := remove1 t (tr_change_q r)\<rparr>);
          if tm_delete tm then timer_del_internal t r
          else if tm_periodic tm then
            do { r \<leftarrow> (if tm_reset tm then upd_timer t (tm_expire_update (\<lambda>_. now)) r else Some r);
                 b \<leftarrow> tm_bucket tm;
                 bk \<leftarrow> tr_bucket r b;
                 timer_requeue t (bk_sec bk) (bk_nsec bk) r }
          else Some r }"

partial_function (option) timer_process_changes :: "timespec \<Rightarrow> timer_root \<Rightarrow> timer_root option" where
  "timer_process_changes now r =
     (case tr_change_q r of
        [] \<Rightarrow> Some r
      | t # _ \<Rightarrow> do { r \<leftarrow> process_change now t r; timer_process_changes now r })"

definition zero_timer :: timer where
  "zero_timer = \<lparr>tm_expire = \<lparr>tv_sec = 0, tv_nsec = 0\<rparr>, tm_timestamp = None, tm_bucket = None,
     tm_ptimer = None, tm_data = 0, tm_cb = None, tm_expired = False, tm_periodic = False,
     tm_reset = False, tm_delete = False, tm_on_change = False, tm_name = []\<rparr>"

text \<open>A fresh or recycled, zeroed timer; \<^term>\<open>None\<close> inside when \<open>calloc\<close> fails.\<close>

definition timer_alloc :: "timer_root \<Rightarrow> (tid \<times> timer_root) option" where
  "timer_alloc r =
     (case tr_gc_q r of
        [] \<Rightarrow> if tr_mem r = 0 then None
              else Some (tr_next r, r\<lparr>tr_timer := (tr_timer r)(tr_next r \<mapsto> zero_timer),
                                     tr_next := tr_next r + 1, tr_mem := tr_mem r - 1\<rparr>)
      | t # ts \<Rightarrow> Some (t, r\<lparr>tr_gc_q := ts, tr_gc := tr_gc r - 1,
                            tr_timer := (tr_timer r)(t \<mapsto> zero_timer)\<rparr>))"

definition timer_add :: "slot \<Rightarrow> string \<Rightarrow> int \<Rightarrow> int \<Rightarrow> nat \<Rightarrow> nat option \<Rightarrow> timespec \<Rightarrow>
    timer_root \<Rightarrow> timer_root option" where
  "timer_add s name sec nsec data cb now r =
     (case tr_slot r s of
        Some t \<Rightarrow>
          do { r \<leftarrow> upd_timer t (tm_expire_update (\<lambda>_. now)) r;
               r \<leftarrow> timer_requeue t sec nsec r;
               upd_timer t (\<lambda>tm. if tm_data tm \<noteq> data \<or> tm_cb tm \<noteq> cb
                 then tm\<lparr>tm_name := take 31 name, tm_data := data, tm_cb := cb\<rparr> else tm) r }
      | None \<Rightarrow>
          case timer_alloc r of
            None \<Rightarrow> Some r
          | Some (t, r) \<Rightarrow>
              do { r \<leftarrow> upd_timer t (\<lambda>tm. (timer_set_expire sec nsec
                     (tm\<lparr>tm_name := take 31 name, tm_data := data, tm_cb := cb, tm_expire := now\<rparr>))
                       \<lparr>tm_ptimer := Some s\<rparr>) r;
                   timer_enqueue_bucket t sec nsec (r\<lparr>tr_slot := (tr_slot r)(s \<mapsto> t)\<rparr>) })"

definition timer_add_periodic :: "slot \<Rightarrow> string \<Rightarrow> int \<Rightarrow> int \<Rightarrow> nat \<Rightarrow> nat option \<Rightarrow> timespec \<Rightarrow>
    timer_root \<Rightarrow> timer_root option" where
  "timer_add_periodic s name sec nsec data cb now r =
     do { r \<leftarrow> timer_add s name sec nsec data cb now r;
          case tr_slot r s of
            None \<Rightarrow> Some r
          | Some t \<Rightarrow> upd_timer t (\<lambda>tm. tm\<lparr>tm_periodic := True, tm_reset := True\<rparr>) r }"

section \<open>Walking the timers\<close>

text \<open>The calls a callback may make; \<open>Cmd_del\<close> is \<open>timer_del\<close> on a client's pointer.\<close>

datatype timer_cmd =
    Cmd_add slot string int int nat "nat option" timespec
  | Cmd_add_periodic slot string int int nat "nat option" timespec
  | Cmd_del slot

fun run_cmd :: "timer_cmd \<Rightarrow> timer_root \<Rightarrow> timer_root option" where
  "run_cmd (Cmd_add s name sec nsec data cb now) r = timer_add s name sec nsec data cb now r"
| "run_cmd (Cmd_add_periodic s name sec nsec data cb now) r =
     timer_add_periodic s name sec nsec data cb now r"
| "run_cmd (Cmd_del s) r = timer_del (tr_slot r s) r"

fun run_cmds :: "timer_cmd list \<Rightarrow> timer_root \<Rightarrow> timer_root option" where
  "run_cmds [] r = Some r"
| "run_cmds (c # cs) r = do { r \<leftarrow> run_cmd c r; run_cmds cs r }"

type_synonym callbacks = "nat \<Rightarrow> tid \<Rightarrow> timer_cmd list"

text \<open>
  The step of \<open>CIRCLEQ_FOREACH\<close> over the timers of bucket \<open>b\<close>: it follows the link of the
  timer, wherever it is queued now. At the end of another bucket's queue the link is that
  bucket's head, which is not the head the loop ends at and would be used as a timer.
\<close>

definition next_timer :: "bid \<Rightarrow> tid \<Rightarrow> timer_root \<Rightarrow> tid option option" where
  "next_timer b t r =
     do { tm \<leftarrow> tr_timer r t;
          b' \<leftarrow> tm_bucket tm;
          bk \<leftarrow> tr_bucket r b';
          case q_next t (bk_q bk) of
            Some t' \<Rightarrow> Some (Some t')
          | None \<Rightarrow> if b' = b then Some None else None }"

text \<open>Marking a timer expired, its callback, and what follows from the flags afterwards.\<close>

definition timer_fire :: "callbacks \<Rightarrow> timespec \<Rightarrow> tid \<Rightarrow> timer_root \<Rightarrow> timer_root option" where
  "timer_fire cbs now t r =
     do { r \<leftarrow> upd_timer t (tm_expired_update (\<lambda>_. True)) r;
          tm \<leftarrow> tr_timer r t;
          r \<leftarrow> (case tm_cb tm of
                  None \<Rightarrow> Some r
                | Some c \<Rightarrow> do { r \<leftarrow> upd_timer t (tm_timestamp_update (\<lambda>_. Some now)) r;
                               run_cmds (cbs c t) r });
          tm \<leftarrow> tr_timer r t;
          if tm_periodic tm then timer_change t r
          else if tm_expired tm then timer_del (Some t) r
          else Some r }"

partial_function (option) walk_bucket ::
    "callbacks \<Rightarrow> timespec \<Rightarrow> bid \<Rightarrow> tid option \<Rightarrow> timer_root \<Rightarrow> timer_root option" where
  "walk_bucket cbs now b cur r =
     (case cur of
        None \<Rightarrow> Some r
      | Some t \<Rightarrow>
          do { tm \<leftarrow> tr_timer r t;
               if timespec_compare (tm_expire tm) now = 1 then Some r
               else do { r \<leftarrow> timer_fire cbs now t r;
                         cur \<leftarrow> next_timer b t r;
                         walk_bucket cbs now b cur r } })"

partial_function (option) walk_buckets ::
    "callbacks \<Rightarrow> timespec \<Rightarrow> bid option \<Rightarrow> timer_root \<Rightarrow> timer_root option" where
  "walk_buckets cbs now cur r =
     (case cur of
        None \<Rightarrow> Some r
      | Some b \<Rightarrow>
          do { bk \<leftarrow> tr_bucket r b;
               r \<leftarrow> walk_bucket cbs now b (q_first (bk_q bk)) r;
               _ \<leftarrow> tr_bucket r b;
               walk_buckets cbs now (q_next b (tr_bucket_q r)) r })"

text \<open>The second pass: the earliest expiration, zero when there is none.\<close>

fun min_timers :: "timer_root \<Rightarrow> timespec \<Rightarrow> tid list \<Rightarrow> timespec \<Rightarrow> timespec option" where
  "min_timers r now [] m = Some m"
| "min_timers r now (t # ts) m =
     do { tm \<leftarrow> tr_timer r t;
          if tm_delete tm then min_timers r now ts m
          else let m = (if tv_sec m = 0 \<and> tv_nsec m = 0 then tm_expire tm else m);
                   m = (if timespec_compare (tm_expire tm) m = -1 then tm_expire tm else m)
               in if timespec_compare (tm_expire tm) now = 1 then Some m
                  else min_timers r now ts m }"

fun min_buckets :: "timer_root \<Rightarrow> timespec \<Rightarrow> bid list \<Rightarrow> timespec \<Rightarrow> timespec option" where
  "min_buckets r now [] m = Some m"
| "min_buckets r now (b # bs) m =
     do { bk \<leftarrow> tr_bucket r b; m \<leftarrow> min_timers r now (bk_q bk) m; min_buckets r now bs m }"

text \<open>
  \<open>now1\<close>, \<open>now2\<close> and \<open>now3\<close> are the clock at the start, in \<open>timer_process_changes\<close> and
  before the sleep. The result is the new state and the argument of \<open>nanosleep\<close>, if called.
\<close>

definition timer_walk :: "callbacks \<Rightarrow> timespec \<Rightarrow> timespec \<Rightarrow> timespec \<Rightarrow> timer_root \<Rightarrow>
    (timer_root \<times> timespec option) option" where
  "timer_walk cbs now1 now2 now3 r =
     (if tr_bucket_q r = [] then Some (r, None)
      else do { r \<leftarrow> walk_buckets cbs now1 (q_first (tr_bucket_q r)) r;
                r \<leftarrow> timer_process_changes now2 r;
                m \<leftarrow> min_buckets r now1 (tr_bucket_q r) \<lparr>tv_sec = 0, tv_nsec = 0\<rparr>;
                Some (r, if timespec_compare now3 m = -1 then Some (timespec_sub m now3) else None) })"

text \<open>\<open>timer_init_root\<close> on zeroed memory.\<close>

definition timer_init_root :: "nat \<Rightarrow> timer_root" where
  "timer_init_root mem = \<lparr>tr_bucket_q = [], tr_gc_q = [], tr_change_q = [], tr_buckets = 0, tr_gc = 0,
     tr_timer = Map.empty, tr_bucket = Map.empty, tr_slot = Map.empty, tr_next = 0, tr_mem = mem\<rparr>"

fun flush_timers :: "tid list \<Rightarrow> timer_root \<Rightarrow> timer_root option" where
  "flush_timers [] r = Some r"
| "flush_timers (t # ts) r = do { r \<leftarrow> timer_del (Some t) r; flush_timers ts r }"

fun flush_buckets :: "bid list \<Rightarrow> timer_root \<Rightarrow> timer_root option" where
  "flush_buckets [] r = Some r"
| "flush_buckets (b # bs) r =
     do { bk \<leftarrow> tr_bucket r b; r \<leftarrow> flush_timers (bk_q bk) r; flush_buckets bs r }"

fun gc_run :: "tid list \<Rightarrow> timer_root \<Rightarrow> timer_root" where
  "gc_run [] r = r"
| "gc_run (t # ts) r =
     gc_run ts (r\<lparr>tr_gc_q := ts, tr_gc := tr_gc r - 1, tr_timer := (tr_timer r)(t := None)\<rparr>)"

definition timer_flush_root :: "timespec \<Rightarrow> timer_root \<Rightarrow> timer_root option" where
  "timer_flush_root now r =
     do { r \<leftarrow> flush_buckets (tr_bucket_q r) r;
          r \<leftarrow> timer_process_changes now r;
          Some (gc_run (tr_gc_q r) r) }"

section \<open>Invariant\<close>

text \<open>
  \<open>timer_inv X r\<close>: the queues, back pointers, counters and client pointers of \<open>r\<close> agree.
  \<open>X\<close> is the set of timers that an operation holds outside every queue; it is empty between
  operations.
\<close>

definition bucket_of :: "(tid \<rightharpoonup> timer) \<Rightarrow> tid \<Rightarrow> bid option option" where
  "bucket_of m t = map_option tm_bucket (m t)"

definition ptimer_of :: "(tid \<rightharpoonup> timer) \<Rightarrow> tid \<Rightarrow> slot option" where
  "ptimer_of m t = Option.bind (m t) tm_ptimer"

definition on_change_of :: "(tid \<rightharpoonup> timer) \<Rightarrow> tid \<Rightarrow> bool" where
  "on_change_of m t = (case m t of None \<Rightarrow> False | Some tm \<Rightarrow> tm_on_change tm)"

definition bucket_ok :: "(tid \<Rightarrow> bid option option) \<Rightarrow> bid \<Rightarrow> bucket \<Rightarrow> bool" where
  "bucket_ok B b bk \<longleftrightarrow> distinct (bk_q bk) \<and> bk_timers bk = length (bk_q bk) \<and> bk_q bk \<noteq> [] \<and>
     (\<forall>t. t \<in> set (bk_q bk) \<longleftrightarrow> B t = Some (Some b))"

definition keys_inv :: "(bid \<rightharpoonup> bucket) \<Rightarrow> bool" where
  "keys_inv m \<longleftrightarrow> (\<forall>b b' bk bk'. m b = Some bk \<and> m b' = Some bk' \<and>
     bk_sec bk = bk_sec bk' \<and> bk_nsec bk = bk_nsec bk' \<longrightarrow> b = b')"

definition buckets_inv :: "timer_root \<Rightarrow> bool" where
  "buckets_inv r \<longleftrightarrow> distinct (tr_bucket_q r) \<and> set (tr_bucket_q r) = dom (tr_bucket r) \<and>
     tr_buckets r = length (tr_bucket_q r) \<and>
     (\<forall>b bk. tr_bucket r b = Some bk \<longrightarrow> bucket_ok (bucket_of (tr_timer r)) b bk) \<and>
     keys_inv (tr_bucket r) \<and>
     (\<forall>t b. bucket_of (tr_timer r) t = Some (Some b) \<longrightarrow> b \<in> dom (tr_bucket r))"

definition gc_inv :: "tid set \<Rightarrow> timer_root \<Rightarrow> bool" where
  "gc_inv X r \<longleftrightarrow> distinct (tr_gc_q r) \<and> tr_gc r = length (tr_gc_q r) \<and> X \<inter> set (tr_gc_q r) = {} \<and>
     (\<forall>t. t \<in> X \<union> set (tr_gc_q r) \<longleftrightarrow> bucket_of (tr_timer r) t = Some None) \<and>
     (\<forall>t \<in> set (tr_gc_q r). ptimer_of (tr_timer r) t = None)"

definition change_inv :: "tid set \<Rightarrow> timer_root \<Rightarrow> bool" where
  "change_inv X r \<longleftrightarrow> distinct (tr_change_q r) \<and>
     (\<forall>t. t \<in> set (tr_change_q r) \<longleftrightarrow> on_change_of (tr_timer r) t) \<and>
     (\<forall>t \<in> set (tr_change_q r). t \<notin> X \<longrightarrow> bucket_of (tr_timer r) t \<noteq> Some None)"

definition slot_inv :: "timer_root \<Rightarrow> bool" where
  "slot_inv r \<longleftrightarrow> (\<forall>s t. tr_slot r s = Some t \<longleftrightarrow> ptimer_of (tr_timer r) t = Some s)"

definition fresh_inv :: "timer_root \<Rightarrow> bool" where
  "fresh_inv r \<longleftrightarrow> (\<forall>t. bucket_of (tr_timer r) t \<noteq> None \<longrightarrow> t < tr_next r) \<and> (\<forall>b \<in> dom (tr_bucket r). b < tr_next r)"

definition timer_inv :: "tid set \<Rightarrow> timer_root \<Rightarrow> bool" where
  "timer_inv X r \<longleftrightarrow> buckets_inv r \<and> gc_inv X r \<and> change_inv X r \<and> slot_inv r \<and> fresh_inv r"

lemmas timer_inv_defs = timer_inv_def buckets_inv_def gc_inv_def change_inv_def
  slot_inv_def fresh_inv_def

lemma proj_upd [simp]:
  "bucket_of (m(t \<mapsto> tm)) = (bucket_of m)(t \<mapsto> tm_bucket tm)"
  "ptimer_of (m(t \<mapsto> tm)) = (ptimer_of m)(t := tm_ptimer tm)"
  "on_change_of (m(t \<mapsto> tm)) = (on_change_of m)(t := tm_on_change tm)"
  by (auto simp: fun_eq_iff bucket_of_def ptimer_of_def on_change_of_def)

lemma proj_same [simp]:
  "m t = Some tm \<Longrightarrow> (bucket_of m)(t \<mapsto> tm_bucket tm) = bucket_of m"
  "m t = Some tm \<Longrightarrow> (ptimer_of m)(t := tm_ptimer tm) = ptimer_of m"
  "m t = Some tm \<Longrightarrow> (on_change_of m)(t := tm_on_change tm) = on_change_of m"
  by (auto simp: fun_eq_iff bucket_of_def ptimer_of_def on_change_of_def)

lemma bucket_of_Some: "m t = Some tm \<Longrightarrow> bucket_of m t = Some (tm_bucket tm)"
  by (simp add: bucket_of_def)

lemma ptimer_of_Some: "m t = Some tm \<Longrightarrow> ptimer_of m t = tm_ptimer tm"
  by (simp add: ptimer_of_def)

lemma on_change_of_Some: "m t = Some tm \<Longrightarrow> on_change_of m t = tm_on_change tm"
  by (simp add: on_change_of_def)

lemmas proj_Some = bucket_of_Some ptimer_of_Some on_change_of_Some

lemma bucket_of_live: "bucket_of m t = Some x \<Longrightarrow> \<exists>tm. m t = Some tm \<and> tm_bucket tm = x"
  by (auto simp: bucket_of_def)

section \<open>Preservation\<close>

text \<open>Updates of a timer that keep its links do not affect the invariant.\<close>

lemma upd_timer_inv:
  assumes "timer_inv X r" "upd_timer t f r = Some r'"
    and "\<And>tm. tm_bucket (f tm) = tm_bucket tm" "\<And>tm. tm_ptimer (f tm) = tm_ptimer tm"
      "\<And>tm. tm_on_change (f tm) = tm_on_change tm"
  shows "timer_inv X r'"
proof -
  obtain tm where tm: "tr_timer r t = Some tm" "r' = r\<lparr>tr_timer := (tr_timer r)(t \<mapsto> f tm)\<rparr>"
    using assms(2) by (auto simp: upd_timer_def split: bind_splits)
  show ?thesis
    using assms(1) tm by (simp add: timer_inv_defs assms(3-5))
qed

lemma timer_inv_live_bucket:
  assumes "timer_inv X r" "tr_timer r t = Some tm" "tm_bucket tm = Some b"
  obtains bk where "tr_bucket r b = Some bk" "t \<in> set (bk_q bk)" "bucket_ok (bucket_of (tr_timer r)) b bk"
  using assms by (fastforce simp: timer_inv_def buckets_inv_def bucket_ok_def bucket_of_def)

lemma timer_change_inv:
  assumes "timer_inv X r" "timer_change t r = Some r'"
  shows "timer_inv X r'"
proof (cases "on_change_of (tr_timer r) t")
  case True
  with assms show ?thesis
    by (auto simp: timer_change_def on_change_of_def split: bind_splits)
next
  case False
  then obtain tm b where tm: "tr_timer r t = Some tm" "tm_bucket tm = Some b"
    and r': "r' = r\<lparr>tr_change_q := tr_change_q r @ [t],
                     tr_timer := (tr_timer r)(t \<mapsto> tm\<lparr>tm_on_change := True\<rparr>)\<rparr>"
    using assms(2) by (auto simp: timer_change_def on_change_of_def upd_timer_def split: bind_splits if_splits)
  have [simp]: "bucket_of ((tr_timer r)(t \<mapsto> tm\<lparr>tm_on_change := True\<rparr>)) = bucket_of (tr_timer r)"
    "ptimer_of ((tr_timer r)(t \<mapsto> tm\<lparr>tm_on_change := True\<rparr>)) = ptimer_of (tr_timer r)"
    using tm(1) by simp_all
  show ?thesis
    using assms(1) False tm
    by (auto simp: r' timer_inv_defs proj_Some simp del: proj_upd(1,2))
qed

lemma keys_inv_delete: "keys_inv m \<Longrightarrow> keys_inv (m(b := None))"
  unfolding keys_inv_def by (metis fun_upd_other fun_upd_same option.distinct(1))

lemma keys_inv_update:
  assumes "keys_inv m" "m b = Some bk" "bk_sec bk' = bk_sec bk" "bk_nsec bk' = bk_nsec bk"
  shows "keys_inv (m(b \<mapsto> bk'))"
  using assms unfolding keys_inv_def by (simp split: if_splits) metis

lemma keys_inv_insert:
  assumes "keys_inv m" "\<And>b bk. m b = Some bk \<Longrightarrow> bk_sec bk \<noteq> bk_sec bk' \<or> bk_nsec bk \<noteq> bk_nsec bk'"
  shows "keys_inv (m(b \<mapsto> bk'))"
  using assms unfolding keys_inv_def by (simp split: if_splits) metis

text \<open>Taking timer \<open>t\<close> out of bucket \<open>b\<close>, in the two cases of \<open>timer_dequeue_bucket\<close>.\<close>

lemma bucket_ok_other:
  assumes "bucket_ok B b bk" "B t \<noteq> Some (Some b)" "x \<noteq> Some b"
  shows "bucket_ok (B(t \<mapsto> x)) b bk"
  using assms by (auto simp: bucket_ok_def)

lemma bucket_ok_remove:
  assumes "bucket_ok B b bk" "B t = Some (Some b)" "remove1 t (bk_q bk) \<noteq> []"
  shows "bucket_ok (B(t \<mapsto> None)) b (bk\<lparr>bk_q := remove1 t (bk_q bk), bk_timers := bk_timers bk - 1\<rparr>)"
  using assms by (auto simp: bucket_ok_def length_remove1)

lemma bucket_ok_last:
  assumes "bucket_ok B b bk" "B t = Some (Some b)" "remove1 t (bk_q bk) = []"
  shows "B u = Some (Some b) \<longleftrightarrow> u = t"
proof -
  have "u \<in> set (bk_q bk) \<longleftrightarrow> u = t" for u
    using assms by (metis bucket_ok_def empty_iff empty_set in_set_remove1)
  with assms show ?thesis by (simp add: bucket_ok_def)
qed

lemma timer_dequeue_inv:
  assumes "timer_inv X r" "tr_timer r t = Some tm" "tm_bucket tm = Some b"
  shows "\<exists>r'. timer_dequeue_bucket t r = Some r' \<and> timer_inv (insert t X) r' \<and>
    tr_timer r' = (tr_timer r)(t \<mapsto> tm\<lparr>tm_bucket := None\<rparr>) \<and> tr_slot r' = tr_slot r \<and>
    tr_change_q r' = tr_change_q r \<and> tr_gc_q r' = tr_gc_q r \<and> tr_mem r' = tr_mem r"
proof -
  obtain bk where bk: "tr_bucket r b = Some bk" "t \<in> set (bk_q bk)"
    "bucket_ok (bucket_of (tr_timer r)) b bk"
    using timer_inv_live_bucket [OF assms] .
  let ?q = "remove1 t (bk_q bk)"
  let ?bk = "bk\<lparr>bk_q := ?q, bk_timers := bk_timers bk - 1\<rparr>"
  let ?r = "r\<lparr>tr_timer := (tr_timer r)(t \<mapsto> tm\<lparr>tm_bucket := None\<rparr>)\<rparr>"
  have B: "bucket_of (tr_timer r) t = Some (Some b)"
    using assms by (simp add: proj_Some)
  have len: "bk_timers bk - 1 = length ?q"
    using bk by (simp add: bucket_ok_def length_remove1)
  have other: "bucket_ok ((bucket_of (tr_timer r))(t \<mapsto> None)) b' bk'"
    if "tr_bucket r b' = Some bk'" "b' \<noteq> b" for b' bk'
    using assms(1) that B by (intro bucket_ok_other) (auto simp: timer_inv_def buckets_inv_def)
  have gone: "b' \<noteq> b" if "?q = []" "u \<noteq> t" "bucket_of (tr_timer r) u = Some (Some b')" for u b'
    using bucket_ok_last [OF bk(3) B that(1)] that by auto
  have rest: "gc_inv (insert t X) ?r \<and> change_inv (insert t X) ?r \<and> slot_inv ?r"
    using assms B by (auto simp: timer_inv_defs proj_Some)
  show ?thesis
  proof (cases "?q = []")
    case True
    let ?r' = "?r\<lparr>tr_bucket_q := remove1 b (tr_bucket_q r), tr_bucket := (tr_bucket r)(b := None),
      tr_buckets := tr_buckets r - 1\<rparr>"
    have "buckets_inv ?r'"
      using assms(1) bk(1) other gone [OF True]
      by (auto simp: timer_inv_def buckets_inv_def length_remove1 keys_inv_delete)
    moreover have "fresh_inv ?r'"
      using assms(1) B by (auto simp: timer_inv_def fresh_inv_def)
    moreover have "timer_dequeue_bucket t r = Some ?r'"
      using assms(2,3) bk(1) len True by (simp add: timer_dequeue_bucket_def Let_def)
    ultimately show ?thesis
      using rest by (intro exI [of _ ?r']) (simp add: timer_inv_def gc_inv_def change_inv_def slot_inv_def)
  next
    case False
    let ?r' = "?r\<lparr>tr_bucket := (tr_bucket r)(b \<mapsto> ?bk)\<rparr>"
    have ok: "bucket_ok ((bucket_of (tr_timer r))(t \<mapsto> None)) b ?bk"
      using bk(3) B False by (rule bucket_ok_remove)
    have "keys_inv (tr_bucket ?r')"
      using assms(1) bk(1) by (auto intro!: keys_inv_update simp: timer_inv_def buckets_inv_def)
    then have "buckets_inv ?r'"
      using assms(1) bk(1) other ok by (auto simp: timer_inv_def buckets_inv_def)
    moreover have "fresh_inv ?r'"
      using assms(1) B bk(1) by (auto simp: timer_inv_def fresh_inv_def)
    moreover have "1 < bk_timers bk"
      using len False by (metis length_greater_0_conv zero_less_diff)
    then have "timer_dequeue_bucket t r = Some ?r'"
      using assms(2,3) bk(1) by (simp add: timer_dequeue_bucket_def Let_def)
    ultimately show ?thesis
      using rest by (intro exI [of _ ?r']) (simp add: timer_inv_def gc_inv_def change_inv_def slot_inv_def)
  qed
qed

text \<open>Enqueuing a held timer, in a bucket that exists or in a new one.\<close>

lemma find_bucket_Some:
  assumes "find_bucket r sec nsec = Some b"
  obtains bk where "tr_bucket r b = Some bk" "bk_sec bk = sec" "bk_nsec bk = nsec"
  using assms by (auto simp: find_bucket_def find_Some_iff split: option.splits)

lemma find_bucket_None:
  assumes "find_bucket r sec nsec = None" "buckets_inv r" "tr_bucket r b = Some bk"
  shows "bk_sec bk \<noteq> sec \<or> bk_nsec bk \<noteq> nsec"
proof -
  have "b \<in> set (tr_bucket_q r)"
    using assms(2,3) by (auto simp: buckets_inv_def)
  with assms(1,3) show ?thesis
    by (fastforce simp: find_bucket_def find_None_iff)
qed

lemma bucket_ok_append:
  assumes "bucket_ok B b bk" "B t = Some None"
  shows "bucket_ok (B(t \<mapsto> Some b)) b (bk\<lparr>bk_q := bk_q bk @ [t], bk_timers := bk_timers bk + 1\<rparr>)"
  using assms by (auto simp: bucket_ok_def)

lemma timer_held:
  assumes "timer_inv X r" "t \<in> X"
  shows "bucket_of (tr_timer r) t = Some None" "t \<notin> set (tr_gc_q r)"
  using assms by (auto simp: timer_inv_def gc_inv_def)

lemma held_rest:
  fixes b :: bid
  assumes "timer_inv X r" "t \<in> X" "tr_timer r t = Some tm"
  defines "r1 \<equiv> r\<lparr>tr_timer := (tr_timer r)(t \<mapsto> tm\<lparr>tm_bucket := Some b\<rparr>)\<rparr>"
  shows "gc_inv (X - {t}) r1" "change_inv (X - {t}) r1" "slot_inv r1"
  using assms timer_held [OF assms(1,2)] by (auto simp: timer_inv_defs proj_Some)

lemma held_other:
  assumes "timer_inv X r" "t \<in> X" "tr_bucket r b' = Some bk'" "b' \<noteq> b"
  shows "bucket_ok ((bucket_of (tr_timer r))(t \<mapsto> Some b)) b' bk'"
  using assms timer_held [OF assms(1,2)]
  by (intro bucket_ok_other) (auto simp: timer_inv_def buckets_inv_def)

lemma bucket_insert_inv:
  assumes "timer_inv X r" "t \<in> X" "tr_timer r t = Some tm" "tr_bucket r b = Some bk"
  defines "r' \<equiv> r\<lparr>tr_timer := (tr_timer r)(t \<mapsto> tm\<lparr>tm_bucket := Some b\<rparr>),
      tr_bucket := (tr_bucket r)(b \<mapsto> bk\<lparr>bk_q := bk_q bk @ [t], bk_timers := bk_timers bk + 1\<rparr>)\<rparr>"
  shows "bucket_insert t b r = Some r' \<and> timer_inv (X - {t}) r'"
proof -
  have "bucket_ok ((bucket_of (tr_timer r))(t \<mapsto> Some b)) b
      (bk\<lparr>bk_q := bk_q bk @ [t], bk_timers := bk_timers bk + 1\<rparr>)"
    using assms timer_held [OF assms(1,2)]
    by (intro bucket_ok_append) (auto simp: timer_inv_def buckets_inv_def)
  moreover have "keys_inv (tr_bucket r')"
    using assms by (auto intro!: keys_inv_update simp: timer_inv_def buckets_inv_def)
  ultimately have "buckets_inv r'"
    using assms held_other [OF assms(1,2)] by (auto simp: timer_inv_def buckets_inv_def)
  moreover have "fresh_inv r'"
    using assms by (auto simp: timer_inv_def fresh_inv_def bucket_of_def)
  moreover have "bucket_insert t b r = Some r'"
    using assms by (simp add: bucket_insert_def upd_timer_def upd_bucket_def)
  ultimately show ?thesis
    using held_rest [OF assms(1-3)] by (simp add: r'_def timer_inv_def gc_inv_def change_inv_def slot_inv_def)
qed

lemma bucket_new_inv:
  fixes m :: nat
  assumes "timer_inv X r" "t \<in> X" "tr_timer r t = Some tm" "find_bucket r sec nsec = None"
  defines "b \<equiv> tr_next r"
  defines "r' \<equiv> r\<lparr>tr_bucket_q := tr_bucket_q r @ [b],
      tr_buckets := tr_buckets r + 1, tr_next := b + 1, tr_mem := m,
      tr_timer := (tr_timer r)(t \<mapsto> tm\<lparr>tm_bucket := Some b\<rparr>),
      tr_bucket := (tr_bucket r)(b \<mapsto> \<lparr>bk_q = [t], bk_sec = sec, bk_nsec = nsec, bk_timers = 1\<rparr>)\<rparr>"
  shows "timer_inv (X - {t}) r'"
proof -
  have fresh: "b \<notin> dom (tr_bucket r)" "bucket_of (tr_timer r) u \<noteq> Some (Some b)" for u
    using assms(1) by (fastforce simp: timer_inv_def fresh_inv_def buckets_inv_def b_def)+
  then have "bucket_ok ((bucket_of (tr_timer r))(t \<mapsto> Some b)) b \<lparr>bk_q = [t], bk_sec = sec, bk_nsec = nsec, bk_timers = 1\<rparr>"
    by (auto simp: bucket_ok_def)
  moreover have "keys_inv (tr_bucket r')"
    using assms(1) find_bucket_None [OF assms(4)]
    by (auto intro!: keys_inv_insert simp: r'_def timer_inv_def buckets_inv_def)
  moreover have "b \<notin> set (tr_bucket_q r)"
    using assms(1) fresh(1) by (simp add: timer_inv_def buckets_inv_def)
  ultimately have "buckets_inv r'"
    using assms(1) held_other [OF assms(1,2)]
    by (auto simp: r'_def timer_inv_def buckets_inv_def)
  moreover have "fresh_inv r'"
    using assms(1,3) by (auto simp: r'_def b_def timer_inv_def fresh_inv_def proj_Some less_Suc_eq)
  ultimately show ?thesis
    using held_rest [OF assms(1-3)] by (simp add: r'_def timer_inv_def gc_inv_def change_inv_def slot_inv_def)
qed

lemma timer_enqueue_inv:
  assumes "timer_inv X r" "t \<in> X" "tr_timer r t = Some tm" "0 < tr_mem r"
  shows "\<exists>r' b. timer_enqueue_bucket t sec nsec r = Some r' \<and> timer_inv (X - {t}) r' \<and>
    tr_timer r' = (tr_timer r)(t \<mapsto> tm\<lparr>tm_bucket := Some b\<rparr>) \<and> tr_slot r' = tr_slot r \<and>
    tr_change_q r' = tr_change_q r \<and> tr_gc_q r' = tr_gc_q r \<and> tr_mem r - 1 \<le> tr_mem r'"
proof (cases "find_bucket r sec nsec")
  case None
  with bucket_new_inv [OF assms(1-3) None, of "tr_mem r - 1"] assms(3,4) show ?thesis
    by (simp add: timer_enqueue_bucket_def bucket_insert_def upd_timer_def upd_bucket_def Let_def) blast
next
  case (Some b)
  then obtain bk where "tr_bucket r b = Some bk"
    using find_bucket_Some by blast
  from bucket_insert_inv [OF assms(1-3) this] Some show ?thesis
    by (simp add: timer_enqueue_bucket_def) blast
qed

lemma timer_inv_same_links:
  assumes "timer_inv X r" "tr_timer r t = Some tm" "tm_bucket tm' = tm_bucket tm"
    "tm_ptimer tm' = tm_ptimer tm" "tm_on_change tm' = tm_on_change tm"
  shows "timer_inv X (r\<lparr>tr_timer := (tr_timer r)(t \<mapsto> tm')\<rparr>)"
  using assms(1,2) by (simp add: timer_inv_defs assms(3-5))

lemma timer_set_expire_links [simp]:
  "tm_bucket (timer_set_expire sec nsec tm) = tm_bucket tm"
  "tm_ptimer (timer_set_expire sec nsec tm) = tm_ptimer tm"
  "tm_on_change (timer_set_expire sec nsec tm) = tm_on_change tm"
  "tm_delete (timer_set_expire sec nsec tm) = tm_delete tm"
  by (simp_all add: timer_set_expire_def Let_def)

lemma bucket_ok_rotate:
  assumes "bucket_ok B b bk" "t \<in> set (bk_q bk)"
  shows "bucket_ok B b (bk\<lparr>bk_q := remove1 t (bk_q bk) @ [t]\<rparr>)"
  using assms by (auto simp: bucket_ok_def length_remove1)

text \<open>A restart with the interval of the bucket needs no memory; any other may need a bucket.\<close>

lemma timer_requeue_same:
  assumes "timer_inv X r" "tr_timer r t = Some tm" "tm_bucket tm = Some b" "tr_bucket r b = Some bk"
  shows "\<exists>r'. timer_requeue t (bk_sec bk) (bk_nsec bk) r = Some r' \<and> timer_inv X r' \<and>
    tr_timer r' = (tr_timer r)(t \<mapsto> timer_set_expire (bk_sec bk) (bk_nsec bk) tm) \<and> tr_slot r' = tr_slot r \<and>
    tr_change_q r' = tr_change_q r \<and> tr_gc_q r' = tr_gc_q r \<and> tr_mem r' = tr_mem r"
proof -
  let ?r = "r\<lparr>tr_timer := (tr_timer r)(t \<mapsto> timer_set_expire (bk_sec bk) (bk_nsec bk) tm)\<rparr>"
  let ?bk = "bk\<lparr>bk_q := remove1 t (bk_q bk) @ [t]\<rparr>"
  let ?r' = "?r\<lparr>tr_bucket := (tr_bucket r)(b \<mapsto> ?bk)\<rparr>"
  have inv: "timer_inv X ?r"
    using assms by (intro timer_inv_same_links) simp_all
  have t: "t \<in> set (bk_q bk)" and ok: "bucket_ok (bucket_of (tr_timer r)) b bk"
    using timer_inv_live_bucket [OF assms(1-3)] assms(4) by auto
  have B: "bucket_of (tr_timer ?r) = bucket_of (tr_timer r)"
    using assms(2) by simp
  have "keys_inv (tr_bucket ?r')"
    using assms(1,4) by (auto intro!: keys_inv_update simp: timer_inv_def buckets_inv_def)
  then have "buckets_inv ?r'"
    using inv bucket_ok_rotate [OF ok t] assms(4) B by (auto simp: timer_inv_def buckets_inv_def simp del: proj_upd)
  with inv assms(4) have "timer_inv X ?r'"
    by (auto simp: timer_inv_def gc_inv_def change_inv_def slot_inv_def fresh_inv_def)
  then show ?thesis
    using assms by (intro exI [of _ ?r']) (simp add: timer_requeue_def upd_timer_def upd_bucket_def)
qed

lemma timer_requeue_inv:
  assumes "timer_inv X r" "tr_timer r t = Some tm" "tm_bucket tm = Some b" "0 < tr_mem r"
  shows "\<exists>r' b'. timer_requeue t sec nsec r = Some r' \<and> timer_inv X r' \<and>
    tr_timer r' = (tr_timer r)(t \<mapsto> (timer_set_expire sec nsec tm)\<lparr>tm_bucket := Some b'\<rparr>) \<and>
    tr_slot r' = tr_slot r \<and> tr_change_q r' = tr_change_q r \<and> tr_gc_q r' = tr_gc_q r \<and>
    tr_mem r - 1 \<le> tr_mem r'"
proof -
  obtain bk where bk: "tr_bucket r b = Some bk"
    using timer_inv_live_bucket [OF assms(1-3)] .
  show ?thesis
  proof (cases "bk_sec bk = sec \<and> bk_nsec bk = nsec")
    case True
    then show ?thesis
      using timer_requeue_same [OF assms(1-3) bk] assms(3)
      by (intro exI [of _ "the (timer_requeue t sec nsec r)"] exI [of _ b])
        (auto simp: timer_set_expire_def Let_def)
  next
    case False
    let ?tm = "timer_set_expire sec nsec tm"
    let ?r = "r\<lparr>tr_timer := (tr_timer r)(t \<mapsto> ?tm)\<rparr>"
    have inv: "timer_inv X ?r" "tr_timer ?r t = Some ?tm" "tm_bucket ?tm = Some b"
      using assms by (auto intro: timer_inv_same_links)
    have tX: "t \<notin> X"
      using timer_held(1) [OF assms(1), of t] assms(2,3) by (auto simp: proj_Some)
    obtain r1 where r1: "timer_dequeue_bucket t ?r = Some r1" "timer_inv (insert t X) r1"
      "tr_timer r1 = (tr_timer r)(t \<mapsto> ?tm\<lparr>tm_bucket := None\<rparr>)" "tr_slot r1 = tr_slot r"
      "tr_change_q r1 = tr_change_q r" "tr_gc_q r1 = tr_gc_q r" "tr_mem r1 = tr_mem r"
      using timer_dequeue_inv [OF inv] by auto
    have r1': "timer_requeue t sec nsec r = timer_enqueue_bucket t sec nsec r1"
      using assms(2,3) bk False r1(1) by (auto simp: timer_requeue_def upd_timer_def)
    show ?thesis
      using timer_enqueue_inv [OF r1(2), of t "?tm\<lparr>tm_bucket := None\<rparr>" sec nsec] r1 tX assms(4)
      by (auto simp: r1' insert_Diff_if)
  qed
qed

lemma timer_del_internal_inv:
  assumes "timer_inv {} r" "tr_timer r t = Some tm" "tm_bucket tm = Some b" "\<not> tm_on_change tm"
  shows "\<exists>r'. timer_del_internal t r = Some r' \<and> timer_inv {} r' \<and>
    tr_timer r' = (tr_timer r)(t \<mapsto> tm\<lparr>tm_bucket := None, tm_ptimer := None\<rparr>) \<and>
    tr_change_q r' = tr_change_q r \<and> tr_gc_q r' = tr_gc_q r @ [t] \<and> tr_mem r' = tr_mem r"
proof -
  obtain r1 where r1: "timer_dequeue_bucket t r = Some r1" "timer_inv {t} r1"
    "tr_timer r1 = (tr_timer r)(t \<mapsto> tm\<lparr>tm_bucket := None\<rparr>)" "tr_slot r1 = tr_slot r"
    "tr_change_q r1 = tr_change_q r" "tr_gc_q r1 = tr_gc_q r" "tr_mem r1 = tr_mem r"
    using timer_dequeue_inv [OF assms(1-3)] by auto
  have tm1: "tr_timer r1 t = Some (tm\<lparr>tm_bucket := None\<rparr>)" using r1(3) by simp
  let ?r = "r1\<lparr>tr_timer := (tr_timer r1)(t \<mapsto> tm\<lparr>tm_bucket := None, tm_ptimer := None\<rparr>),
    tr_gc_q := tr_gc_q r1 @ [t], tr_gc := tr_gc r1 + 1,
    tr_slot := (case tm_ptimer tm of None \<Rightarrow> tr_slot r1 | Some s \<Rightarrow> (tr_slot r1)(s := None))\<rparr>"
  have B: "bucket_of (tr_timer ?r) = bucket_of (tr_timer r1)"
    using tm1 by (auto simp: bucket_of_def fun_eq_iff)
  have "ptimer_of (tr_timer r1) t = tm_ptimer tm"
    using tm1 by (simp add: proj_Some)
  then have "slot_inv ?r"
    using r1(2) unfolding timer_inv_def slot_inv_def
    by (simp split: option.splits) (metis option.inject)
  moreover have "gc_inv {} ?r \<and> change_inv {} ?r"
    using r1(2) assms(4) tm1 B
    by (auto simp: timer_inv_def gc_inv_def change_inv_def proj_Some simp del: proj_upd(1) split: option.splits)
  ultimately have "timer_inv {} ?r"
    using r1(2) B by (simp add: timer_inv_def buckets_inv_def fresh_inv_def del: proj_upd(1))
  moreover have "timer_del_internal t r = Some ?r"
    using assms(2,3) r1
    by (auto intro!: timer_root.equality timer.equality
        simp: timer_del_internal_def upd_timer_def fun_upd_idem_iff split: option.splits)
  ultimately show ?thesis
    using r1 by (intro exI [of _ ?r]) simp
qed

section \<open>The interval of a timer\<close>

text \<open>A timer's interval is not stored in it: it is the key of its bucket.\<close>

definition bucket_key :: "(bid \<rightharpoonup> bucket) \<Rightarrow> bid \<Rightarrow> (int \<times> int) option" where
  "bucket_key m b = map_option (\<lambda>bk. (bk_sec bk, bk_nsec bk)) (m b)"

definition key_of :: "timer_root \<Rightarrow> tid \<Rightarrow> (int \<times> int) option" where
  "key_of r t = do { tm \<leftarrow> tr_timer r t; b \<leftarrow> tm_bucket tm; bucket_key (tr_bucket r) b }"

lemma bucket_key_upd [simp]:
  "bucket_key (m(b \<mapsto> bk)) = (bucket_key m)(b \<mapsto> (bk_sec bk, bk_nsec bk))"
  by (simp add: bucket_key_def fun_eq_iff)

lemma bucket_key_same [simp]:
  "m b = Some bk \<Longrightarrow> (bucket_key m)(b \<mapsto> (bk_sec bk, bk_nsec bk)) = bucket_key m"
  "m b = Some bk \<Longrightarrow> bucket_key m b = Some (bk_sec bk, bk_nsec bk)"
  by (simp_all add: bucket_key_def fun_eq_iff)

lemma key_of_upd_timer:
  assumes "tr_timer r t = Some tm" "tm_bucket tm' = tm_bucket tm"
  shows "key_of (r\<lparr>tr_timer := (tr_timer r)(t \<mapsto> tm')\<rparr>) = key_of r"
  using assms by (simp add: key_of_def fun_eq_iff)

lemma key_dequeue:
  assumes "timer_inv X r" "timer_dequeue_bucket t r = Some r'" "u \<noteq> t"
  shows "key_of r' u = key_of r u"
proof -
  obtain tm b bk where tm: "tr_timer r t = Some tm" "tm_bucket tm = Some b" "tr_bucket r b = Some bk"
    using assms(2) by (auto simp: timer_dequeue_bucket_def split: bind_splits)
  then have ok: "bucket_ok (bucket_of (tr_timer r)) b bk" "t \<in> set (bk_q bk)"
    using timer_inv_live_bucket [OF assms(1) tm(1,2)] by auto
  have "bk_timers bk > 1" if "tr_timer r u = Some tm'" "tm_bucket tm' = Some b" for tm'
  proof -
    have "{t, u} \<subseteq> set (bk_q bk)"
      using ok that by (auto simp: bucket_ok_def proj_Some)
    then have "card {t, u} \<le> length (bk_q bk)"
      using ok(1) by (metis List.finite_set bucket_ok_def card_mono distinct_card)
    then show ?thesis
      using ok(1) assms(3) by (simp add: bucket_ok_def)
  qed
  then show ?thesis
    using assms(2,3) tm
    by (cases "tr_timer r u"; cases "tm_bucket (the (tr_timer r u))")
      (auto simp: timer_dequeue_bucket_def key_of_def Let_def bucket_key_def split: if_splits)
qed

lemma key_bucket_insert:
  assumes "bucket_insert t b r = Some r'" "tr_bucket r b = Some bk"
  shows "key_of r' = (key_of r)(t \<mapsto> (bk_sec bk, bk_nsec bk))"
proof -
  obtain tm where "r' = r\<lparr>tr_timer := (tr_timer r)(t \<mapsto> tm\<lparr>tm_bucket := Some b\<rparr>),
      tr_bucket := (tr_bucket r)(b \<mapsto> bk\<lparr>bk_q := bk_q bk @ [t], bk_timers := bk_timers bk + 1\<rparr>)\<rparr>"
    using assms by (auto simp: bucket_insert_def upd_timer_def upd_bucket_def split: bind_splits)
  with assms(2) show ?thesis by (simp add: key_of_def fun_eq_iff)
qed

lemma key_enqueue:
  assumes "timer_inv X r" "timer_enqueue_bucket t sec nsec r = Some r'" "0 < tr_mem r"
  shows "key_of r' = (key_of r)(t \<mapsto> (sec, nsec))"
proof (cases "find_bucket r sec nsec")
  case None
  have "u \<noteq> t \<Longrightarrow> tr_timer r u = Some tm \<Longrightarrow> tm_bucket tm = Some b \<Longrightarrow> b \<noteq> tr_next r" for u tm b
    using assms(1) by (fastforce simp: timer_inv_def fresh_inv_def buckets_inv_def bucket_of_def)
  moreover define r1 where "r1 = r\<lparr>tr_bucket_q := tr_bucket_q r @ [tr_next r],
    tr_bucket := (tr_bucket r)(tr_next r \<mapsto> \<lparr>bk_q = [], bk_sec = sec, bk_nsec = nsec, bk_timers = 0\<rparr>),
    tr_buckets := tr_buckets r + 1, tr_next := tr_next r + 1, tr_mem := tr_mem r - 1\<rparr>"
  ultimately have "u \<noteq> t \<Longrightarrow> key_of r1 u = key_of r u" for u
    by (cases "tr_timer r u"; cases "tm_bucket (the (tr_timer r u))") (auto simp: key_of_def)
  moreover have "key_of r' = (key_of r1)(t \<mapsto> (sec, nsec))"
    using key_bucket_insert [of t "tr_next r" r1 r'] assms(2,3) None
    by (simp add: timer_enqueue_bucket_def Let_def r1_def)
  ultimately show ?thesis by (simp add: fun_eq_iff)
next
  case (Some b)
  with assms(2) key_bucket_insert show ?thesis
    by (auto simp: timer_enqueue_bucket_def elim!: find_bucket_Some)
qed

lemma key_requeue:
  assumes "timer_inv X r" "timer_requeue t sec nsec r = Some r'" "0 < tr_mem r"
  shows "key_of r' = (key_of r)(t \<mapsto> (sec, nsec))"
proof -
  obtain tm b bk where tm: "tr_timer r t = Some tm" "tm_bucket tm = Some b" "tr_bucket r b = Some bk"
    using assms(2) by (auto simp: timer_requeue_def split: bind_splits)
  let ?tm = "timer_set_expire sec nsec tm"
  let ?r = "r\<lparr>tr_timer := (tr_timer r)(t \<mapsto> ?tm)\<rparr>"
  have k: "key_of ?r = key_of r" using key_of_upd_timer [OF tm(1), of ?tm] by simp
  show ?thesis
  proof (cases "bk_sec bk = sec \<and> bk_nsec bk = nsec")
    case True
    with assms(2) tm show ?thesis
      by (auto simp: timer_requeue_def upd_timer_def upd_bucket_def key_of_def fun_eq_iff)
  next
    case False
    have inv: "timer_inv X ?r" "tr_timer ?r t = Some ?tm" "tm_bucket ?tm = Some b"
      using assms tm by (simp_all add: timer_inv_same_links)
    obtain r1 where r1: "timer_dequeue_bucket t ?r = Some r1" "timer_inv (insert t X) r1" "tr_mem r1 = tr_mem r"
      using timer_dequeue_inv [OF inv] by auto
    have "timer_enqueue_bucket t sec nsec r1 = Some r'"
      using assms(2) tm False r1(1) by (auto simp: timer_requeue_def upd_timer_def)
    from key_enqueue [OF r1(2) this] key_dequeue [OF inv(1) r1(1)] k r1(3) assms(3)
    show ?thesis by (simp add: fun_eq_iff)
  qed
qed

section \<open>Deferred changes\<close>

definition deleted :: "timer_root \<Rightarrow> tid \<Rightarrow> bool" where
  "deleted r t = (case tr_timer r t of None \<Rightarrow> False | Some tm \<Rightarrow> tm_delete tm)"

lemma change_q_live:
  assumes "timer_inv {} r" "t \<in> set (tr_change_q r)"
  obtains tm b bk where "tr_timer r t = Some tm" "tm_bucket tm = Some b" "tm_on_change tm" "tr_bucket r b = Some bk"
proof -
  have "on_change_of (tr_timer r) t" "bucket_of (tr_timer r) t \<noteq> Some None"
    using assms by (auto simp: timer_inv_def change_inv_def)
  then obtain tm b where "tr_timer r t = Some tm" "tm_bucket tm = Some b" "tm_on_change tm"
    by (auto simp: on_change_of_def bucket_of_def split: option.splits)
  then show ?thesis
    using timer_inv_live_bucket [OF assms(1)] that by metis
qed

lemma change_q_pop_inv:
  assumes "timer_inv {} r" "tr_change_q r = t # ts" "tr_timer r t = Some tm"
  shows "timer_inv {} (r\<lparr>tr_change_q := ts, tr_timer := (tr_timer r)(t \<mapsto> tm\<lparr>tm_on_change := False\<rparr>)\<rparr>)"
proof -
  have [simp]: "bucket_of ((tr_timer r)(t \<mapsto> tm\<lparr>tm_on_change := False\<rparr>)) = bucket_of (tr_timer r)"
    "ptimer_of ((tr_timer r)(t \<mapsto> tm\<lparr>tm_on_change := False\<rparr>)) = ptimer_of (tr_timer r)"
    using assms(3) by simp_all
  show ?thesis
    using assms by (auto simp: timer_inv_defs simp del: proj_upd(1,2))
qed

lemma process_change_inv:
  assumes "timer_inv {} r" "tr_change_q r = t # ts"
  shows "\<exists>r' tm'. process_change now t r = Some r' \<and> timer_inv {} r' \<and> tr_change_q r' = ts \<and>
    tr_timer r' = (tr_timer r)(t \<mapsto> tm') \<and>
    tr_gc_q r' = tr_gc_q r @ (if deleted r t then [t] else []) \<and> tr_mem r' = tr_mem r"
proof -
  obtain tm b bk where tm: "tr_timer r t = Some tm" "tm_bucket tm = Some b" "tr_bucket r b = Some bk"
    using change_q_live [OF assms(1), of t] assms(2) by (metis list.set_intros(1))
  let ?tm = "tm\<lparr>tm_on_change := False\<rparr>"
  let ?r = "r\<lparr>tr_change_q := ts, tr_timer := (tr_timer r)(t \<mapsto> ?tm)\<rparr>"
  have inv: "timer_inv {} ?r" "tr_timer ?r t = Some ?tm" "tm_bucket ?tm = Some b"
    using change_q_pop_inv [OF assms tm(1)] tm by simp_all
  have step: "process_change now t r =
      (if tm_delete tm then timer_del_internal t ?r
       else if tm_periodic tm then
         timer_requeue t (bk_sec bk) (bk_nsec bk)
           (if tm_reset tm then ?r\<lparr>tr_timer := (tr_timer ?r)(t \<mapsto> ?tm\<lparr>tm_expire := now\<rparr>)\<rparr> else ?r)
       else Some ?r)"
    using assms(2) tm by (simp add: process_change_def upd_timer_def)
  consider "tm_delete tm" | "\<not> tm_delete tm" "tm_periodic tm" "tm_reset tm"
    | "\<not> tm_delete tm" "tm_periodic tm" "\<not> tm_reset tm" | "\<not> tm_delete tm" "\<not> tm_periodic tm"
    by blast
  then show ?thesis
  proof cases
    case 1
    with timer_del_internal_inv [OF inv] tm show ?thesis
      by (auto simp: step deleted_def)
  next
    case 2
    let ?r1 = "?r\<lparr>tr_timer := (tr_timer ?r)(t \<mapsto> ?tm\<lparr>tm_expire := now\<rparr>)\<rparr>"
    have "timer_inv {} ?r1"
      using timer_inv_same_links [OF inv(1,2), of "?tm\<lparr>tm_expire := now\<rparr>"] by simp
    from timer_requeue_same [OF this, of t "?tm\<lparr>tm_expire := now\<rparr>" b bk] 2 tm show ?thesis
      by (auto simp: step deleted_def)
  next
    case 3
    with timer_requeue_same [OF inv, of bk] tm show ?thesis
      by (auto simp: step deleted_def)
  next
    case 4
    with inv(1) tm show ?thesis
      by (auto simp: step deleted_def)
  qed
qed

lemma timer_process_changes_inv:
  assumes "timer_inv {} r"
  shows "\<exists>r'. timer_process_changes now r = Some r' \<and> timer_inv {} r' \<and> tr_change_q r' = [] \<and>
    tr_gc_q r' = tr_gc_q r @ filter (deleted r) (tr_change_q r) \<and>
    (\<forall>u. u \<notin> set (tr_change_q r) \<longrightarrow> tr_timer r' u = tr_timer r u) \<and>
    dom (tr_timer r') = dom (tr_timer r) \<and> tr_mem r' = tr_mem r"
  using assms
proof (induction "tr_change_q r" arbitrary: r)
  case Nil
  then show ?case by (simp add: timer_process_changes.simps [of now r])
next
  case (Cons t ts)
  obtain r1 tm' where r1: "process_change now t r = Some r1" "timer_inv {} r1" "tr_change_q r1 = ts"
    "tr_timer r1 = (tr_timer r)(t \<mapsto> tm')" "tr_mem r1 = tr_mem r"
    "tr_gc_q r1 = tr_gc_q r @ (if deleted r t then [t] else [])"
    using process_change_inv [OF Cons.prems Cons.hyps(2) [symmetric]] by blast
  have "t \<in> set (tr_change_q r)" "distinct (t # ts)"
    using Cons.prems unfolding Cons.hyps(2) [symmetric] timer_inv_def change_inv_def by simp_all
  then have nt: "t \<notin> set ts" "t \<in> dom (tr_timer r)"
    by (auto elim: change_q_live [OF Cons.prems, of t])
  then have f: "filter (deleted r1) ts = filter (deleted r) ts"
    by (intro filter_cong) (auto simp: deleted_def r1(4))
  show ?case
    using Cons.hyps(1) [OF r1(3) [symmetric] r1(2)] Cons.hyps(2) [symmetric] r1 f nt
    by (auto simp: timer_process_changes.simps [of now r] insert_absorb)
qed

section \<open>Adding and deleting\<close>

lemma timer_alloc_inv:
  assumes "timer_inv {} r" "0 < tr_mem r"
  shows "\<exists>t r'. timer_alloc r = Some (t, r') \<and> timer_inv {t} r' \<and>
    tr_timer r' = (tr_timer r)(t \<mapsto> zero_timer) \<and> tr_slot r' = tr_slot r \<and> tr_bucket r' = tr_bucket r \<and>
    tr_mem r - 1 \<le> tr_mem r' \<and> key_of r t = None \<and> ptimer_of (tr_timer r) t = None"
proof (cases "tr_gc_q r")
  case Nil
  have fresh: "tr_timer r (tr_next r) = None"
    using assms(1) by (fastforce simp: timer_inv_def fresh_inv_def bucket_of_def)
  then have f: "bucket_of (tr_timer r) (tr_next r) = None" "ptimer_of (tr_timer r) (tr_next r) = None"
    "\<not> on_change_of (tr_timer r) (tr_next r)"
    by (simp_all add: bucket_of_def ptimer_of_def on_change_of_def)
  let ?r = "r\<lparr>tr_timer := (tr_timer r)(tr_next r \<mapsto> zero_timer),
    tr_next := tr_next r + 1, tr_mem := tr_mem r - 1\<rparr>"
  have "bucket_ok ((bucket_of (tr_timer r))(tr_next r \<mapsto> None)) b bk"
    if "tr_bucket r b = Some bk" for b bk
    using assms(1) that f by (intro bucket_ok_other) (auto simp: timer_inv_def buckets_inv_def)
  then have "buckets_inv ?r"
    using assms(1) by (auto simp: timer_inv_def buckets_inv_def zero_timer_def)
  moreover have "gc_inv {tr_next r} ?r" "change_inv {tr_next r} ?r" "slot_inv ?r"
    using assms(1) Nil f by (auto simp: timer_inv_def gc_inv_def change_inv_def slot_inv_def zero_timer_def)
  moreover have "fresh_inv ?r"
    using assms(1) by (auto simp: timer_inv_def fresh_inv_def less_Suc_eq)
  ultimately show ?thesis
    using Nil assms(2) fresh f(2)
    by (intro exI [of _ "tr_next r"] exI [of _ ?r]) (simp add: timer_alloc_def timer_inv_def key_of_def)
next
  case (Cons t ts)
  have t: "bucket_of (tr_timer r) t = Some None" "ptimer_of (tr_timer r) t = None"
    using assms(1) Cons by (auto simp: timer_inv_def gc_inv_def)
  then have "\<not> on_change_of (tr_timer r) t"
    using assms(1) by (auto simp: timer_inv_def change_inv_def)
  then have p: "bucket_of ((tr_timer r)(t \<mapsto> zero_timer)) = bucket_of (tr_timer r)"
    "ptimer_of ((tr_timer r)(t \<mapsto> zero_timer)) = ptimer_of (tr_timer r)"
    "on_change_of ((tr_timer r)(t \<mapsto> zero_timer)) = on_change_of (tr_timer r)"
    using t by (auto simp: zero_timer_def fun_eq_iff)
  let ?r = "r\<lparr>tr_gc_q := ts, tr_gc := tr_gc r - 1, tr_timer := (tr_timer r)(t \<mapsto> zero_timer)\<rparr>"
  have "timer_inv {t} ?r"
    using assms(1) Cons t(2) by (auto simp: timer_inv_defs p simp del: proj_upd)
  moreover have "key_of r t = None"
    using t(1) by (auto simp: key_of_def bucket_of_def)
  ultimately show ?thesis
    using Cons t(2) by (intro exI [of _ t] exI [of _ ?r]) (simp add: timer_alloc_def)
qed

text \<open>What the owner of a timer pointer sees of it.\<close>

definition client :: "timer_root \<Rightarrow> slot \<Rightarrow> (timespec \<times> (int \<times> int) \<times> nat \<times> nat option) option" where
  "client r s = do { t \<leftarrow> tr_slot r s; tm \<leftarrow> tr_timer r t; k \<leftarrow> key_of r t;
                     Some (tm_expire tm, k, tm_data tm, tm_cb tm) }"

lemma timer_set_expire_add:
  "tm_expire (timer_set_expire sec nsec tm) = timespec_add (tm_expire tm) \<lparr>tv_sec = sec, tv_nsec = nsec\<rparr>"
  "tm_data (timer_set_expire sec nsec tm) = tm_data tm"
  "tm_cb (timer_set_expire sec nsec tm) = tm_cb tm"
  by (simp_all add: timer_set_expire_def timespec_add_def Let_def)

lemma client_slot_inj:
  assumes "timer_inv X r" "tr_slot r s = Some t" "tr_slot r s' = Some t"
  shows "s = s'"
  using assms unfolding timer_inv_def slot_inv_def by (metis option.inject)

lemma slot_live:
  assumes "timer_inv {} r" "tr_slot r s = Some t"
  obtains tm b where "tr_timer r t = Some tm" "tm_bucket tm = Some b"
proof -
  have pt: "ptimer_of (tr_timer r) t = Some s"
    using assms by (simp add: timer_inv_def slot_inv_def)
  then obtain tm where tm: "tr_timer r t = Some tm"
    by (auto simp: ptimer_of_def bind_eq_Some_conv)
  have "t \<notin> set (tr_gc_q r)"
    using assms(1) pt by (auto simp: timer_inv_def gc_inv_def)
  then have "tm_bucket tm \<noteq> None"
    using assms(1) bucket_of_Some [of "tr_timer r", OF tm] by (auto simp: timer_inv_def gc_inv_def)
  with tm that show ?thesis by blast
qed

lemma timer_restart_inv:
  assumes "timer_inv {} r" "2 \<le> tr_mem r" and Some: "tr_slot r s = Some t"
  shows "\<exists>r'. timer_add s name sec nsec data cb now r = Some r' \<and> timer_inv {} r' \<and>
    client r' = (client r)(s \<mapsto> (timespec_add now \<lparr>tv_sec = sec, tv_nsec = nsec\<rparr>, (sec, nsec), data, cb)) \<and>
    (\<exists>t. tr_slot r' = (tr_slot r)(s \<mapsto> t)) \<and> tr_mem r - 2 \<le> tr_mem r'"
proof -
  let ?upd = "\<lambda>tm. if tm_data tm \<noteq> data \<or> tm_cb tm \<noteq> cb
    then tm\<lparr>tm_name := take 31 name, tm_data := data, tm_cb := cb\<rparr> else tm"
  obtain tm b where tm: "tr_timer r t = Some tm" and b: "tm_bucket tm = Some b"
    using slot_live [OF assms(1) Some] .
  let ?tm = "tm\<lparr>tm_expire := now\<rparr>"
  let ?r = "r\<lparr>tr_timer := (tr_timer r)(t \<mapsto> ?tm)\<rparr>"
  have inv: "timer_inv {} ?r" "tr_timer ?r t = Some ?tm" "tm_bucket ?tm = Some b" "0 < tr_mem ?r"
    using timer_inv_same_links [OF assms(1) tm, of ?tm] b assms(2) by simp_all
  then obtain r1 b1 where r1: "timer_requeue t sec nsec ?r = Some r1" "timer_inv {} r1"
    "tr_timer r1 = (tr_timer ?r)(t \<mapsto> (timer_set_expire sec nsec ?tm)\<lparr>tm_bucket := Some b1\<rparr>)"
    "tr_slot r1 = tr_slot r" "tr_mem r - 1 \<le> tr_mem r1"
    using timer_requeue_inv [OF inv, of sec nsec] by auto
  define tm1 where "tm1 = (timer_set_expire sec nsec ?tm)\<lparr>tm_bucket := Some b1\<rparr>"
  define tm2 where "tm2 = ?upd tm1"
  let ?r' = "r1\<lparr>tr_timer := (tr_timer r1)(t \<mapsto> tm2)\<rparr>"
  have tm1: "tr_timer r1 t = Some tm1" using r1(3) by (simp add: tm1_def)
  have tm2: "tm_bucket tm2 = tm_bucket tm1" "tm_ptimer tm2 = tm_ptimer tm1" "tm_on_change tm2 = tm_on_change tm1"
    "tm_expire tm2 = timespec_add now \<lparr>tv_sec = sec, tv_nsec = nsec\<rparr>" "tm_data tm2 = data" "tm_cb tm2 = cb"
    by (auto simp: tm2_def tm1_def timer_set_expire_add)
  have k: "key_of ?r' = (key_of r)(t \<mapsto> (sec, nsec))"
    using key_of_upd_timer [OF tm1 tm2(1)] key_requeue [OF inv(1) r1(1)]
      key_of_upd_timer [OF tm, of ?tm] inv(4) by simp
  have "timer_add s name sec nsec data cb now r = Some ?r'"
    using Some tm r1(1) tm1 by (simp add: timer_add_def upd_timer_def tm2_def)
  moreover have "timer_inv {} ?r'"
    using r1(2) tm1 tm2(1-3) by (rule timer_inv_same_links)
  moreover have "client ?r' = (client r)(s \<mapsto> (timespec_add now \<lparr>tv_sec = sec, tv_nsec = nsec\<rparr>, (sec, nsec), data, cb))"
  proof (rule ext)
    fix s'
    show "client ?r' s' = ((client r)(s \<mapsto> (timespec_add now \<lparr>tv_sec = sec, tv_nsec = nsec\<rparr>, (sec, nsec), data, cb))) s'"
    proof (cases "s' = s \<or> tr_slot r s' = None")
      case True
      then show ?thesis
        using Some by (auto simp: client_def k r1(4) tm2(4-6))
    next
      case False
      then obtain u where u: "tr_slot r s' = Some u" by auto
      with False client_slot_inj [OF assms(1) Some, of s'] have "u \<noteq> t" by auto
      then have "tr_timer r1 u = tr_timer r u" by (simp add: r1(3))
      with \<open>u \<noteq> t\<close> show ?thesis
        using u False by (simp add: client_def k r1(4))
    qed
  qed
  ultimately show ?thesis
    using r1(4,5) fun_upd_idem [of "tr_slot r" s "Some t", OF Some] by (intro exI [of _ ?r']) (auto intro!: exI [of _ t])
qed

lemma timer_create_inv:
  assumes "timer_inv {} r" "2 \<le> tr_mem r" and None: "tr_slot r s = None"
  shows "\<exists>r'. timer_add s name sec nsec data cb now r = Some r' \<and> timer_inv {} r' \<and>
    client r' = (client r)(s \<mapsto> (timespec_add now \<lparr>tv_sec = sec, tv_nsec = nsec\<rparr>, (sec, nsec), data, cb)) \<and>
    (\<exists>t. tr_slot r' = (tr_slot r)(s \<mapsto> t)) \<and> tr_mem r - 2 \<le> tr_mem r'"
proof -
  obtain t r1 where r1: "timer_alloc r = Some (t, r1)" "timer_inv {t} r1"
    "tr_timer r1 = (tr_timer r)(t \<mapsto> zero_timer)" "tr_slot r1 = tr_slot r" "tr_bucket r1 = tr_bucket r"
    "tr_mem r - 1 \<le> tr_mem r1" "key_of r t = None" "ptimer_of (tr_timer r) t = None"
    using timer_alloc_inv [OF assms(1)] assms(2) by auto
  define tm2 where "tm2 = (timer_set_expire sec nsec (zero_timer\<lparr>tm_name := take 31 name,
    tm_data := data, tm_cb := cb, tm_expire := now\<rparr>))\<lparr>tm_ptimer := Some s\<rparr>"
  have links: "tm_bucket tm2 = None" "\<not> tm_on_change tm2" "tm_ptimer tm2 = Some s"
    "tm_expire tm2 = timespec_add now \<lparr>tv_sec = sec, tv_nsec = nsec\<rparr>" "tm_data tm2 = data" "tm_cb tm2 = cb"
    by (simp_all add: tm2_def zero_timer_def timer_set_expire_add)
  define r2 where "r2 = r1\<lparr>tr_timer := (tr_timer r)(t \<mapsto> tm2), tr_slot := (tr_slot r)(s \<mapsto> t)\<rparr>"
  have tm1: "tr_timer r1 t = Some zero_timer" using r1(3) by simp
  have "ptimer_of (tr_timer r) u \<noteq> Some s" for u
    using assms(1) None unfolding timer_inv_def slot_inv_def by (metis option.distinct(1))
  then have inv2: "timer_inv {t} r2"
    using r1 None links by (auto simp: timer_inv_defs r2_def zero_timer_def)
  have k2: "key_of r2 = key_of r"
    using links(1) r1(7) by (intro ext) (simp add: key_of_def r2_def r1(5))
  have mem2: "0 < tr_mem r2"
    using r1(6) assms(2) by (simp add: r2_def)
  obtain r' b where r': "timer_enqueue_bucket t sec nsec r2 = Some r'" "timer_inv {} r'"
    "tr_timer r' = (tr_timer r2)(t \<mapsto> tm2\<lparr>tm_bucket := Some b\<rparr>)" "tr_slot r' = tr_slot r2"
    "tr_mem r2 - 1 \<le> tr_mem r'"
    using timer_enqueue_inv [OF inv2, of t tm2 sec nsec] mem2 by (auto simp: r2_def)
  have "key_of r' = (key_of r)(t \<mapsto> (sec, nsec))"
    using key_enqueue [OF inv2 r'(1)] k2 r1(6) assms(2) by (simp add: r2_def)
  moreover have "tr_slot r s' \<noteq> Some t" for s'
    using assms(1) r1(8) by (auto simp: timer_inv_def slot_inv_def)
  ultimately have "client r' = (client r)(s \<mapsto> (timespec_add now \<lparr>tv_sec = sec, tv_nsec = nsec\<rparr>, (sec, nsec), data, cb))"
    using r'(3,4) links by (auto simp: fun_eq_iff client_def r2_def intro!: bind_option_cong)
  moreover have "timer_add s name sec nsec data cb now r = Some r'"
    using None r1(1) tm1 r'(1) by (simp add: timer_add_def upd_timer_def r1(3,4) tm2_def r2_def)
  ultimately show ?thesis
    using r' r1(6) by (intro exI [of _ r']) (auto simp: r2_def)
qed

lemma timer_add_inv:
  assumes "timer_inv {} r" "2 \<le> tr_mem r"
  shows "\<exists>r'. timer_add s name sec nsec data cb now r = Some r' \<and> timer_inv {} r' \<and>
    client r' = (client r)(s \<mapsto> (timespec_add now \<lparr>tv_sec = sec, tv_nsec = nsec\<rparr>, (sec, nsec), data, cb)) \<and>
    (\<exists>t. tr_slot r' = (tr_slot r)(s \<mapsto> t)) \<and> tr_mem r - 2 \<le> tr_mem r'"
  using timer_restart_inv [OF assms] timer_create_inv [OF assms] by (cases "tr_slot r s") blast+

lemma timer_inv_slot_live:
  assumes "timer_inv {} r" "tr_slot r s = Some t"
  shows "\<exists>tm. tr_timer r t = Some tm \<and> tm_bucket tm \<noteq> None"
  using slot_live [OF assms] by (metis option.distinct(1))

lemma timer_del_inv:
  assumes "timer_inv {} r" "tr_timer r t = Some tm" "tm_bucket tm = Some b"
  shows "\<exists>r'. timer_del (Some t) r = Some r' \<and> timer_inv {} r' \<and>
    tr_timer r' = (tr_timer r)(t \<mapsto> tm\<lparr>tm_delete := True, tm_on_change := True\<rparr>) \<and>
    tr_bucket r' = tr_bucket r \<and> tr_bucket_q r' = tr_bucket_q r \<and> tr_slot r' = tr_slot r \<and>
    tr_gc_q r' = tr_gc_q r \<and> tr_mem r' = tr_mem r"
proof -
  let ?tm = "tm\<lparr>tm_delete := True\<rparr>"
  let ?r = "r\<lparr>tr_timer := (tr_timer r)(t \<mapsto> ?tm)\<rparr>"
  have inv: "timer_inv {} ?r"
    using timer_inv_same_links [OF assms(1,2), of ?tm] by simp
  obtain bk where bk: "tr_bucket r b = Some bk"
    using timer_inv_live_bucket [OF assms] .
  have ?thesis if "tm_on_change tm"
    using inv assms(2) that
    by (auto simp: timer_del_def upd_timer_def timer_change_def intro!: arg_cong [of _ _ "fun_upd (tr_timer r) t"])
  moreover have ?thesis if "\<not> tm_on_change tm"
  proof -
    let ?r' = "?r\<lparr>tr_change_q := tr_change_q r @ [t],
      tr_timer := (tr_timer r)(t \<mapsto> tm\<lparr>tm_delete := True, tm_on_change := True\<rparr>)\<rparr>"
    have "timer_change t ?r = Some ?r'"
      using that assms(2,3) bk by (simp add: timer_change_def upd_timer_def)
    with timer_change_inv [OF inv this] show ?thesis
      using assms(2) by (intro exI [of _ ?r']) (simp add: timer_del_def upd_timer_def)
  qed
  ultimately show ?thesis by blast
qed

lemma timer_add_periodic_inv:
  assumes "timer_inv {} r" "2 \<le> tr_mem r"
  shows "\<exists>r'. timer_add_periodic s name sec nsec data cb now r = Some r' \<and> timer_inv {} r' \<and>
    client r' = (client r)(s \<mapsto> (timespec_add now \<lparr>tv_sec = sec, tv_nsec = nsec\<rparr>, (sec, nsec), data, cb)) \<and>
    (\<exists>t. tr_slot r' = (tr_slot r)(s \<mapsto> t)) \<and> tr_mem r - 2 \<le> tr_mem r'"
proof -
  obtain r1 t where r1: "timer_add s name sec nsec data cb now r = Some r1" "timer_inv {} r1"
    "client r1 = (client r)(s \<mapsto> (timespec_add now \<lparr>tv_sec = sec, tv_nsec = nsec\<rparr>, (sec, nsec), data, cb))"
    "tr_slot r1 = (tr_slot r)(s \<mapsto> t)" "tr_mem r - 2 \<le> tr_mem r1"
    using timer_add_inv [OF assms] by blast
  then obtain tm where tm: "tr_timer r1 t = Some tm"
    using timer_inv_slot_live [OF r1(2), of s t] by auto
  let ?tm = "tm\<lparr>tm_periodic := True, tm_reset := True\<rparr>"
  let ?r = "r1\<lparr>tr_timer := (tr_timer r1)(t \<mapsto> ?tm)\<rparr>"
  have "timer_inv {} ?r"
    using timer_inv_same_links [OF r1(2) tm, of ?tm] by simp
  moreover have "client ?r = client r1"
    using key_of_upd_timer [OF tm, of ?tm] tm
    by (auto simp: client_def fun_eq_iff split: Option.bind_splits)
  ultimately show ?thesis
    using r1 tm by (intro exI [of _ ?r]) (simp add: timer_add_periodic_def upd_timer_def, blast)
qed

lemma run_cmd_inv:
  assumes "timer_inv {} r" "2 \<le> tr_mem r"
  shows "\<exists>r'. run_cmd c r = Some r' \<and> timer_inv {} r' \<and> tr_mem r - 2 \<le> tr_mem r'"
proof (cases c)
  case (Cmd_add s name sec nsec data cb now)
  with timer_add_inv [OF assms] show ?thesis by (metis run_cmd.simps(1))
next
  case (Cmd_add_periodic s name sec nsec data cb now)
  with timer_add_periodic_inv [OF assms] show ?thesis by (metis run_cmd.simps(2))
next
  case (Cmd_del s)
  show ?thesis
  proof (cases "tr_slot r s")
    case None
    with Cmd_del assms(1) show ?thesis by (simp add: timer_del_def)
  next
    case (Some t)
    then obtain tm b where "tr_timer r t = Some tm" "tm_bucket tm = Some b"
      using timer_inv_slot_live [OF assms(1)] by blast
    from timer_del_inv [OF assms(1) this] Cmd_del Some show ?thesis by auto
  qed
qed

section \<open>Flushing\<close>

text \<open>Marking all timers of a list for deletion, and the timers of all buckets.\<close>

definition marked :: "timer_root \<Rightarrow> tid \<Rightarrow> bool" where
  "marked r t \<longleftrightarrow> deleted r t \<and> t \<in> set (tr_change_q r)"

lemma marked_iff:
  assumes "timer_inv X r"
  shows "marked r t \<longleftrightarrow> (\<exists>tm. tr_timer r t = Some tm \<and> tm_delete tm \<and> tm_on_change tm)"
  using assms by (auto simp: marked_def deleted_def timer_inv_def change_inv_def on_change_of_def split: option.splits)

lemma flush_timers_inv:
  assumes "timer_inv {} r" "\<And>t. t \<in> set ts \<Longrightarrow> \<exists>b. bucket_of (tr_timer r) t = Some (Some b)"
  shows "\<exists>r'. flush_timers ts r = Some r' \<and> timer_inv {} r' \<and> tr_bucket r' = tr_bucket r \<and>
    tr_bucket_q r' = tr_bucket_q r \<and> bucket_of (tr_timer r') = bucket_of (tr_timer r) \<and>
    (\<forall>t. marked r' t \<longleftrightarrow> marked r t \<or> t \<in> set ts)"
  using assms
proof (induction ts arbitrary: r)
  case (Cons t ts)
  obtain b where b: "bucket_of (tr_timer r) t = Some (Some b)"
    using Cons.prems(2) [of t] by auto
  then obtain tm where tm: "tr_timer r t = Some tm" "tm_bucket tm = Some b"
    using bucket_of_live by blast
  obtain r1 where r1: "timer_del (Some t) r = Some r1" "timer_inv {} r1"
    "tr_timer r1 = (tr_timer r)(t \<mapsto> tm\<lparr>tm_delete := True, tm_on_change := True\<rparr>)"
    "tr_bucket r1 = tr_bucket r" "tr_bucket_q r1 = tr_bucket_q r"
    using timer_del_inv [OF Cons.prems(1) tm] by blast
  have B: "bucket_of (tr_timer r1) = bucket_of (tr_timer r)"
    unfolding r1(3) using tm(1) by simp
  have "marked r1 u \<longleftrightarrow> marked r u \<or> u = t" for u
    using tm(1) by (auto simp: marked_iff [OF r1(2)] marked_iff [OF Cons.prems(1)] r1(3))
  with Cons.IH [OF r1(2)] Cons.prems(2) r1(1,4,5) B show ?case by auto
qed simp

lemma flush_buckets_inv:
  assumes "timer_inv {} r" "set bs \<subseteq> dom (tr_bucket r)"
  shows "\<exists>r'. flush_buckets bs r = Some r' \<and> timer_inv {} r' \<and> tr_bucket r' = tr_bucket r \<and>
    bucket_of (tr_timer r') = bucket_of (tr_timer r) \<and>
    (\<forall>t. marked r' t \<longleftrightarrow> marked r t \<or> (\<exists>b \<in> set bs. bucket_of (tr_timer r) t = Some (Some b)))"
  using assms
proof (induction bs arbitrary: r)
  case (Cons b bs)
  then obtain bk where bk: "tr_bucket r b = Some bk" by auto
  then have q: "t \<in> set (bk_q bk) \<longleftrightarrow> bucket_of (tr_timer r) t = Some (Some b)" for t
    using Cons.prems(1) by (simp add: timer_inv_def buckets_inv_def bucket_ok_def)
  obtain r1 where r1: "flush_timers (bk_q bk) r = Some r1" "timer_inv {} r1" "tr_bucket r1 = tr_bucket r"
    "bucket_of (tr_timer r1) = bucket_of (tr_timer r)"
    "\<forall>t. marked r1 t \<longleftrightarrow> marked r t \<or> t \<in> set (bk_q bk)"
    using flush_timers_inv [OF Cons.prems(1), of "bk_q bk"] q by auto
  with Cons.IH [OF r1(2)] Cons.prems(2) bk q show ?case by auto
qed simp

lemma gc_run_result:
  "tr_gc r = length ts \<Longrightarrow>
   gc_run ts r = r\<lparr>tr_gc_q := (if ts = [] then tr_gc_q r else []), tr_gc := 0, tr_timer := (tr_timer r) |` (- set ts)\<rparr>"
  by (induction ts arbitrary: r) (auto simp: restrict_map_def fun_eq_iff intro!: timer_root.equality)

lemma no_timers_no_buckets:
  assumes "timer_inv {} r" "\<And>t. bucket_of (tr_timer r) t \<noteq> Some (Some b)"
  shows "tr_bucket r b = None"
proof (rule ccontr)
  assume "tr_bucket r b \<noteq> None"
  then obtain bk where "bucket_ok (bucket_of (tr_timer r)) b bk"
    using assms(1) by (auto simp: timer_inv_def buckets_inv_def)
  with assms(2) show False
    unfolding bucket_ok_def by (metis all_not_in_conv set_empty)
qed

lemma timer_flush_root_result:
  assumes inv: "timer_inv {} r"
  shows "\<exists>r'. timer_flush_root now r = Some r' \<and> tr_timer r' = Map.empty \<and> tr_bucket r' = Map.empty \<and>
    tr_slot r' = Map.empty \<and> tr_bucket_q r' = [] \<and> tr_change_q r' = [] \<and> tr_gc_q r' = [] \<and>
    tr_buckets r' = 0 \<and> tr_gc r' = 0"
proof -
  have bq: "set (tr_bucket_q r) = dom (tr_bucket r)"
    using inv by (simp add: timer_inv_def buckets_inv_def)
  obtain r1 where r1: "flush_buckets (tr_bucket_q r) r = Some r1" "timer_inv {} r1"
    "bucket_of (tr_timer r1) = bucket_of (tr_timer r)"
    "\<forall>t. marked r1 t \<longleftrightarrow> marked r t \<or> (\<exists>b \<in> set (tr_bucket_q r). bucket_of (tr_timer r) t = Some (Some b))"
    using flush_buckets_inv [OF inv, of "tr_bucket_q r"] bq by auto
  obtain r2 where r2: "timer_process_changes now r1 = Some r2" "timer_inv {} r2" "tr_change_q r2 = []"
    "tr_gc_q r2 = tr_gc_q r1 @ filter (deleted r1) (tr_change_q r1)" "dom (tr_timer r2) = dom (tr_timer r1)"
    using timer_process_changes_inv [OF r1(2)] by blast
  have gc: "set (tr_gc_q r2) = {t. bucket_of (tr_timer r2) t = Some None}" "tr_gc r2 = length (tr_gc_q r2)"
    using r2(2) by (auto simp: timer_inv_def gc_inv_def)
  have all: "dom (tr_timer r2) \<subseteq> set (tr_gc_q r2)"
  proof
    fix t assume "t \<in> dom (tr_timer r2)"
    then obtain x where "bucket_of (tr_timer r1) t = Some x"
      using r2(5) by (auto simp: bucket_of_def)
    then consider "bucket_of (tr_timer r1) t = Some None" | b where "bucket_of (tr_timer r) t = Some (Some b)"
      using r1(3) by (cases x) auto
    then show "t \<in> set (tr_gc_q r2)"
    proof cases
      case 1
      then show ?thesis
        using r1(2) r2(4) by (auto simp: timer_inv_def gc_inv_def)
    next
      case 2
      then have "marked r1 t"
        using r1(4) bq inv by (auto simp: timer_inv_def buckets_inv_def)
      then show ?thesis
        using r2(4) by (simp add: marked_def)
    qed
  qed
  have none: "bucket_of (tr_timer r2) t \<noteq> Some (Some b)" for t b
    using all gc(1) by (auto simp: bucket_of_def)
  have b0: "tr_bucket r2 = Map.empty"
    using no_timers_no_buckets [OF r2(2)] none by (auto simp: fun_eq_iff)
  have "\<forall>t \<in> set (tr_gc_q r2). ptimer_of (tr_timer r2) t = None"
    using r2(2) by (simp add: timer_inv_def gc_inv_def)
  then have "ptimer_of (tr_timer r2) t = None" for t
    using all by (cases "t \<in> dom (tr_timer r2)") (blast, simp add: ptimer_of_def domIff)
  then have s0: "tr_slot r2 = Map.empty"
    using r2(2) by (auto simp: timer_inv_def slot_inv_def fun_eq_iff)
  have t0: "tr_timer r2 |` (- set (tr_gc_q r2)) = Map.empty"
    using all by (auto simp: restrict_map_def fun_eq_iff)
  have q0: "tr_bucket_q r2 = [] \<and> tr_buckets r2 = 0"
    using r2(2) b0 by (auto simp: timer_inv_def buckets_inv_def)
  show ?thesis
    using r1(1) r2(1,3) b0 s0 t0 q0 gc_run_result [OF gc(2)]
    by (intro exI [of _ "gc_run (tr_gc_q r2) r2"]) (simp add: timer_flush_root_def)
qed

section \<open>Reachable states\<close>

text \<open>No operation gives memory back, so what an end state has left bounds every allocation before.\<close>

lemma upd_timer_mem: "upd_timer t f r = Some r' \<Longrightarrow> tr_mem r' = tr_mem r"
  by (auto simp: upd_timer_def split: bind_splits)

lemma upd_bucket_mem: "upd_bucket b f r = Some r' \<Longrightarrow> tr_mem r' = tr_mem r"
  by (auto simp: upd_bucket_def split: bind_splits)

lemma timer_change_mem: "timer_change t r = Some r' \<Longrightarrow> tr_mem r' = tr_mem r"
  by (auto simp: timer_change_def dest: upd_timer_mem split: bind_splits if_splits)

lemma timer_del_mem: "timer_del x r = Some r' \<Longrightarrow> tr_mem r' = tr_mem r"
  by (auto simp: timer_del_def dest!: upd_timer_mem timer_change_mem split: bind_splits option.splits)

lemma timer_enqueue_mem: "timer_enqueue_bucket t sec nsec r = Some r' \<Longrightarrow> tr_mem r' \<le> tr_mem r"
  by (auto simp: timer_enqueue_bucket_def bucket_insert_def Let_def dest!: upd_timer_mem upd_bucket_mem
      split: bind_splits option.splits if_splits)

lemma timer_dequeue_mem: "timer_dequeue_bucket t r = Some r' \<Longrightarrow> tr_mem r' = tr_mem r"
  by (auto simp: timer_dequeue_bucket_def Let_def split: bind_splits if_splits)

lemma timer_requeue_mem: "timer_requeue t sec nsec r = Some r' \<Longrightarrow> tr_mem r' \<le> tr_mem r"
  by (auto simp: timer_requeue_def dest!: upd_timer_mem upd_bucket_mem timer_enqueue_mem timer_dequeue_mem
      split: bind_splits if_splits)

lemma timer_alloc_mem: "timer_alloc r = Some (t, r') \<Longrightarrow> tr_mem r' \<le> tr_mem r"
  by (auto simp: timer_alloc_def split: list.splits if_splits)

lemma timer_add_mem: "timer_add s name sec nsec data cb now r = Some r' \<Longrightarrow> tr_mem r' \<le> tr_mem r"
  by (auto simp: timer_add_def dest!: upd_timer_mem timer_alloc_mem timer_requeue_mem timer_enqueue_mem
      split: bind_splits option.splits prod.splits)

lemma run_cmd_mem: "run_cmd c r = Some r' \<Longrightarrow> tr_mem r' \<le> tr_mem r"
  by (cases c) (auto simp: timer_add_periodic_def dest!: upd_timer_mem timer_add_mem timer_del_mem
      split: bind_splits option.splits)

lemma run_cmds_keep:
  "run_cmds cs r = Some r' \<Longrightarrow>
   tr_mem r' \<le> tr_mem r \<and> (timer_inv {} r \<and> 2 \<le> tr_mem r' \<longrightarrow> timer_inv {} r')"
proof (induction cs arbitrary: r)
  case (Cons c cs)
  then obtain r1 where r1: "run_cmd c r = Some r1" "run_cmds cs r1 = Some r'"
    by (auto split: bind_splits)
  then show ?case
    using Cons.IH [OF r1(2)] run_cmd_mem [OF r1(1)] run_cmd_inv [of r c] by auto
qed simp

text \<open>\<open>keeps f\<close>: when \<open>f\<close> returns with memory left for two more objects, it kept the invariant.\<close>

definition keeps :: "(timer_root \<Rightarrow> timer_root option) \<Rightarrow> bool" where
  "keeps f \<longleftrightarrow> (\<forall>r r'. f r = Some r' \<longrightarrow>
     tr_mem r' \<le> tr_mem r \<and> (timer_inv {} r \<and> 2 \<le> tr_mem r' \<longrightarrow> timer_inv {} r'))"

lemma keepsI:
  assumes "\<And>r r'. f r = Some r' \<Longrightarrow> tr_mem r' \<le> tr_mem r"
    "\<And>r r'. f r = Some r' \<Longrightarrow> timer_inv {} r \<Longrightarrow> 2 \<le> tr_mem r' \<Longrightarrow> timer_inv {} r'"
  shows "keeps f"
  using assms by (auto simp: keeps_def)

lemma keepsD:
  assumes "keeps f" "f r = Some r'" "2 \<le> tr_mem r \<Longrightarrow> timer_inv {} r" "2 \<le> tr_mem r'"
  shows "timer_inv {} r'"
  using assms by (fastforce simp: keeps_def)

lemma keeps_bind:
  assumes "keeps f" "\<And>r. keeps (g r)"
  shows "keeps (\<lambda>r. f r \<bind> (\<lambda>r'. g r r'))"
  using assms unfolding keeps_def by (auto split: bind_splits) (meson order_trans)+

lemma keeps_Some: "keeps Some"
  by (simp add: keeps_def)

lemma keeps_run_cmds: "keeps (run_cmds cs)"
  using run_cmds_keep by (auto simp: keeps_def)

lemma keeps_upd_timer:
  assumes "\<And>tm. tm_bucket (f tm) = tm_bucket tm" "\<And>tm. tm_ptimer (f tm) = tm_ptimer tm"
      "\<And>tm. tm_on_change (f tm) = tm_on_change tm"
  shows "keeps (upd_timer t f)"
  using assms upd_timer_inv [of "{}" _ t f] upd_timer_mem by (fastforce simp: keeps_def)

lemma keeps_timer_change: "keeps (timer_change t)"
  using timer_change_inv timer_change_mem by (fastforce simp: keeps_def)

lemma keeps_timer_del: "keeps (timer_del x)"
proof (cases x)
  case None
  then show ?thesis by (simp add: timer_del_def keeps_def)
next
  case (Some t)
  then have "timer_del x = (\<lambda>r. upd_timer t (tm_delete_update (\<lambda>_. True)) r \<bind> timer_change t)"
    by (simp add: timer_del_def fun_eq_iff)
  then show ?thesis
    using keeps_bind [OF keeps_upd_timer keeps_timer_change] by simp
qed

lemma keeps_read:
  assumes "\<And>x. keeps (f x)"
  shows "keeps (\<lambda>r. g r \<bind> (\<lambda>x. f x r))"
  using assms by (auto simp: keeps_def split: bind_splits)

lemma keeps_if:
  assumes "keeps f" "keeps g"
  shows "keeps (\<lambda>r. if P r then f r else g r)"
  using assms by (auto simp: keeps_def)

lemma keeps_fire: "keeps (timer_fire cbs now t)"
proof -
  have cb: "keeps (\<lambda>r. case tm_cb tm of None \<Rightarrow> Some r
      | Some c \<Rightarrow> upd_timer t (tm_timestamp_update (\<lambda>_. Some now)) r \<bind> run_cmds (cbs c t))" for tm
    by (cases "tm_cb tm") (auto intro!: keeps_Some keeps_bind keeps_upd_timer keeps_run_cmds)
  have flags: "keeps (\<lambda>r. tr_timer r t \<bind> (\<lambda>tm. if tm_periodic tm then timer_change t r
      else if tm_expired tm then timer_del (Some t) r else Some r))"
    by (intro keeps_read keeps_if keeps_timer_change keeps_timer_del keeps_Some)
  show ?thesis
    unfolding timer_fire_def
    by (intro keeps_bind keeps_upd_timer keeps_read [of _ "\<lambda>r. tr_timer r t"] cb flags) simp_all
qed

lemma walk_bucket_keeps:
  "walk_bucket cbs now b cur r = Some r' \<Longrightarrow>
   tr_mem r' \<le> tr_mem r \<and> (timer_inv {} r \<and> 2 \<le> tr_mem r' \<longrightarrow> timer_inv {} r')"
proof (induction rule: walk_bucket.raw_induct [rotated, consumes 1, case_names step])
  case (step walk cbs now b cur r r')
  show ?case
  proof (cases cur)
    case None
    with step(2) show ?thesis by simp
  next
    case (Some t)
    show ?thesis
    proof (cases "r' = r")
      case False
      with step(2) Some obtain r1 cur' where "timer_fire cbs now t r = Some r1" "walk cbs now b cur' r1 = Some r'"
        by (auto split: bind_splits if_splits)
      with step(1) [OF this(2)] keeps_fire [of cbs now t] show ?thesis
        unfolding keeps_def by (meson order_trans)
    qed simp
  qed
qed

lemma walk_buckets_keeps:
  "walk_buckets cbs now cur r = Some r' \<Longrightarrow>
   tr_mem r' \<le> tr_mem r \<and> (timer_inv {} r \<and> 2 \<le> tr_mem r' \<longrightarrow> timer_inv {} r')"
proof (induction rule: walk_buckets.raw_induct [rotated, consumes 1, case_names step])
  case (step walk cbs now cur r r')
  show ?case
  proof (cases cur)
    case None
    with step(2) show ?thesis by simp
  next
    case (Some b)
    with step(2) obtain bk :: bucket and r1 where "walk_bucket cbs now b (q_first (bk_q bk)) r = Some r1"
      "walk cbs now (q_next b (tr_bucket_q r1)) r1 = Some r'"
      by (auto split: bind_splits)
    with step(1) [OF this(2)] walk_bucket_keeps [OF this(1)] show ?thesis
      by (meson order_trans)
  qed
qed

lemma timer_del_internal_mem: "timer_del_internal t r = Some r' \<Longrightarrow> tr_mem r' = tr_mem r"
  by (auto simp: timer_del_internal_def Let_def dest!: timer_dequeue_mem upd_timer_mem
      split: bind_splits option.splits)

lemma process_change_mem: "process_change now t r = Some r' \<Longrightarrow> tr_mem r' \<le> tr_mem r"
  by (auto simp: process_change_def dest!: timer_del_internal_mem timer_requeue_mem upd_timer_mem
      split: bind_splits if_splits)

lemma timer_process_changes_mem: "timer_process_changes now r = Some r' \<Longrightarrow> tr_mem r' \<le> tr_mem r"
proof (induction rule: timer_process_changes.raw_induct [rotated, consumes 1, case_names step])
  case (step go now r r')
  then show ?case
    by (cases "tr_change_q r") (auto split: bind_splits dest!: process_change_mem intro: order_trans)
qed

lemma keeps_process_changes: "keeps (timer_process_changes now)"
proof (rule keepsI)
  fix r r' assume "timer_process_changes now r = Some r'" "timer_inv {} r"
  then show "timer_inv {} r'"
    using timer_process_changes_inv [of r now] by auto
qed (rule timer_process_changes_mem)

lemma keeps_smear_loop: "keeps (smear_loop ts now step)"
proof (induction ts arbitrary: now)
  case Nil
  then show ?case by (simp add: keeps_def)
next
  case (Cons t ts)
  have "keeps (\<lambda>r. upd_timer t (tm_expire_update (\<lambda>_. timespec_add now step)) r \<bind>
      smear_loop ts (timespec_add now step) step)"
    by (intro keeps_bind keeps_upd_timer Cons.IH) simp_all
  then show ?case by (simp add: Let_def cong: if_cong)
qed

lemma keeps_smear_bucket: "keeps (timer_smear_bucket_internal b now)"
  unfolding keeps_def
proof (intro allI impI)
  fix r r' assume "timer_smear_bucket_internal b now r = Some r'"
  then have "r' = r \<or> (\<exists>ts step. smear_loop ts now step r = Some r')"
    by (auto simp: timer_smear_bucket_internal_def Let_def split: bind_splits if_splits)
  then show "tr_mem r' \<le> tr_mem r \<and> (timer_inv {} r \<and> 2 \<le> tr_mem r' \<longrightarrow> timer_inv {} r')"
    using keeps_smear_loop by (auto simp: keeps_def)
qed

lemma keeps_smear_buckets: "keeps (smear_buckets now bs)"
proof (induction bs)
  case Nil
  then show ?case by (simp add: keeps_def)
next
  case (Cons b bs)
  then show ?case
    using keeps_bind [OF keeps_smear_bucket [of b "now b"]] by simp
qed

text \<open>What a client and the main loop can do to the timers.\<close>

inductive timer_reach :: "callbacks \<Rightarrow> timer_root \<Rightarrow> bool" for cbs :: callbacks where
  init: "timer_reach cbs (timer_init_root mem)"
| call: "timer_reach cbs r \<Longrightarrow> run_cmd c r = Some r' \<Longrightarrow> timer_reach cbs r'"
| walk: "timer_reach cbs r \<Longrightarrow> timer_walk cbs now1 now2 now3 r = Some (r', sl) \<Longrightarrow> timer_reach cbs r'"
| smear: "timer_reach cbs r \<Longrightarrow> timer_smear_bucket sec nsec now r = Some r' \<Longrightarrow> timer_reach cbs r'"
| smear_all: "timer_reach cbs r \<Longrightarrow> timer_smear_all_buckets clock r = Some r' \<Longrightarrow> timer_reach cbs r'"

lemma timer_init_inv: "timer_inv {} (timer_init_root mem)"
  by (simp add: timer_init_root_def timer_inv_defs keys_inv_def bucket_of_def ptimer_of_def on_change_of_def)

lemma timer_walk_keeps:
  assumes "timer_walk cbs now1 now2 now3 r = Some (r', sl)"
  shows "tr_mem r' \<le> tr_mem r \<and> (timer_inv {} r \<and> 2 \<le> tr_mem r' \<longrightarrow> timer_inv {} r')"
proof (cases "tr_bucket_q r = []")
  case False
  with assms obtain r1 where "walk_buckets cbs now1 (q_first (tr_bucket_q r)) r = Some r1"
    "timer_process_changes now2 r1 = Some r'"
    by (auto simp: timer_walk_def split: bind_splits)
  with walk_buckets_keeps [OF this(1)] keeps_process_changes [of now2] show ?thesis
    unfolding keeps_def by (meson order_trans)
qed (use assms in \<open>simp add: timer_walk_def\<close>)

lemma timer_reach_keeps: "timer_reach cbs r \<Longrightarrow> 2 \<le> tr_mem r \<Longrightarrow> timer_inv {} r"
proof (induction rule: timer_reach.induct)
  case (call r c r')
  then show ?case using run_cmd_mem [OF call(2)] run_cmd_inv [of r c] by auto
next
  case (walk r now1 now2 now3 r' sl)
  then show ?case using timer_walk_keeps [OF walk(2)] by auto
next
  case (smear r sec nsec now r')
  then show ?case
    by (auto simp: timer_smear_bucket_def split: option.splits intro: keepsD [OF keeps_smear_bucket])
next
  case (smear_all r clock r')
  then show ?case
    by (auto simp: timer_smear_all_buckets_def intro: keepsD [OF keeps_smear_buckets])
qed (rule timer_init_inv)

section \<open>Properties\<close>

abbreviation tsec :: "int \<Rightarrow> timespec" where
  "tsec s \<equiv> \<lparr>tv_sec = s, tv_nsec = 0\<rparr>"

text \<open>
  C12. Whatever sequence of adds, deletes, walks with arbitrary callbacks and smears a client
  and the main loop run on an initialised timer root, as long as the allocations succeed the
  queues, the back pointers to buckets and client pointers, the counters and the flags agree:
  the invariant holds in every reachable state with memory for two more objects.
\<close>

theorem timer_reach_inv:
  assumes "timer_reach cbs r" "2 \<le> tr_mem r"
  shows "timer_inv {} r"
  using assms by (rule timer_reach_keeps)

lemma run_cmds_reach: "timer_reach cbs r \<Longrightarrow> run_cmds cs r = Some r' \<Longrightarrow> timer_reach cbs r'"
  by (induction cs arbitrary: r) (auto split: bind_splits intro: timer_reach.call)

definition demo_cmds :: "timer_cmd list" where
  "demo_cmds = [Cmd_add 0 ''a'' 5 0 7 (Some 1) (tsec 100), Cmd_add_periodic 1 ''b'' 1 0 8 None (tsec 100),
     Cmd_del 0]"

definition demo_root :: timer_root where
  "demo_root = the (run_cmds demo_cmds (timer_init_root 9))"

lemmas timer_eval = timer_add_def timer_add_periodic_def timer_alloc_def timer_enqueue_bucket_def find_bucket_def
  bucket_insert_def upd_timer_def upd_bucket_def timer_init_root_def zero_timer_def timer_set_expire_def
  timer_del_def timer_change_def timer_requeue_def timer_dequeue_bucket_def timer_fire_def next_timer_def
  timer_walk_def q_first_def timespec_compare_def b2i_def Let_def

lemma demo_root_Some: "run_cmds demo_cmds (timer_init_root 9) = Some demo_root"
  by (simp add: demo_root_def demo_cmds_def timer_eval)

lemma demo_root_reach: "timer_reach cbs demo_root"
  using demo_root_Some timer_reach.init run_cmds_reach by blast

lemma demo_root_mem: "tr_mem demo_root = 5"
  by (simp add: demo_root_def demo_cmds_def timer_eval)

theorem timer_reach_inv_witness: "timer_inv {} demo_root"
  using timer_reach_inv [OF demo_root_reach [of "\<lambda>_ _. []"]] demo_root_mem by simp

text \<open>
  C13. \<open>timer_add\<close> refines the update of a map from client pointers to (expiration, interval,
  data, callback): it sets the entry of its own pointer, restarting the timer behind it or
  creating one, to the current time plus the interval, and leaves every other entry alone.
\<close>

theorem timer_add_refines_map:
  assumes "timer_inv {} r" "2 \<le> tr_mem r"
  shows "\<exists>r'. timer_add s name sec nsec data cb now r = Some r' \<and> timer_inv {} r' \<and>
    client r' = (client r)(s \<mapsto> (timespec_add now \<lparr>tv_sec = sec, tv_nsec = nsec\<rparr>, (sec, nsec), data, cb))"
  using timer_add_inv [OF assms] by blast

lemma demo_root_inv: "timer_inv {} demo_root"
  using timer_reach_keeps [OF demo_root_reach [of "\<lambda>_ _. []"]] demo_root_mem by simp

theorem timer_add_refines_map_witness:
  "\<exists>r'. timer_add 1 ''b'' 3 0 9 None (tsec 200) demo_root = Some r' \<and> timer_inv {} r' \<and>
    client r' = (client demo_root)(1 \<mapsto> (timespec_add (tsec 200) \<lparr>tv_sec = 3, tv_nsec = 0\<rparr>, (3, 0), 9, None))"
  using timer_add_refines_map [OF demo_root_inv, of 1 "''b''" 3 0 9 None "tsec 200"] demo_root_mem by simp

text \<open>
  C14. \<open>timer_process_changes\<close> always returns: it drains the change queue, moves exactly the
  timers marked for deletion to the garbage queue, in order, touches no timer outside the
  change queue, and keeps the invariant.
\<close>

theorem timer_process_changes_drains:
  assumes "timer_inv {} r"
  shows "\<exists>r'. timer_process_changes now r = Some r' \<and> timer_inv {} r' \<and> tr_change_q r' = [] \<and>
    tr_gc_q r' = tr_gc_q r @ filter (deleted r) (tr_change_q r) \<and>
    (\<forall>u. u \<notin> set (tr_change_q r) \<longrightarrow> tr_timer r' u = tr_timer r u)"
  using timer_process_changes_inv [OF assms] by blast

theorem timer_process_changes_drains_witness:
  "\<exists>r'. timer_process_changes (tsec 101) demo_root = Some r' \<and> tr_change_q r' = [] \<and> tr_gc_q r' = [0]"
  using timer_process_changes_drains [OF demo_root_inv, of "tsec 101"]
  by (auto simp: demo_root_def demo_cmds_def deleted_def timer_eval)

text \<open>
  C15. \<open>timer_flush_root\<close> returns and frees everything: afterwards no timer and no bucket is
  allocated, all queues are empty, both counters are zero and every client pointer is NULL.
\<close>

theorem timer_flush_root_frees_all:
  assumes "timer_inv {} r"
  shows "\<exists>r'. timer_flush_root now r = Some r' \<and> tr_timer r' = Map.empty \<and> tr_bucket r' = Map.empty \<and>
    tr_slot r' = Map.empty \<and> tr_bucket_q r' = [] \<and> tr_change_q r' = [] \<and> tr_gc_q r' = [] \<and>
    tr_buckets r' = 0 \<and> tr_gc r' = 0"
  using assms by (rule timer_flush_root_result)

theorem timer_flush_root_frees_all_witness:
  "tr_timer demo_root \<noteq> Map.empty \<and> (\<exists>r'. timer_flush_root (tsec 101) demo_root = Some r' \<and> tr_timer r' = Map.empty)"
  using timer_flush_root_frees_all [OF demo_root_inv, of "tsec 101"]
  by (auto simp: demo_root_def demo_cmds_def timer_eval fun_eq_iff)

definition readd_cb :: callbacks where
  "readd_cb c t = [Cmd_add 0 ''retry'' 1 0 7 (Some 1) (tsec 105)]"


end
