(* ===== verification/Txq.thy ===== *)
theory Txq
  imports Timespec "HOL-Library.Sublist"
begin

text \<open>
  The transmit queue of \<^verbatim>\<open>code/bngblaster/src/bbl_txq.c\<close>: a ring of packet slots with one
  producer and one consumer, used within the main thread (\<open>bbl_txq_to_buffer\<close>,
  \<open>bbl_txq_from_buffer\<close>) and between the main thread and an I/O thread (the slot functions
  and \<open>redirect\<close> of \<^verbatim>\<open>io/io_thread.c\<close>). Run one operation after the other, the ring refines a
  bounded first-in-first-out queue. The last part interleaves the two threads statement by
  statement.

  \<open>encode_ethernet\<close> is an argument of \<open>bbl_txq_to_buffer\<close> here: it maps a frame description
  and the slot's bytes to its result, the bytes afterwards and the length it set.
\<close>

section \<open>State\<close>

datatype bbl_txq_result = BBL_TXQ_OK | BBL_TXQ_ENCODE_ERROR | BBL_TXQ_FULL

abbreviation BBL_TXQ_BUFFER_LEN :: nat where
  "BBL_TXQ_BUFFER_LEN \<equiv> 4074"

record txq_slot =
  sl_timestamp :: timespec
  sl_vlan_tci :: u16
  sl_vlan_tpid :: u16
  sl_packet_len :: u16
  sl_packet :: "u8 list"

record txq =
  q_ring :: "txq_slot list"
  q_size :: u16
  q_write :: u16
  q_next :: u16
  q_full :: u32
  q_encode_error :: u32
  q_read :: u16

section \<open>Operations\<close>

definition zero_slot :: txq_slot where
  "zero_slot = \<lparr>sl_timestamp = \<lparr>tv_sec = 0, tv_nsec = 0\<rparr>, sl_vlan_tci = 0, sl_vlan_tpid = 0,
     sl_packet_len = 0, sl_packet = replicate BBL_TXQ_BUFFER_LEN 0\<rparr>"

text \<open>\<open>mem\<close> tells whether the \<open>calloc\<close> succeeds; the structure is zeroed before.\<close>

definition bbl_txq_init :: "bool \<Rightarrow> u16 \<Rightarrow> txq option" where
  "bbl_txq_init mem slots =
     (if \<not> mem then None
      else Some \<lparr>q_ring = replicate (unat slots) zero_slot, q_size = slots, q_write = 0, q_next = 1,
                 q_full = 0, q_encode_error = 0, q_read = 0\<rparr>)"

definition bbl_txq_is_empty :: "txq \<Rightarrow> bool" where
  "bbl_txq_is_empty q \<longleftrightarrow> q_read q = q_write q"

definition bbl_txq_is_full :: "txq \<Rightarrow> bool" where
  "bbl_txq_is_full q \<longleftrightarrow> q_read q = q_next q"

definition bbl_txq_read_slot :: "txq \<Rightarrow> nat option" where
  "bbl_txq_read_slot q = (if q_read q = q_write q then None else Some (unat (q_read q)))"

definition bbl_txq_read_next :: "txq \<Rightarrow> txq" where
  "bbl_txq_read_next q =
     (let r = q_read q + 1 in q\<lparr>q_read := (if r = q_size q then 0 else r)\<rparr>)"

definition bbl_txq_write_slot :: "txq \<Rightarrow> nat option \<times> txq" where
  "bbl_txq_write_slot q =
     (if q_read q = q_next q then (None, q\<lparr>q_full := q_full q + 1\<rparr>)
      else (Some (unat (q_write q)), q))"

definition bbl_txq_write_next :: "txq \<Rightarrow> txq" where
  "bbl_txq_write_next q =
     (let n = q_next q + 1
      in q\<lparr>q_write := q_next q, q_next := (if n = q_size q then 0 else n)\<rparr>)"

text \<open>The result is the number of bytes copied, \<open>buf\<close> afterwards and the queue.\<close>

definition bbl_txq_from_buffer :: "txq \<Rightarrow> u8 list \<Rightarrow> (u16 \<times> u8 list \<times> txq) option" where
  "bbl_txq_from_buffer q buf =
     (if q_read q = q_write q then Some (0, buf, q)
      else do { slot \<leftarrow> ld (q_ring q) (unat (q_read q));
                bytes \<leftarrow> ld_range (sl_packet slot) 0 (unat (sl_packet_len slot));
                buf \<leftarrow> st_range buf 0 bytes;
                let r = q_read q + 1;
                Some (sl_packet_len slot, buf, q\<lparr>q_read := (if r = q_size q then 0 else r)\<rparr>) })"

definition bbl_txq_to_buffer ::
    "('eth \<Rightarrow> u8 list \<Rightarrow> bool \<times> u8 list \<times> u16) \<Rightarrow> 'eth \<Rightarrow> txq \<Rightarrow> (bbl_txq_result \<times> txq) option" where
  "bbl_txq_to_buffer encode_ethernet eth q =
     (if q_read q = q_next q then Some (BBL_TXQ_FULL, q\<lparr>q_full := q_full q + 1\<rparr>)
      else do { slot \<leftarrow> ld (q_ring q) (unat (q_write q));
                let (success, packet, len) = encode_ethernet eth (sl_packet slot);
                ring \<leftarrow> st (q_ring q) (unat (q_write q)) (slot\<lparr>sl_packet := packet, sl_packet_len := len\<rparr>);
                let q = q\<lparr>q_ring := ring\<rparr>;
                if success then
                  let n = q_next q + 1
                  in Some (BBL_TXQ_OK, q\<lparr>q_write := q_next q, q_next := (if n = q_size q then 0 else n)\<rparr>)
                else Some (BBL_TXQ_ENCODE_ERROR, q\<lparr>q_encode_error := q_encode_error q + 1\<rparr>) })"

subsection \<open>Redirection to the main thread\<close>

datatype io_result = IO_SUCCESS | IO_REDIRECT | IO_FULL | IO_ERROR

record io_handle =
  io_timestamp :: timespec
  io_vlan_tci :: u16
  io_vlan_tpid :: u16
  io_buf :: "u8 list"
  io_buf_len :: u16

definition redirect :: "io_handle \<Rightarrow> txq \<Rightarrow> (io_result \<times> txq) option" where
  "redirect io q =
     (if unat (io_buf_len io) > BBL_TXQ_BUFFER_LEN then Some (IO_ERROR, q)
      else case bbl_txq_write_slot q of
        (None, q) \<Rightarrow> Some (IO_FULL, q)
      | (Some i, q) \<Rightarrow>
          do { slot \<leftarrow> ld (q_ring q) i;
               bytes \<leftarrow> ld_range (io_buf io) 0 (unat (io_buf_len io));
               packet \<leftarrow> st_range (sl_packet slot) 0 bytes;
               ring \<leftarrow> st (q_ring q) i
                 \<lparr>sl_timestamp = io_timestamp io, sl_vlan_tci = io_vlan_tci io, sl_vlan_tpid = io_vlan_tpid io,
                  sl_packet_len = io_buf_len io, sl_packet = packet\<rparr>;
               Some (IO_REDIRECT, bbl_txq_write_next (q\<lparr>q_ring := ring\<rparr>)) })"

text \<open>One turn of the loop of \<open>io_thread_main_rx_job\<close> as far as the queue is concerned: the slot
  the job works on, and the queue when it is done with it.\<close>

definition rx_job_take :: "txq \<Rightarrow> (txq_slot option \<times> txq) option" where
  "rx_job_take q =
     (case bbl_txq_read_slot q of
        None \<Rightarrow> Some (None, q)
      | Some i \<Rightarrow> do { slot \<leftarrow> ld (q_ring q) i; Some (Some slot, bbl_txq_read_next q) })"

section \<open>Bounded queues\<close>

text \<open>
  The contract of a bounded queue over an abstraction to lists. Operands \<open>x\<close> that satisfy
  \<open>ok\<close> are stored as \<open>val x\<close>.
\<close>

datatype 'x qop = Enq 'x | Deq

locale bounded_queue =
  fixes inv :: "'q \<Rightarrow> bool"
    and contents :: "'q \<Rightarrow> 'a list"
    and cap :: "'q \<Rightarrow> nat"
    and ok :: "'x \<Rightarrow> bool"
    and val :: "'x \<Rightarrow> 'a"
    and enq :: "'x \<Rightarrow> 'q \<Rightarrow> (bool \<times> 'q) option"
    and deq :: "'q \<Rightarrow> ('a option \<times> 'q) option"
  assumes enq_room: "inv q \<Longrightarrow> ok x \<Longrightarrow> length (contents q) < cap q \<Longrightarrow>
      \<exists>q'. enq x q = Some (True, q') \<and> inv q' \<and> contents q' = contents q @ [val x] \<and> cap q' = cap q"
    and enq_full: "inv q \<Longrightarrow> ok x \<Longrightarrow> \<not> length (contents q) < cap q \<Longrightarrow>
      \<exists>q'. enq x q = Some (False, q') \<and> inv q' \<and> contents q' = contents q \<and> cap q' = cap q"
    and deq_Nil: "inv q \<Longrightarrow> contents q = [] \<Longrightarrow> deq q = Some (None, q)"
    and deq_Cons: "inv q \<Longrightarrow> contents q = y # ys \<Longrightarrow>
      \<exists>q'. deq q = Some (Some y, q') \<and> inv q' \<and> contents q' = ys \<and> cap q' = cap q"
begin

text \<open>A run of operations: what was accepted, what came out, and the final queue.\<close>

fun run_q :: "'x qop list \<Rightarrow> 'q \<Rightarrow> ('a list \<times> 'a list \<times> 'q) option" where
  "run_q [] q = Some ([], [], q)"
| "run_q (Enq x # ops) q =
     do { (acc, q) \<leftarrow> enq x q; (a, out, q) \<leftarrow> run_q ops q; Some (if acc then val x # a else a, out, q) }"
| "run_q (Deq # ops) q =
     do { (y, q) \<leftarrow> deq q; (a, out, q) \<leftarrow> run_q ops q;
          Some (a, case y of None \<Rightarrow> out | Some y \<Rightarrow> y # out, q) }"

lemma run_q_fifo:
  assumes "inv q" "\<And>x. Enq x \<in> set ops \<Longrightarrow> ok x"
  shows "\<exists>a out q'. run_q ops q = Some (a, out, q') \<and> inv q' \<and> cap q' = cap q \<and>
    contents q @ a = out @ contents q'"
  using assms
proof (induction ops q rule: run_q.induct)
  case (2 x ops q)
  obtain acc q1 where q1: "enq x q = Some (acc, q1)" "inv q1" "cap q1 = cap q"
    "contents q1 = contents q @ (if acc then [val x] else [])"
    using enq_room [of q x] enq_full [of q x] "2.prems" by (cases "length (contents q) < cap q") fastforce+
  with "2.IH" [of "(acc, q1)"] "2.prems"(2) show ?case by fastforce
next
  case (3 ops q)
  show ?case
  proof (cases "contents q")
    case Nil
    with "3.IH" [of "(None, q)"] "3.prems" deq_Nil [of q] show ?thesis by fastforce
  next
    case (Cons y ys)
    then obtain q1 where q1: "deq q = Some (Some y, q1)" "inv q1" "contents q1 = ys" "cap q1 = cap q"
      using deq_Cons "3.prems"(1) by blast
    with "3.IH" [of "(Some y, q1)"] "3.prems"(2) Cons show ?thesis by fastforce
  qed
qed simp

end

section \<open>The ring as a list\<close>

definition ring_view :: "'a list \<Rightarrow> nat \<Rightarrow> nat \<Rightarrow> 'a list" where
  "ring_view xs r n = map (\<lambda>i. xs ! ((r + i) mod length xs)) [0..<n]"

definition ring_count :: "nat \<Rightarrow> nat \<Rightarrow> nat \<Rightarrow> nat" where
  "ring_count s r w = (if r \<le> w then w - r else w + s - r)"

lemma length_ring_view [simp]: "length (ring_view xs r n) = n"
  by (simp add: ring_view_def)

lemma ring_view_0 [simp]: "ring_view xs r 0 = []"
  by (simp add: ring_view_def)

lemma ring_view_Cons:
  "r < length xs \<Longrightarrow> ring_view xs r (Suc n) = xs ! r # ring_view xs (Suc r mod length xs) n"
proof (rule nth_equalityI)
  fix i assume r: "r < length xs" and i: "i < length (ring_view xs r (Suc n))"
  then show "ring_view xs r (Suc n) ! i = (xs ! r # ring_view xs (Suc r mod length xs) n) ! i"
    by (cases i) (simp_all add: ring_view_def mod_simps del: upt_Suc)
qed simp

lemma ring_view_snoc:
  assumes "n < length xs"
  shows "ring_view (xs[(r + n) mod length xs := x]) r (Suc n) = ring_view xs r n @ [x]"
proof -
  have "(r + n) mod length xs \<noteq> (r + i) mod length xs" if "i < n" for i
  proof
    assume "(r + n) mod length xs = (r + i) mod length xs"
    then have "(n - i) mod length xs = 0"
      using that by (metis mod_eq_dvd_iff_nat add_diff_cancel_left dvd_imp_mod_0
          less_imp_le nat_add_left_cancel_le)
    with assms that show False by simp
  qed
  moreover have "(r + n) mod length xs < length xs"
    using assms by (cases xs) simp_all
  ultimately show ?thesis
    by (auto simp: ring_view_def)
qed

lemma ring_view_update_other:
  assumes "n < length xs" "i = (r + n) mod length xs"
  shows "ring_view (xs[i := x]) r n = ring_view xs r n"
  using ring_view_snoc [OF assms(1), of r x] assms(2)
  by (simp add: ring_view_def)

lemma ring_count_less: "r < s \<Longrightarrow> w < s \<Longrightarrow> ring_count s r w < s"
  by (auto simp: ring_count_def)

lemma ring_count_pos: "r < s \<Longrightarrow> w < s \<Longrightarrow> ring_count s r w = 0 \<longleftrightarrow> r = w"
  by (auto simp: ring_count_def)

lemma ring_count_write: "r < s \<Longrightarrow> w < s \<Longrightarrow> (r + ring_count s r w) mod s = w"
  by (auto simp: ring_count_def)

lemma ring_count_full: "2 \<le> s \<Longrightarrow> r < s \<Longrightarrow> w < s \<Longrightarrow> Suc (ring_count s r w) < s \<longleftrightarrow> r \<noteq> Suc w mod s"
  by (cases "Suc w = s") (auto simp: ring_count_def)

lemma ring_count_put:
  "r < s \<Longrightarrow> w < s \<Longrightarrow> r \<noteq> Suc w mod s \<Longrightarrow> ring_count s r (Suc w mod s) = Suc (ring_count s r w)"
  by (cases "Suc w = s") (auto simp: ring_count_def)

lemma ring_count_get:
  "r < s \<Longrightarrow> w < s \<Longrightarrow> r \<noteq> w \<Longrightarrow> Suc (ring_count s (Suc r mod s) w) = ring_count s r w"
  by (cases "Suc r = s") (auto simp: ring_count_def)

lemmas ring_count_simps = ring_count_less ring_count_pos ring_count_write ring_count_full
  ring_count_put ring_count_get

section \<open>Refinement\<close>

text \<open>The index behind \<open>i\<close>, with the wrap of \<open>bbl_txq_read_next\<close> and \<open>bbl_txq_write_next\<close>.\<close>

lemma unat_next_idx:
  assumes "unat (i :: u16) < unat s"
  shows "unat (if i + 1 = s then 0 else i + 1) = Suc (unat i) mod unat s"
proof -
  have "Suc (unat i) < 65536"
    using assms unat_u16_less [of s] by simp
  then have i1: "unat (i + 1) = Suc (unat i)"
    by (simp add: unat_word_ariths)
  show ?thesis
  proof (cases "i + 1 = s")
    case True
    with i1 show ?thesis by (metis mod_self unsigned_0)
  next
    case False
    then have "Suc (unat i) \<noteq> unat s"
      using i1 by (metis unsigned_word_eqI)
    with False i1 assms show ?thesis by simp
  qed
qed

definition slot_ok :: "txq_slot \<Rightarrow> bool" where
  "slot_ok s \<longleftrightarrow> length (sl_packet s) = BBL_TXQ_BUFFER_LEN \<and> unat (sl_packet_len s) \<le> BBL_TXQ_BUFFER_LEN"

definition txq_inv :: "txq \<Rightarrow> bool" where
  "txq_inv q \<longleftrightarrow> 2 \<le> unat (q_size q) \<and> length (q_ring q) = unat (q_size q) \<and>
     unat (q_read q) < unat (q_size q) \<and> unat (q_write q) < unat (q_size q) \<and>
     unat (q_next q) = Suc (unat (q_write q)) mod unat (q_size q) \<and> (\<forall>s \<in> set (q_ring q). slot_ok s)"

definition txq_count :: "txq \<Rightarrow> nat" where
  "txq_count q = ring_count (unat (q_size q)) (unat (q_read q)) (unat (q_write q))"

definition txq_slots :: "txq \<Rightarrow> txq_slot list" where
  "txq_slots q = ring_view (q_ring q) (unat (q_read q)) (txq_count q)"

definition txq_cap :: "txq \<Rightarrow> nat" where
  "txq_cap q = unat (q_size q) - 1"

type_synonym frame = "timespec \<times> u16 \<times> u16 \<times> u8 list"

definition slot_frame :: "txq_slot \<Rightarrow> frame" where
  "slot_frame s = (sl_timestamp s, sl_vlan_tci s, sl_vlan_tpid s, take (unat (sl_packet_len s)) (sl_packet s))"

definition io_frame :: "io_handle \<Rightarrow> frame" where
  "io_frame io = (io_timestamp io, io_vlan_tci io, io_vlan_tpid io, take (unat (io_buf_len io)) (io_buf io))"

definition io_ok :: "io_handle \<Rightarrow> bool" where
  "io_ok io \<longleftrightarrow> unat (io_buf_len io) \<le> BBL_TXQ_BUFFER_LEN \<and> unat (io_buf_len io) \<le> length (io_buf io)"

lemma word_neq_unat: "(a :: u16) = b \<longleftrightarrow> unat a = unat b"
  by (metis unsigned_word_eqI)

lemma txq_inv_full: "txq_inv q \<Longrightarrow> q_read q \<noteq> q_next q \<longleftrightarrow> txq_count q < txq_cap q"
  using ring_count_full [of "unat (q_size q)" "unat (q_read q)" "unat (q_write q)"]
  by (auto simp: txq_inv_def word_neq_unat txq_cap_def txq_count_def)

lemma txq_inv_empty: "txq_inv q \<Longrightarrow> q_read q = q_write q \<longleftrightarrow> txq_count q = 0"
  by (auto simp: txq_inv_def word_neq_unat txq_count_def ring_count_pos)

text \<open>Storing a slot at the write index and moving on.\<close>

lemma txq_put:
  assumes "txq_inv q" "q_read q \<noteq> q_next q" "slot_ok s"
  defines "q' \<equiv> bbl_txq_write_next (q\<lparr>q_ring := (q_ring q)[unat (q_write q) := s]\<rparr>)"
  shows "txq_inv q'" "txq_slots q' = txq_slots q @ [s]" "txq_cap q' = txq_cap q"
proof -
  let ?s = "unat (q_size q)" and ?r = "unat (q_read q)" and ?w = "unat (q_write q)"
  have n: "unat (q_next q) < ?s"
    using assms(1) by (simp add: txq_inv_def)
  have w': "unat (q_write q') = Suc ?w mod ?s" "unat (q_next q') = Suc (Suc ?w mod ?s) mod ?s"
    using assms(1) unat_next_idx [OF n]
    by (simp_all add: q'_def bbl_txq_write_next_def Let_def txq_inv_def)
  have rest: "q_ring q' = (q_ring q)[?w := s]" "q_size q' = q_size q" "q_read q' = q_read q"
    by (simp_all add: q'_def bbl_txq_write_next_def Let_def)
  show "txq_inv q'"
    using assms(1,3) w' rest by (auto simp: txq_inv_def dest: set_update_subset_insert [THEN subsetD])
  show "txq_cap q' = txq_cap q"
    by (simp add: txq_cap_def rest)
  have c: "txq_count q' = Suc (txq_count q)"
    using assms(1,2) w' rest by (simp add: txq_count_def txq_inv_def word_neq_unat ring_count_put)
  have "(?r + txq_count q) mod length (q_ring q) = ?w" "txq_count q < length (q_ring q)"
    using assms(1) by (auto simp: txq_inv_def txq_count_def ring_count_write ring_count_less)
  then show "txq_slots q' = txq_slots q @ [s]"
    using ring_view_snoc [of "txq_count q" "q_ring q" ?r s] by (simp add: txq_slots_def c rest)
qed

lemma txq_get:
  assumes "txq_inv q" "q_read q \<noteq> q_write q"
  defines "q' \<equiv> bbl_txq_read_next q"
  shows "txq_inv q'" "txq_slots q = q_ring q ! unat (q_read q) # txq_slots q'" "txq_cap q' = txq_cap q"
proof -
  let ?s = "unat (q_size q)" and ?r = "unat (q_read q)" and ?w = "unat (q_write q)"
  have r': "unat (q_read q') = Suc ?r mod ?s"
    using assms(1) unat_next_idx [of "q_read q" "q_size q"]
    by (simp add: q'_def bbl_txq_read_next_def Let_def txq_inv_def)
  have rest: "q_ring q' = q_ring q" "q_size q' = q_size q" "q_write q' = q_write q" "q_next q' = q_next q"
    by (simp_all add: q'_def bbl_txq_read_next_def Let_def)
  show "txq_inv q'"
    using assms(1) r' rest by (simp add: txq_inv_def)
  show "txq_cap q' = txq_cap q"
    by (simp add: txq_cap_def rest)
  have c: "txq_count q = Suc (txq_count q')"
    using assms(1,2) r' rest by (simp add: txq_count_def txq_inv_def word_neq_unat ring_count_get)
  then show "txq_slots q = q_ring q ! ?r # txq_slots q'"
    using assms(1) ring_view_Cons [of ?r "q_ring q" "txq_count q'"]
    by (simp add: txq_slots_def txq_inv_def rest r')
qed

lemma redirect_room:
  assumes "txq_inv q" "io_ok io" "q_read q \<noteq> q_next q"
  shows "\<exists>s. slot_ok s \<and> slot_frame s = io_frame io \<and>
    redirect io q = Some (IO_REDIRECT, bbl_txq_write_next (q\<lparr>q_ring := (q_ring q)[unat (q_write q) := s]\<rparr>))"
proof -
  let ?w = "unat (q_write q)" and ?n = "unat (io_buf_len io)"
  let ?s = "\<lparr>sl_timestamp = io_timestamp io, sl_vlan_tci = io_vlan_tci io, sl_vlan_tpid = io_vlan_tpid io,
    sl_packet_len = io_buf_len io, sl_packet = take ?n (io_buf io) @ drop ?n (sl_packet (q_ring q ! ?w))\<rparr>"
  have w: "?w < length (q_ring q)" and len: "length (sl_packet (q_ring q ! ?w)) = BBL_TXQ_BUFFER_LEN"
    using assms(1) by (auto simp: txq_inv_def slot_ok_def)
  then have "slot_ok ?s" "slot_frame ?s = io_frame io"
    using assms(2) by (auto simp: slot_ok_def io_ok_def slot_frame_def io_frame_def)
  moreover have "redirect io q = Some (IO_REDIRECT, bbl_txq_write_next (q\<lparr>q_ring := (q_ring q)[?w := ?s]\<rparr>))"
    using assms(2,3) w len by (simp add: redirect_def bbl_txq_write_slot_def io_ok_def mem_simps)
  ultimately show ?thesis by blast
qed

lemma redirect_full:
  assumes "io_ok io" "q_read q = q_next q"
  shows "redirect io q = Some (IO_FULL, q\<lparr>q_full := q_full q + 1\<rparr>)"
  using assms by (simp add: redirect_def bbl_txq_write_slot_def io_ok_def)

definition redirect_enq :: "io_handle \<Rightarrow> txq \<Rightarrow> (bool \<times> txq) option" where
  "redirect_enq io q = do { (res, q) \<leftarrow> redirect io q; Some (res = IO_REDIRECT, q) }"

definition rx_deq :: "txq \<Rightarrow> (frame option \<times> txq) option" where
  "rx_deq q = do { (s, q) \<leftarrow> rx_job_take q; Some (map_option slot_frame s, q) }"

definition txq_frames :: "txq \<Rightarrow> frame list" where
  "txq_frames q = map slot_frame (txq_slots q)"

lemma length_txq_frames [simp]: "length (txq_frames q) = txq_count q"
  by (simp add: txq_frames_def txq_slots_def)

interpretation thread_q: bounded_queue txq_inv txq_frames txq_cap io_ok io_frame redirect_enq rx_deq
proof unfold_locales
  fix q io assume *: "txq_inv q" "io_ok io" "length (txq_frames q) < txq_cap q"
  then have "q_read q \<noteq> q_next q"
    using txq_inv_full [of q] by simp
  with * redirect_room [of q io] txq_put [of q]
  show "\<exists>q'. redirect_enq io q = Some (True, q') \<and> txq_inv q' \<and>
      txq_frames q' = txq_frames q @ [io_frame io] \<and> txq_cap q' = txq_cap q"
    by (auto simp: redirect_enq_def txq_frames_def)
next
  fix q io assume *: "txq_inv q" "io_ok io" "\<not> length (txq_frames q) < txq_cap q"
  then have "redirect io q = Some (IO_FULL, q\<lparr>q_full := q_full q + 1\<rparr>)"
    using txq_inv_full [of q] by (intro redirect_full) auto
  with * show "\<exists>q'. redirect_enq io q = Some (False, q') \<and> txq_inv q' \<and>
      txq_frames q' = txq_frames q \<and> txq_cap q' = txq_cap q"
    by (simp add: redirect_enq_def txq_inv_def txq_frames_def txq_slots_def txq_count_def txq_cap_def)
next
  fix q assume *: "txq_inv q" "txq_frames q = []"
  then have "txq_count q = 0" by (metis length_txq_frames list.size(3))
  with * show "rx_deq q = Some (None, q)"
    using txq_inv_empty [of q] by (simp add: rx_deq_def rx_job_take_def bbl_txq_read_slot_def)
next
  fix q y ys assume *: "txq_inv q" "txq_frames q = y # ys"
  then have ne: "q_read q \<noteq> q_write q"
    using txq_inv_empty [of q] by (metis length_txq_frames length_greater_0_conv list.distinct(1) less_numeral_extra(3))
  moreover have "ld (q_ring q) (unat (q_read q)) = Some (q_ring q ! unat (q_read q))"
    using *(1) by (simp add: ld_def txq_inv_def)
  ultimately show "\<exists>q'. rx_deq q = Some (Some y, q') \<and> txq_inv q' \<and> txq_frames q' = ys \<and> txq_cap q' = txq_cap q"
    using * txq_get [OF *(1) ne]
    by (simp add: rx_deq_def rx_job_take_def bbl_txq_read_slot_def txq_frames_def)
qed

text \<open>The main thread's operations, for an encoder that writes into the slot's bytes.\<close>

definition encoder_ok :: "('eth \<Rightarrow> u8 list \<Rightarrow> bool \<times> u8 list \<times> u16) \<Rightarrow> bool" where
  "encoder_ok enc \<longleftrightarrow> (\<forall>eth buf res buf' len. enc eth buf = (res, buf', len) \<longrightarrow>
     length buf' = length buf \<and> unat len \<le> length buf)"

lemma to_buffer_cases:
  assumes "txq_inv q" "encoder_ok enc"
  defines "slot \<equiv> q_ring q ! unat (q_write q)"
  shows "bbl_txq_to_buffer enc eth q =
    (if q_read q = q_next q then Some (BBL_TXQ_FULL, q\<lparr>q_full := q_full q + 1\<rparr>)
     else case enc eth (sl_packet slot) of (success, packet, len) \<Rightarrow>
       let q' = q\<lparr>q_ring := (q_ring q)[unat (q_write q) := slot\<lparr>sl_packet := packet, sl_packet_len := len\<rparr>]\<rparr>
       in if success then Some (BBL_TXQ_OK, bbl_txq_write_next q')
          else Some (BBL_TXQ_ENCODE_ERROR, q'\<lparr>q_encode_error := q_encode_error q + 1\<rparr>))"
proof -
  have "unat (q_write q) < length (q_ring q)"
    using assms(1) by (simp add: txq_inv_def)
  then show ?thesis
    by (auto simp: bbl_txq_to_buffer_def mem_simps slot_def Let_def bbl_txq_write_next_def split: prod.splits)
qed

lemma encoded_slot_ok:
  assumes "encoder_ok enc" "slot_ok slot" "enc eth (sl_packet slot) = (success, packet, len)"
  shows "slot_ok (slot\<lparr>sl_packet := packet, sl_packet_len := len\<rparr>)"
  using assms unfolding encoder_ok_def slot_ok_def by fastforce

lemma from_buffer_cases:
  assumes "txq_inv q" "BBL_TXQ_BUFFER_LEN \<le> length buf"
  defines "slot \<equiv> q_ring q ! unat (q_read q)"
  shows "bbl_txq_from_buffer q buf =
    (if q_read q = q_write q then Some (0, buf, q)
     else Some (sl_packet_len slot, take (unat (sl_packet_len slot)) (sl_packet slot) @ drop (unat (sl_packet_len slot)) buf,
                bbl_txq_read_next q))"
proof -
  have "unat (q_read q) < length (q_ring q)" "slot_ok slot"
    using assms(1) by (auto simp: txq_inv_def slot_def)
  then show ?thesis
    using assms(2)
    by (auto simp: bbl_txq_from_buffer_def mem_simps slot_ok_def bbl_txq_read_next_def Let_def simp flip: slot_def)
qed

section \<open>Producer and consumer in two threads\<close>

text \<open>
  The indices are atomics, so the two threads interleave between the single reads and writes
  of them. \<open>p_step s\<close> is the next statement of a producer that calls \<open>bbl_txq_write_slot\<close>,
  fills the slot with \<open>s\<close> and calls \<open>bbl_txq_write_next\<close>; \<open>c_step\<close> that of a consumer that
  calls \<open>bbl_txq_read_slot\<close>, uses the slot and calls \<open>bbl_txq_read_next\<close>. \<open>cn_sent\<close> and
  \<open>cn_rcvd\<close> record what was published and used; \<open>cn_raced\<close> records whether the producer ever
  tested for a full queue while the consumer's index had its transient value \<open>size\<close>, between
  \<open>txq->read++\<close> and \<open>txq->read = 0\<close>.
\<close>

datatype ppc = P_idle | P_fill nat | P_next | P_write u16 | P_wrap

datatype cpc = C_idle | C_use nat | C_inc | C_wrap

record txq_conc =
  cn_q :: txq
  cn_p :: ppc
  cn_c :: cpc
  cn_sent :: "txq_slot list"
  cn_rcvd :: "txq_slot list"
  cn_raced :: bool

definition p_step :: "txq_slot \<Rightarrow> txq_conc \<Rightarrow> txq_conc" where
  "p_step s c =
     (let q = cn_q c in
      case cn_p c of
        P_idle \<Rightarrow>
          (case bbl_txq_write_slot q of
             (None, q) \<Rightarrow> c\<lparr>cn_q := q\<rparr>
           | (Some i, _) \<Rightarrow> c\<lparr>cn_p := P_fill i, cn_raced := cn_raced c \<or> q_read q = q_size q\<rparr>)
      | P_fill i \<Rightarrow> c\<lparr>cn_q := q\<lparr>q_ring := (q_ring q)[i := s]\<rparr>, cn_p := P_next\<rparr>
      | P_next \<Rightarrow> c\<lparr>cn_q := q\<lparr>q_next := q_next q + 1\<rparr>, cn_p := P_write (q_next q)\<rparr>
      | P_write v \<Rightarrow> c\<lparr>cn_q := q\<lparr>q_write := v\<rparr>, cn_p := P_wrap,
                      cn_sent := cn_sent c @ [q_ring q ! unat (q_write q)]\<rparr>
      | P_wrap \<Rightarrow> c\<lparr>cn_q := (if q_next q = q_size q then q\<lparr>q_next := 0\<rparr> else q), cn_p := P_idle\<rparr>)"

definition c_step :: "txq_conc \<Rightarrow> txq_conc" where
  "c_step c =
     (let q = cn_q c in
      case cn_c c of
        C_idle \<Rightarrow> (case bbl_txq_read_slot q of None \<Rightarrow> c | Some i \<Rightarrow> c\<lparr>cn_c := C_use i\<rparr>)
      | C_use i \<Rightarrow> c\<lparr>cn_rcvd := cn_rcvd c @ [q_ring q ! i], cn_c := C_inc\<rparr>
      | C_inc \<Rightarrow> c\<lparr>cn_q := q\<lparr>q_read := q_read q + 1\<rparr>, cn_c := C_wrap\<rparr>
      | C_wrap \<Rightarrow> c\<lparr>cn_q := (if q_read q = q_size q then q\<lparr>q_read := 0\<rparr> else q), cn_c := C_idle\<rparr>)"

datatype act = P txq_slot | C

fun run_acts :: "act list \<Rightarrow> txq_conc \<Rightarrow> txq_conc" where
  "run_acts [] c = c"
| "run_acts (P s # as) c = run_acts as (p_step s c)"
| "run_acts (C # as) c = run_acts as (c_step c)"

definition conc_init :: "u16 \<Rightarrow> txq_conc" where
  "conc_init slots = \<lparr>cn_q = the (bbl_txq_init True slots), cn_p = P_idle, cn_c = C_idle, cn_sent = [],
     cn_rcvd = [], cn_raced = False\<rparr>"

definition eff_read :: "txq_conc \<Rightarrow> nat" where
  "eff_read c = unat (q_read (cn_q c)) mod unat (q_size (cn_q c))"

definition eff_count :: "txq_conc \<Rightarrow> nat" where
  "eff_count c = ring_count (unat (q_size (cn_q c))) (eff_read c) (unat (q_write (cn_q c)))"

definition conc_idx_inv :: "txq_conc \<Rightarrow> bool" where
  "conc_idx_inv c \<longleftrightarrow> (let q = cn_q c; s = unat (q_size q) in
     2 \<le> s \<and> length (q_ring q) = s \<and> unat (q_write q) < s \<and> unat (q_read q) \<le> s \<and>
     (cn_c c \<noteq> C_wrap \<longrightarrow> unat (q_read q) < s))"

text \<open>Size, write index, next index and number of used slots at each statement of the producer.\<close>

fun p_ok :: "ppc \<Rightarrow> nat \<Rightarrow> nat \<Rightarrow> nat \<Rightarrow> nat \<Rightarrow> bool" where
  "p_ok P_idle s w nx n \<longleftrightarrow> nx = Suc w mod s"
| "p_ok (P_fill i) s w nx n \<longleftrightarrow> nx = Suc w mod s \<and> i = w \<and> Suc n < s"
| "p_ok P_next s w nx n \<longleftrightarrow> nx = Suc w mod s \<and> Suc n < s"
| "p_ok (P_write v) s w nx n \<longleftrightarrow> unat v = Suc w mod s \<and> nx = Suc (unat v) \<and> Suc n < s"
| "p_ok P_wrap s w nx n \<longleftrightarrow> nx = Suc w"

fun c_ok :: "cpc \<Rightarrow> nat \<Rightarrow> nat \<Rightarrow> bool" where
  "c_ok C_idle r n \<longleftrightarrow> True"
| "c_ok (C_use i) r n \<longleftrightarrow> i = r \<and> n \<noteq> 0"
| "c_ok C_inc r n \<longleftrightarrow> n \<noteq> 0"
| "c_ok C_wrap r n \<longleftrightarrow> True"

definition conc_p_inv :: "txq_conc \<Rightarrow> bool" where
  "conc_p_inv c \<longleftrightarrow> p_ok (cn_p c) (unat (q_size (cn_q c))) (unat (q_write (cn_q c))) (unat (q_next (cn_q c))) (eff_count c)"

definition conc_c_inv :: "txq_conc \<Rightarrow> bool" where
  "conc_c_inv c \<longleftrightarrow> c_ok (cn_c c) (eff_read c) (eff_count c)"

lemma p_ok_fewer: "p_ok p s w nx (Suc n) \<Longrightarrow> p_ok p s w nx n"
  by (cases p) simp_all

lemma c_ok_more: "c_ok p r n \<Longrightarrow> c_ok p r (Suc n)"
  by (cases p) simp_all

definition conc_data_inv :: "txq_conc \<Rightarrow> bool" where
  "conc_data_inv c \<longleftrightarrow> cn_sent c =
     (if cn_c c = C_inc then butlast (cn_rcvd c) else cn_rcvd c) @ ring_view (q_ring (cn_q c)) (eff_read c) (eff_count c) \<and>
     (cn_c c = C_inc \<longrightarrow> cn_rcvd c \<noteq> [] \<and> last (cn_rcvd c) = q_ring (cn_q c) ! eff_read c)"

definition conc_inv :: "txq_conc \<Rightarrow> bool" where
  "conc_inv c \<longleftrightarrow> conc_idx_inv c \<and> conc_p_inv c \<and> conc_c_inv c \<and> conc_data_inv c"

lemma eff_read_less: "conc_idx_inv c \<Longrightarrow> eff_read c < unat (q_size (cn_q c))"
  by (simp add: conc_idx_inv_def eff_read_def Let_def)

lemma eff_read_id: "conc_idx_inv c \<Longrightarrow> cn_c c \<noteq> C_wrap \<Longrightarrow> eff_read c = unat (q_read (cn_q c))"
  by (simp add: conc_idx_inv_def eff_read_def Let_def)

lemma eff_count_less: "conc_idx_inv c \<Longrightarrow> eff_count c < unat (q_size (cn_q c))"
  using eff_read_less [of c] by (simp add: eff_count_def ring_count_less conc_idx_inv_def Let_def)

lemma eff_write: "conc_idx_inv c \<Longrightarrow> (eff_read c + eff_count c) mod unat (q_size (cn_q c)) = unat (q_write (cn_q c))"
  using eff_read_less [of c] by (simp add: eff_count_def ring_count_write conc_idx_inv_def Let_def)

lemma eff_cong:
  assumes "q_size (cn_q c') = q_size (cn_q c)" "q_write (cn_q c') = q_write (cn_q c)"
    "unat (q_read (cn_q c')) mod unat (q_size (cn_q c)) = unat (q_read (cn_q c)) mod unat (q_size (cn_q c))"
  shows "eff_read c' = eff_read c" "eff_count c' = eff_count c"
  using assms by (simp_all add: eff_read_def eff_count_def)

text \<open>Steps of the producer that leave everything to the consumer's view as it was.\<close>

lemma p_frame_inv:
  assumes "conc_inv c" "q_size (cn_q c') = q_size (cn_q c)" "q_write (cn_q c') = q_write (cn_q c)"
    "q_read (cn_q c') = q_read (cn_q c)" "q_ring (cn_q c') = q_ring (cn_q c)" "cn_c c' = cn_c c"
    "cn_sent c' = cn_sent c" "cn_rcvd c' = cn_rcvd c" "conc_p_inv c'"
  shows "conc_inv c'"
  using assms eff_cong [of c' c]
  by (simp add: conc_inv_def conc_idx_inv_def conc_c_inv_def conc_data_inv_def Let_def)

text \<open>The invariant is kept by every statement of the producer but a racing full test.\<close>

lemma p_idle_inv:
  assumes "conc_inv c" "cn_p c = P_idle" "\<not> cn_raced (p_step s c)"
  shows "conc_inv (p_step s c)"
proof (cases "q_read (cn_q c) = q_next (cn_q c)")
  case True
  with assms(1,2) show ?thesis
    by (intro p_frame_inv [OF assms(1)])
      (simp_all add: p_step_def bbl_txq_write_slot_def Let_def conc_inv_def conc_p_inv_def)
next
  case False
  let ?q = "cn_q c"
  have idx: "conc_idx_inv c" and nx: "unat (q_next ?q) = Suc (unat (q_write ?q)) mod unat (q_size ?q)"
    using assms(1,2) by (simp_all add: conc_inv_def conc_p_inv_def Let_def)
  have "q_read ?q \<noteq> q_size ?q"
    using assms(2,3) False by (simp add: p_step_def bbl_txq_write_slot_def Let_def)
  then have r: "unat (q_read ?q) < unat (q_size ?q)"
    using idx by (simp add: conc_idx_inv_def Let_def word_neq_unat)
  then have "Suc (eff_count c) < unat (q_size ?q)"
    using False idx nx ring_count_full [of "unat (q_size ?q)" "unat (q_read ?q)" "unat (q_write ?q)"]
    by (simp add: word_neq_unat eff_count_def eff_read_def conc_idx_inv_def Let_def)
  with assms(2) False nx show ?thesis
    by (intro p_frame_inv [OF assms(1)])
      (simp_all add: p_step_def bbl_txq_write_slot_def Let_def conc_p_inv_def eff_count_def eff_read_def)
qed

lemma p_fill_inv:
  assumes "conc_inv c" "cn_p c = P_fill i"
  shows "conc_inv (p_step s c)"
proof -
  let ?q = "cn_q c"
  have idx: "conc_idx_inv c" and i: "i = unat (q_write ?q)"
    using assms by (simp_all add: conc_inv_def conc_p_inv_def Let_def)
  have len: "length (q_ring ?q) = unat (q_size ?q)"
    using idx by (simp add: conc_idx_inv_def Let_def)
  have view: "ring_view ((q_ring ?q)[i := s]) (eff_read c) (eff_count c) = ring_view (q_ring ?q) (eff_read c) (eff_count c)"
    using eff_write [OF idx] eff_count_less [OF idx] by (intro ring_view_update_other) (simp_all add: i len)
  have "eff_read c = i \<Longrightarrow> eff_count c = 0"
    by (simp add: eff_count_def ring_count_def i)
  then have head: "(q_ring ?q)[i := s] ! eff_read c = q_ring ?q ! eff_read c" if "eff_count c \<noteq> 0"
    using that by (intro nth_list_update_neq) auto
  let ?c = "p_step s c"
  have c: "cn_q ?c = ?q\<lparr>q_ring := (q_ring ?q)[i := s]\<rparr>" "cn_p ?c = P_next" "cn_c ?c = cn_c c"
    "cn_rcvd ?c = cn_rcvd c" "cn_sent ?c = cn_sent c"
    using assms(2) by (simp_all add: p_step_def Let_def)
  have e: "eff_read ?c = eff_read c" "eff_count ?c = eff_count c"
    using eff_cong [of ?c c] by (simp_all add: c)
  show ?thesis
    using assms view head
    by (auto simp: conc_inv_def conc_idx_inv_def conc_p_inv_def conc_c_inv_def conc_data_inv_def c e Let_def)
qed

lemma p_next_inv:
  assumes "conc_inv c" "cn_p c = P_next"
  shows "conc_inv (p_step s c)"
proof -
  let ?q = "cn_q c"
  have "unat (q_next ?q) < unat (q_size ?q)"
    using assms by (auto simp: conc_inv_def conc_p_inv_def conc_idx_inv_def Let_def)
  then have "unat (q_next ?q + 1) = Suc (unat (q_next ?q))"
    using unat_u16_less [of "q_size ?q"] by (simp add: unat_word_ariths)
  with assms(2) show ?thesis
    using assms(1) by (intro p_frame_inv [OF assms(1)])
      (simp_all add: p_step_def Let_def conc_inv_def conc_p_inv_def eff_count_def eff_read_def)
qed

lemma p_write_inv:
  assumes "conc_inv c" "cn_p c = P_write v"
  shows "conc_inv (p_step s c)"
proof -
  let ?q = "cn_q c"
  let ?s = "unat (q_size ?q)" and ?w = "unat (q_write ?q)"
  have idx: "conc_idx_inv c" and v: "unat v = Suc ?w mod ?s" "Suc (eff_count c) < ?s"
    using assms by (simp_all add: conc_inv_def conc_p_inv_def Let_def)
  have len: "length (q_ring ?q) = ?s" and w: "?w < ?s" and s2: "2 \<le> ?s"
    using idx by (simp_all add: conc_idx_inv_def Let_def)
  have r: "eff_read c \<noteq> Suc ?w mod ?s"
    using v(2) ring_count_full [OF s2 eff_read_less [OF idx] w] by (simp add: eff_count_def)
  have cnt: "ring_count ?s (eff_read c) (Suc ?w mod ?s) = Suc (eff_count c)"
    using ring_count_put [OF eff_read_less [OF idx] w r] by (simp add: eff_count_def)
  have view: "ring_view (q_ring ?q) (eff_read c) (Suc (eff_count c)) =
      ring_view (q_ring ?q) (eff_read c) (eff_count c) @ [q_ring ?q ! ?w]"
    using ring_view_snoc [of "eff_count c" "q_ring ?q" "eff_read c" "q_ring ?q ! ?w"]
      eff_write [OF idx] eff_count_less [OF idx] by (simp add: len)
  let ?c = "p_step s c"
  have c: "cn_q ?c = ?q\<lparr>q_write := v\<rparr>" "cn_p ?c = P_wrap" "cn_c ?c = cn_c c" "cn_rcvd ?c = cn_rcvd c"
    "cn_sent ?c = cn_sent c @ [q_ring ?q ! ?w]"
    using assms(2) by (simp_all add: p_step_def Let_def)
  have e: "eff_read ?c = eff_read c" "eff_count ?c = Suc (eff_count c)"
    using cnt by (simp_all add: eff_read_def eff_count_def c v(1))
  show ?thesis
    using assms v(1) view w
    by (auto simp: conc_inv_def conc_idx_inv_def conc_p_inv_def conc_c_inv_def conc_data_inv_def c e Let_def c_ok_more)
qed

lemma p_wrap_inv:
  assumes "conc_inv c" "cn_p c = P_wrap"
  shows "conc_inv (p_step s c)"
proof -
  let ?q = "cn_q c"
  have nx: "unat (q_next ?q) = Suc (unat (q_write ?q))" "unat (q_write ?q) < unat (q_size ?q)"
    using assms by (simp_all add: conc_inv_def conc_p_inv_def conc_idx_inv_def Let_def)
  then have "unat (if q_next ?q = q_size ?q then 0 else q_next ?q) = Suc (unat (q_write ?q)) mod unat (q_size ?q)"
    by (auto simp: word_neq_unat)
  with assms(2) show ?thesis
    by (intro p_frame_inv [OF assms(1)]) (simp_all add: p_step_def Let_def conc_p_inv_def split: if_splits)
qed

lemma p_step_inv:
  assumes "conc_inv c" "\<not> cn_raced (p_step s c)"
  shows "conc_inv (p_step s c)"
  using assms p_idle_inv p_fill_inv p_next_inv p_write_inv p_wrap_inv by (cases "cn_p c") blast+

lemma p_step_raced: "cn_raced c \<Longrightarrow> cn_raced (p_step s c)"
  by (simp add: p_step_def bbl_txq_write_slot_def Let_def split: ppc.splits)

text \<open>The consumer's statements keep it.\<close>

lemma c_use_inv:
  assumes "conc_inv c" "cn_c c = C_use i"
  shows "conc_inv (c_step c)"
proof -
  let ?c = "c_step c"
  have c: "cn_q ?c = cn_q c" "cn_p ?c = cn_p c" "cn_c ?c = C_inc" "cn_sent ?c = cn_sent c"
    "cn_rcvd ?c = cn_rcvd c @ [q_ring (cn_q c) ! i]"
    using assms(2) by (simp_all add: c_step_def Let_def)
  have e: "eff_read ?c = eff_read c" "eff_count ?c = eff_count c"
    using eff_cong [of ?c c] by (simp_all add: c)
  show ?thesis
    using assms by (simp add: conc_inv_def conc_idx_inv_def conc_p_inv_def conc_c_inv_def conc_data_inv_def c e Let_def)
qed

lemma c_inc_inv:
  assumes "conc_inv c" "cn_c c = C_inc"
  shows "conc_inv (c_step c)"
proof -
  let ?q = "cn_q c"
  let ?s = "unat (q_size ?q)" and ?w = "unat (q_write ?q)"
  have idx: "conc_idx_inv c" and n: "eff_count c \<noteq> 0"
    using assms by (simp_all add: conc_inv_def conc_c_inv_def)
  have r: "eff_read c = unat (q_read ?q)" "unat (q_read ?q) < ?s" and w: "?w < ?s"
    and len: "length (q_ring ?q) = ?s"
    using idx assms(2) by (simp_all add: conc_idx_inv_def eff_read_def Let_def)
  have r1: "unat (q_read ?q + 1) = Suc (unat (q_read ?q))"
    using r(2) unat_u16_less [of "q_size ?q"] by (simp add: unat_word_ariths)
  let ?c = "c_step c"
  have c: "cn_q ?c = ?q\<lparr>q_read := q_read ?q + 1\<rparr>" "cn_p ?c = cn_p c" "cn_c ?c = C_wrap"
    "cn_rcvd ?c = cn_rcvd c" "cn_sent ?c = cn_sent c"
    using assms(2) by (simp_all add: c_step_def Let_def)
  have er: "eff_read ?c = Suc (eff_read c) mod ?s"
    by (simp add: eff_read_def c r1 mod_Suc_eq)
  have ec: "eff_count c = Suc (eff_count ?c)"
    using n ring_count_get [of "eff_read c" ?s ?w] ring_count_pos [of "eff_read c" ?s ?w] r w
    by (simp add: eff_count_def er c)
  have view: "ring_view (q_ring ?q) (eff_read c) (eff_count c) =
      q_ring ?q ! eff_read c # ring_view (q_ring ?q) (eff_read ?c) (eff_count ?c)"
    using ring_view_Cons [of "eff_read c" "q_ring ?q" "eff_count ?c"] r by (simp add: ec er len)
  have "conc_data_inv ?c"
    using assms view append_butlast_last_id [of "cn_rcvd c"]
    by (auto simp: conc_inv_def conc_data_inv_def c)
  moreover have "conc_idx_inv ?c"
    using idx r by (simp add: conc_idx_inv_def c r1 Let_def)
  moreover have "conc_p_inv ?c"
    using assms(1) ec p_ok_fewer by (simp add: conc_inv_def conc_p_inv_def c)
  ultimately show ?thesis
    by (simp add: conc_inv_def conc_c_inv_def c)
qed

lemma c_wrap_inv:
  assumes "conc_inv c" "cn_c c = C_wrap"
  shows "conc_inv (c_step c)"
proof -
  let ?q = "cn_q c"
  let ?r = "if q_read ?q = q_size ?q then 0 else q_read ?q"
  have "unat (q_read ?q) \<le> unat (q_size ?q)" "2 \<le> unat (q_size ?q)"
    using assms(1) by (simp_all add: conc_inv_def conc_idx_inv_def Let_def)
  then have r: "unat ?r < unat (q_size ?q)" "unat ?r mod unat (q_size ?q) = unat (q_read ?q) mod unat (q_size ?q)"
    by (auto simp: word_neq_unat)
  let ?c = "c_step c"
  have c: "cn_q ?c = ?q\<lparr>q_read := ?r\<rparr>" "cn_p ?c = cn_p c" "cn_c ?c = C_idle" "cn_sent ?c = cn_sent c"
    "cn_rcvd ?c = cn_rcvd c"
    using assms(2) by (simp_all add: c_step_def Let_def)
  have e: "eff_read ?c = eff_read c" "eff_count ?c = eff_count c"
    using eff_cong [of ?c c] r(2) by (simp_all add: c)
  show ?thesis
    using assms r(1)
    by (simp add: conc_inv_def conc_idx_inv_def conc_p_inv_def conc_c_inv_def conc_data_inv_def c e Let_def)
qed

lemma c_idle_inv:
  assumes "conc_inv c" "cn_c c = C_idle"
  shows "conc_inv (c_step c)"
proof (cases "q_read (cn_q c) = q_write (cn_q c)")
  case True
  with assms show ?thesis by (simp add: c_step_def bbl_txq_read_slot_def Let_def)
next
  case False
  let ?q = "cn_q c" and ?c = "c_step c"
  have idx: "conc_idx_inv c" using assms(1) by (simp add: conc_inv_def)
  have r: "eff_read c = unat (q_read ?q)"
    using eff_read_id [OF idx] assms(2) by simp
  then have n: "eff_count c \<noteq> 0"
    using False idx eff_read_less [OF idx] ring_count_pos [of "eff_read c" "unat (q_size ?q)" "unat (q_write ?q)"]
    by (simp add: eff_count_def conc_idx_inv_def Let_def word_neq_unat)
  have c: "cn_q ?c = ?q" "cn_p ?c = cn_p c" "cn_c ?c = C_use (unat (q_read ?q))" "cn_sent ?c = cn_sent c"
    "cn_rcvd ?c = cn_rcvd c"
    using assms(2) False by (simp_all add: c_step_def bbl_txq_read_slot_def Let_def)
  have e: "eff_read ?c = eff_read c" "eff_count ?c = eff_count c"
    using eff_cong [of ?c c] by (simp_all add: c)
  show ?thesis
    using assms n r
    by (simp add: conc_inv_def conc_idx_inv_def conc_p_inv_def conc_c_inv_def conc_data_inv_def c e Let_def)
qed

lemma c_step_inv: "conc_inv c \<Longrightarrow> conc_inv (c_step c)"
  using c_idle_inv c_use_inv c_inc_inv c_wrap_inv by (cases "cn_c c") blast+

lemma c_step_raced [simp]: "cn_raced (c_step c) = cn_raced c"
  by (simp add: c_step_def Let_def split: cpc.splits option.splits)

lemma run_acts_raced: "cn_raced c \<Longrightarrow> cn_raced (run_acts as c)"
  by (induction as c rule: run_acts.induct) (simp_all add: p_step_raced)

lemma run_acts_inv: "conc_inv c \<Longrightarrow> \<not> cn_raced (run_acts as c) \<Longrightarrow> conc_inv (run_acts as c)"
  by (induction as c rule: run_acts.induct) (auto simp: c_step_inv dest: run_acts_raced intro: p_step_inv)

lemma conc_init_inv: "2 \<le> unat slots \<Longrightarrow> conc_inv (conc_init slots)"
  by (simp add: conc_inv_def conc_init_def bbl_txq_init_def conc_idx_inv_def conc_p_inv_def conc_c_inv_def
      conc_data_inv_def eff_count_def eff_read_def Let_def ring_count_def)

lemma conc_inv_prefix:
  assumes "conc_inv c"
  shows "prefix (cn_rcvd c) (cn_sent c) \<and>
    (cn_c c = C_idle \<and> bbl_txq_is_empty (cn_q c) \<longrightarrow> cn_rcvd c = cn_sent c)"
proof (intro conjI impI)
  have data: "conc_data_inv c" and idx: "conc_idx_inv c" and ci: "conc_c_inv c"
    using assms by (simp_all add: conc_inv_def)
  show "prefix (cn_rcvd c) (cn_sent c)"
  proof (cases "cn_c c = C_inc")
    case True
    then obtain n where n: "eff_count c = Suc n"
      using ci by (cases "eff_count c") (auto simp: conc_c_inv_def)
    have "length (q_ring (cn_q c)) = unat (q_size (cn_q c))"
      using idx by (simp add: conc_idx_inv_def Let_def)
    then have "ring_view (q_ring (cn_q c)) (eff_read c) (eff_count c) = q_ring (cn_q c) ! eff_read c #
        ring_view (q_ring (cn_q c)) (Suc (eff_read c) mod unat (q_size (cn_q c))) n"
      using eff_read_less [OF idx] by (simp add: n ring_view_Cons)
    then have "cn_sent c = (butlast (cn_rcvd c) @ [last (cn_rcvd c)]) @
        ring_view (q_ring (cn_q c)) (Suc (eff_read c) mod unat (q_size (cn_q c))) n" "cn_rcvd c \<noteq> []"
      using data True by (simp_all add: conc_data_inv_def)
    then show ?thesis
      by (metis append_butlast_last_id prefixI)
  next
    case False
    with data show ?thesis by (simp add: conc_data_inv_def prefixI)
  qed
  assume "cn_c c = C_idle \<and> bbl_txq_is_empty (cn_q c)"
  then show "cn_rcvd c = cn_sent c"
    using data eff_read_id [OF idx]
    by (simp add: conc_data_inv_def eff_count_def bbl_txq_is_empty_def ring_count_def)
qed

text \<open>What is written at the write index before the index moves on is not part of the queue.\<close>

lemma txq_overwrite:
  fixes e :: u32
  assumes "txq_inv q" "slot_ok s"
  defines "q' \<equiv> q\<lparr>q_ring := (q_ring q)[unat (q_write q) := s], q_encode_error := e\<rparr>"
  shows "txq_inv q'" "txq_slots q' = txq_slots q"
proof -
  show "txq_inv q'"
    using assms by (auto simp: txq_inv_def dest: set_update_subset_insert [THEN subsetD])
  have "ring_view ((q_ring q)[unat (q_write q) := s]) (unat (q_read q)) (txq_count q) =
      ring_view (q_ring q) (unat (q_read q)) (txq_count q)"
    using assms(1)
    by (intro ring_view_update_other) (simp_all add: txq_inv_def txq_count_def ring_count_less ring_count_write)
  then show "txq_slots q' = txq_slots q"
    by (simp add: q'_def txq_slots_def txq_count_def)
qed

lemma txq_full_iff:
  assumes "txq_inv q"
  shows "q_read q = q_next q \<longleftrightarrow> txq_count q = txq_cap q"
proof -
  have "txq_count q \<le> txq_cap q"
    using assms ring_count_less [of "unat (q_read q)" "unat (q_size q)" "unat (q_write q)"]
    by (simp add: txq_inv_def txq_count_def txq_cap_def)
  then show ?thesis
    using txq_inv_full [OF assms] by auto
qed

text \<open>The result of \<open>bbl_txq_to_buffer\<close>: \<open>packet\<close> and \<open>len\<close> are what the encoder left in the slot.\<close>

definition to_buffer_spec :: "txq \<Rightarrow> bool \<Rightarrow> u8 list \<Rightarrow> u16 \<Rightarrow> bbl_txq_result \<Rightarrow> txq \<Rightarrow> bool" where
  "to_buffer_spec q success packet len res q' \<longleftrightarrow> txq_inv q' \<and>
     (res = BBL_TXQ_FULL \<longleftrightarrow> txq_count q = txq_cap q) \<and> (res = BBL_TXQ_OK \<longleftrightarrow> txq_count q < txq_cap q \<and> success) \<and>
     (if res = BBL_TXQ_OK
      then \<exists>s. txq_slots q' = txq_slots q @ [s] \<and> take (unat (sl_packet_len s)) (sl_packet s) = take (unat len) packet
      else txq_slots q' = txq_slots q)"

lemma to_buffer_result:
  assumes "txq_inv q" "encoder_ok enc" "enc eth (sl_packet (q_ring q ! unat (q_write q))) = (success, packet, len)"
  shows "\<exists>res q'. bbl_txq_to_buffer enc eth q = Some (res, q') \<and> to_buffer_spec q success packet len res q'"
proof (cases "q_read q = q_next q")
  case True
  then show ?thesis
    using to_buffer_cases [OF assms(1,2)] txq_full_iff [OF assms(1)] assms(1)
    by (simp add: to_buffer_spec_def txq_inv_def txq_slots_def txq_count_def)
next
  case False
  let ?s = "(q_ring q ! unat (q_write q))\<lparr>sl_packet := packet, sl_packet_len := len\<rparr>"
  have "slot_ok (q_ring q ! unat (q_write q))"
    using assms(1) by (auto simp: txq_inv_def)
  then have s: "slot_ok ?s"
    using encoded_slot_ok [OF assms(2) _ assms(3)] by blast
  have "txq_count q < txq_cap q" "txq_count q \<noteq> txq_cap q"
    using False txq_inv_full [OF assms(1)] by auto
  then show ?thesis
    using to_buffer_cases [OF assms(1,2), of eth] assms(3) False
      txq_overwrite [OF assms(1) s] txq_put [OF assms(1) False s]
    by (cases success) (auto simp: Let_def to_buffer_spec_def)
qed

lemma from_buffer_result:
  assumes "txq_inv q" "BBL_TXQ_BUFFER_LEN \<le> length buf"
  shows "(txq_slots q = [] \<longrightarrow> bbl_txq_from_buffer q buf = Some (0, buf, q)) \<and>
    (\<forall>s ss. txq_slots q = s # ss \<longrightarrow> (\<exists>q'. bbl_txq_from_buffer q buf =
       Some (sl_packet_len s, take (unat (sl_packet_len s)) (sl_packet s) @ drop (unat (sl_packet_len s)) buf, q') \<and>
       txq_inv q' \<and> txq_slots q' = ss))"
proof (cases "q_read q = q_write q")
  case True
  then show ?thesis
    using from_buffer_cases [OF assms] by (simp add: txq_slots_def txq_count_def ring_count_def)
next
  case False
  then show ?thesis
    using from_buffer_cases [OF assms] txq_get [OF assms(1) False] by simp
qed

section \<open>Properties\<close>

lemma init_inv:
  assumes "2 \<le> unat slots"
  shows "\<exists>q. bbl_txq_init True slots = Some q \<and> txq_inv q \<and> txq_slots q = [] \<and> txq_cap q = unat slots - 1"
  using assms
  by (auto simp: bbl_txq_init_def txq_inv_def slot_ok_def zero_slot_def txq_slots_def txq_count_def ring_count_def
      txq_cap_def)


definition demo_io :: "u8 \<Rightarrow> io_handle" where
  "demo_io b = \<lparr>io_timestamp = \<lparr>tv_sec = 1, tv_nsec = 2\<rparr>, io_vlan_tci = 7, io_vlan_tpid = 0x8100,
     io_buf = [b, 0, 0], io_buf_len = 2\<rparr>"



definition demo_enc :: "u8 \<Rightarrow> u8 list \<Rightarrow> bool \<times> u8 list \<times> u16" where
  "demo_enc b buf = (if buf = [] then (False, [], 0) else (b \<noteq> 0, b # tl buf, 1))"

lemma demo_enc_ok: "encoder_ok demo_enc"
proof -
  have "unat (1 :: u16) = 1" by simp
  then show ?thesis
    by (auto simp: encoder_ok_def demo_enc_def Suc_le_eq split: if_splits)
qed

lemma demo_txq_inv: "txq_inv (the (bbl_txq_init True 4))"
  using init_inv [of 4] by auto



definition demo_slot :: "u16 \<Rightarrow> txq_slot" where
  "demo_slot n = zero_slot\<lparr>sl_packet_len := n\<rparr>"

definition demo_put :: "u16 \<Rightarrow> act list" where
  "demo_put n = replicate 5 (P (demo_slot n))"

lemma conc_init_2: "conc_init 2 = \<lparr>cn_q = \<lparr>q_ring = [zero_slot, zero_slot], q_size = 2, q_write = 0, q_next = 1,
    q_full = 0, q_encode_error = 0, q_read = 0\<rparr>, cn_p = P_idle, cn_c = C_idle, cn_sent = [], cn_rcvd = [], cn_raced = False\<rparr>"
proof -
  have "replicate (unat (2 :: u16)) zero_slot = [zero_slot, zero_slot]"
    by (simp, simp add: numeral_2_eq_2)
  then show ?thesis
    by (simp add: conc_init_def bbl_txq_init_def)
qed

lemma demo_put_eq: "demo_put n = [P (demo_slot n), P (demo_slot n), P (demo_slot n), P (demo_slot n), P (demo_slot n)]"
  by (simp add: demo_put_def eval_nat_numeral)

lemmas acts_eval = demo_put_eq conc_init_2 p_step_def c_step_def bbl_txq_write_slot_def bbl_txq_read_slot_def Let_def



end
