(* ===== verification/Wire.thy ===== *)
theory Wire
  imports BBL_Prelude
begin

text \<open>
  The vocabulary of the packet encoders and decoders of
  \<^verbatim>\<open>code/bngblaster/src/bbl_protocols.c\<close>.

  A decoder's \<open>buf\<close> is the list of the bytes from the current read position to the end of the
  received data, and \<open>len\<close> is its 16 bit length variable; \<open>BUMP_BUFFER\<close> drops bytes and
  subtracts, wrapping, from \<open>len\<close>. The two are kept apart, because a decoder that miscounts
  \<open>len\<close> reads behind the data: such a read has the value \<^term>\<open>None\<close>. A decoder's result is
  \<^term>\<open>Inl e\<close> for an error code and \<^term>\<open>Inr x\<close> for the decoded structure. A pointer into the
  buffer is the list of bytes it stands for.

  An encoder's result is the list of bytes it writes at \<open>buf\<close>, by whose length it advances
  \<open>*len\<close>. Multi-byte integers are stored in big-endian order through \<open>htobe16\<close> and friends and
  otherwise in host order, which is little-endian.
\<close>

datatype protocol_error =
    PROTOCOL_SUCCESS | SEND_ERROR | DECODE_ERROR | ENCODE_ERROR | UNKNOWN_PROTOCOL
  | WRONG_PROTOCOL_STATE | IGNORED | EMPTY | FULL | STREAM_WAIT

type_synonym 'a decoded = "(protocol_error + 'a) option"

section \<open>Reading\<close>

text \<open>The value at the read position; \<open>*(buf + n)\<close> is read from \<^term>\<open>drop n buf\<close>.\<close>

fun rd8 :: "u8 list \<Rightarrow> u8 option" where
  "rd8 (a # _) = Some a"
| "rd8 [] = None"

fun rd_be16 :: "u8 list \<Rightarrow> u16 option" where
  "rd_be16 (a # b # _) = Some (push_bit 8 (ucast a) OR ucast b)"
| "rd_be16 _ = None"

fun rd_ne16 :: "u8 list \<Rightarrow> u16 option" where
  "rd_ne16 (a # b # _) = Some (ucast a OR push_bit 8 (ucast b))"
| "rd_ne16 _ = None"

definition rd_ne32 :: "u8 list \<Rightarrow> u32 option" where
  "rd_ne32 buf = do { a \<leftarrow> rd_ne16 buf; b \<leftarrow> rd_ne16 (drop 2 buf); Some (ucast a OR push_bit 16 (ucast b)) }"

definition rd_ne64 :: "u8 list \<Rightarrow> u64 option" where
  "rd_ne64 buf = do { a \<leftarrow> rd_ne32 buf; b \<leftarrow> rd_ne32 (drop 4 buf); Some (ucast a OR push_bit 32 (ucast b)) }"

definition rd_be32 :: "u8 list \<Rightarrow> u32 option" where
  "rd_be32 buf = do { a \<leftarrow> rd_be16 buf; b \<leftarrow> rd_be16 (drop 2 buf); Some (push_bit 16 (ucast a) OR ucast b) }"

section \<open>Writing\<close>

definition w_be16 :: "u16 \<Rightarrow> u8 list" where
  "w_be16 x = [ucast (drop_bit 8 x), ucast x]"

definition w_ne16 :: "u16 \<Rightarrow> u8 list" where
  "w_ne16 x = [ucast x, ucast (drop_bit 8 x)]"

definition w_ne32 :: "u32 \<Rightarrow> u8 list" where
  "w_ne32 x = w_ne16 (ucast x) @ w_ne16 (ucast (drop_bit 16 x))"

definition w_ne64 :: "u64 \<Rightarrow> u8 list" where
  "w_ne64 x = w_ne32 (ucast x) @ w_ne32 (ucast (drop_bit 32 x))"

definition w_be32 :: "u32 \<Rightarrow> u8 list" where
  "w_be32 x = w_be16 (ucast (drop_bit 16 x)) @ w_be16 (ucast x)"

lemma length_w [simp]:
  "length (w_be16 x) = 2" "length (w_ne16 x) = 2" "length (w_ne32 y) = 4" "length (w_ne64 z) = 8"
  "length (w_be32 y) = 4"
  by (simp_all add: w_be16_def w_ne16_def w_ne32_def w_ne64_def w_be32_def)

section \<open>Laws\<close>

lemma ucast_split16: "ucast (ucast x :: u8) OR push_bit 8 (ucast (ucast (drop_bit 8 x) :: u8)) = (x :: u16)"
  by (rule bit_word_eqI) (auto simp: bit_simps)

lemma ucast_split32: "ucast (ucast x :: u16) OR push_bit 16 (ucast (ucast (drop_bit 16 x) :: u16)) = (x :: u32)"
  by (rule bit_word_eqI) (auto simp: bit_simps)

lemma ucast_split64: "ucast (ucast x :: u32) OR push_bit 32 (ucast (ucast (drop_bit 32 x) :: u32)) = (x :: u64)"
  by (rule bit_word_eqI) (auto simp: bit_simps)

lemma rd8_w [simp]: "rd8 (x # ys) = Some x"
  by simp

lemma rd_be16_w [simp]: "rd_be16 (w_be16 x @ ys) = Some x"
  using ucast_split16 [of x] by (simp add: w_be16_def or.commute)

lemma rd_ne16_w [simp]: "rd_ne16 (w_ne16 x @ ys) = Some x"
  by (simp add: w_ne16_def ucast_split16)

lemma rd_ne32_w [simp]: "rd_ne32 (w_ne32 x @ ys) = Some x"
  by (simp add: rd_ne32_def w_ne32_def ucast_split32)

lemma rd_ne64_w [simp]: "rd_ne64 (w_ne64 x @ ys) = Some x"
  by (simp add: rd_ne64_def w_ne64_def ucast_split64)

lemma rd_be32_w [simp]: "rd_be32 (w_be32 x @ ys) = Some x"
  using ucast_split32 [of x] by (simp add: rd_be32_def w_be32_def or.commute)

text \<open>Without anything behind, as at the end of a packet.\<close>

lemmas rd_w_end [simp] = rd_be16_w [of _ "[]", simplified] rd_ne16_w [of _ "[]", simplified]
  rd_ne32_w [of _ "[]", simplified] rd_ne64_w [of _ "[]", simplified] rd_be32_w [of _ "[]", simplified]

text \<open>Reads within the data succeed.\<close>

lemma rd8_ok [mem_simps]: "0 < length buf \<Longrightarrow> \<exists>x. rd8 buf = Some x"
  by (cases buf) simp_all

lemma rd_be16_ok [mem_simps]: "2 \<le> length buf \<Longrightarrow> \<exists>x. rd_be16 buf = Some x"
  by (cases buf rule: rd_be16.cases) simp_all

lemma rd_ne16_ok [mem_simps]: "2 \<le> length buf \<Longrightarrow> \<exists>x. rd_ne16 buf = Some x"
  by (cases buf rule: rd_ne16.cases) simp_all

lemma rd_ne32_ok [mem_simps]: "4 \<le> length buf \<Longrightarrow> \<exists>x. rd_ne32 buf = Some x"
proof -
  assume "4 \<le> length buf"
  then have "2 \<le> length buf" "2 \<le> length (drop 2 buf)" by simp_all
  from rd_ne16_ok [OF this(1)] rd_ne16_ok [OF this(2)] show ?thesis by (auto simp: rd_ne32_def)
qed

lemma rd_ne64_ok [mem_simps]: "8 \<le> length buf \<Longrightarrow> \<exists>x. rd_ne64 buf = Some x"
proof -
  assume "8 \<le> length buf"
  then have "4 \<le> length buf" "4 \<le> length (drop 4 buf)" by simp_all
  from rd_ne32_ok [OF this(1)] rd_ne32_ok [OF this(2)] show ?thesis by (auto simp: rd_ne64_def)
qed

lemma rd_be32_ok [mem_simps]: "4 \<le> length buf \<Longrightarrow> \<exists>x. rd_be32 buf = Some x"
proof -
  assume "4 \<le> length buf"
  then have "2 \<le> length buf" "2 \<le> length (drop 2 buf)" by simp_all
  from rd_be16_ok [OF this(1)] rd_be16_ok [OF this(2)] show ?thesis by (auto simp: rd_be32_def)
qed

text \<open>They fail exactly when they would go behind the data.\<close>

lemma rd8_None_iff: "rd8 buf = None \<longleftrightarrow> length buf < 1"
  by (cases buf) simp_all

lemma rd_be16_None_iff: "rd_be16 buf = None \<longleftrightarrow> length buf < 2"
  by (cases buf rule: rd_be16.cases) simp_all

lemma rd_ne16_None_iff: "rd_ne16 buf = None \<longleftrightarrow> length buf < 2"
  by (cases buf rule: rd_ne16.cases) simp_all

lemma rd_ne32_None_iff: "rd_ne32 buf = None \<longleftrightarrow> length buf < 4"
  using rd_ne16_None_iff [of buf] rd_ne16_None_iff [of "drop 2 buf"]
  by (cases "rd_ne16 buf"; cases "rd_ne16 (drop 2 buf)") (simp_all add: rd_ne32_def)

lemma rd_be32_None_iff: "rd_be32 buf = None \<longleftrightarrow> length buf < 4"
  using rd_be16_None_iff [of buf] rd_be16_None_iff [of "drop 2 buf"]
  by (cases "rd_be16 buf"; cases "rd_be16 (drop 2 buf)") (simp_all add: rd_be32_def)

lemma rd_ne64_None_iff: "rd_ne64 buf = None \<longleftrightarrow> length buf < 8"
  using rd_ne32_None_iff [of buf] rd_ne32_None_iff [of "drop 4 buf"]
  by (cases "rd_ne32 buf"; cases "rd_ne32 (drop 4 buf)") (simp_all add: rd_ne64_def)

lemma ld_range_None_iff: "ld_range buf p n = None \<longleftrightarrow> length buf < p + n"
  by (simp add: ld_range_def)

lemmas reads_None_iff = rd8_None_iff rd_be16_None_iff rd_ne16_None_iff rd_ne32_None_iff rd_be32_None_iff rd_ne64_None_iff ld_range_None_iff

lemma unat_sub_le: "b \<le> a \<Longrightarrow> unat (a - b) = unat a - unat (b :: 'a::len word)"
  by (simp add: unat_sub)

section \<open>Decoders that stay within the data\<close>

text \<open>
  \<open>runs P m\<close>: the decoder \<open>m\<close> stays within its data unless \<open>P\<close>. The rules follow the structure
  of a decoder and turn its cursor arithmetic into linear arithmetic on natural numbers: behind
  \<open>BUMP_BUFFER\<close> only the new length and the length of the rest of the buffer are known.
\<close>

definition runs :: "bool \<Rightarrow> 'a option \<Rightarrow> bool" where
  "runs P m \<longleftrightarrow> (m = None \<longrightarrow> P)"

lemma runs_False: "runs False m \<longleftrightarrow> m \<noteq> None"
  by (simp add: runs_def)

lemma runs_Some [simp]: "runs P (Some x)"
  by (simp add: runs_def)

lemma runs_mono: "runs P m \<Longrightarrow> (P \<Longrightarrow> Q) \<Longrightarrow> runs Q m"
  by (auto simp: runs_def)

lemma runs_if: "(b \<Longrightarrow> runs P x) \<Longrightarrow> (\<not> b \<Longrightarrow> runs P y) \<Longrightarrow> runs P (if b then x else y)"
  by simp

lemma runs_if_or: "(a \<or> b \<Longrightarrow> runs P x) \<Longrightarrow> (\<not> a \<Longrightarrow> \<not> b \<Longrightarrow> runs P y) \<Longrightarrow> runs P (if a \<or> b then x else y)"
  by simp

lemma runs_bind: "runs P m \<Longrightarrow> (\<And>x. m = Some x \<Longrightarrow> runs P (f x)) \<Longrightarrow> runs P (m \<bind> f)"
  by (cases m) (simp_all add: runs_def)

lemma runs_drop:
  "n \<le> length buf \<Longrightarrow> (\<And>b. length b + n = length buf \<Longrightarrow> runs P (f b)) \<Longrightarrow> runs P (Let (drop n buf) f)"
  by simp

lemma runs_bump:
  fixes len :: "'l::len word"
  assumes "unat n \<le> unat len" "\<And>l. unat l + unat n = unat len \<Longrightarrow> runs P (f l)"
  shows "runs P (Let (len - n) f)"
  using assms(1) by (simp add: assms(2) unat_sub word_le_nat_alt)

lemma runs_Let: "runs P (f x) \<Longrightarrow> runs P (Let x f)"
  by simp

lemma runs_rd8: "1 \<le> length buf \<Longrightarrow> (\<And>x. runs P (f x)) \<Longrightarrow> runs P (rd8 buf \<bind> f)"
  by (rule runs_bind) (auto simp: runs_def reads_None_iff)

lemma runs_rd_be16: "2 \<le> length buf \<Longrightarrow> (\<And>x. runs P (f x)) \<Longrightarrow> runs P (rd_be16 buf \<bind> f)"
  by (rule runs_bind) (auto simp: runs_def reads_None_iff)

lemma runs_rd_ne16: "2 \<le> length buf \<Longrightarrow> (\<And>x. runs P (f x)) \<Longrightarrow> runs P (rd_ne16 buf \<bind> f)"
  by (rule runs_bind) (auto simp: runs_def reads_None_iff)

lemma runs_rd_ne32: "4 \<le> length buf \<Longrightarrow> (\<And>x. runs P (f x)) \<Longrightarrow> runs P (rd_ne32 buf \<bind> f)"
  by (rule runs_bind) (auto simp: runs_def reads_None_iff)

lemma runs_rd_be32: "4 \<le> length buf \<Longrightarrow> (\<And>x. runs P (f x)) \<Longrightarrow> runs P (rd_be32 buf \<bind> f)"
  by (rule runs_bind) (auto simp: runs_def reads_None_iff)

lemma runs_rd_ne64: "8 \<le> length buf \<Longrightarrow> (\<And>x. runs P (f x)) \<Longrightarrow> runs P (rd_ne64 buf \<bind> f)"
  by (rule runs_bind) (auto simp: runs_def reads_None_iff)

lemma runs_ld_range: "p + n \<le> length buf \<Longrightarrow> (\<And>x. length x = n \<Longrightarrow> runs P (f x)) \<Longrightarrow> runs P (ld_range buf p n \<bind> f)"
  by (simp add: ld_range_def)

lemma runs_case_sum:
  "(\<And>e. runs P (f e)) \<Longrightarrow> (\<And>x. runs P (g x)) \<Longrightarrow> runs P (case s of Inl e \<Rightarrow> f e | Inr x \<Rightarrow> g x)"
  by (cases s) simp_all

lemma runs_case_option:
  "runs P g \<Longrightarrow> (\<And>x. m = Some x \<Longrightarrow> runs P (f x)) \<Longrightarrow> runs P (case m of None \<Rightarrow> g | Some x \<Rightarrow> f x)"
  by (cases m) simp_all

lemmas runs_reads = runs_rd8 runs_rd_be16 runs_rd_ne16 runs_rd_ne32 runs_rd_be32 runs_rd_ne64 runs_ld_range

lemmas runs_intros = runs_Some runs_if_or runs_if runs_reads runs_bind runs_drop runs_bump runs_Let runs_case_sum

lemmas runs_arith = word_less_nat_alt word_le_nat_alt not_less not_le unat_sub_le

text \<open>\<open>gives Q m\<close>: what the decoder \<open>m\<close> returns has the property \<open>Q\<close>.\<close>

definition gives :: "('a \<Rightarrow> bool) \<Rightarrow> 'a decoded \<Rightarrow> bool" where
  "gives Q m \<longleftrightarrow> (\<forall>x. m = Some (Inr x) \<longrightarrow> Q x)"

lemma givesD: "gives Q m \<Longrightarrow> m = Some (Inr x) \<Longrightarrow> Q x"
  by (simp add: gives_def)

lemma gives_None: "gives Q None"
  by (simp add: gives_def)

lemma gives_Inl: "gives Q (Some (Inl e))"
  by (simp add: gives_def)

lemma gives_Inr: "Q x \<Longrightarrow> gives Q (Some (Inr x))"
  by (simp add: gives_def)

lemma gives_if: "(b \<Longrightarrow> gives Q x) \<Longrightarrow> (\<not> b \<Longrightarrow> gives Q y) \<Longrightarrow> gives Q (if b then x else y)"
  by simp

lemma gives_bind: "(\<And>x. m = Some x \<Longrightarrow> gives Q (f x)) \<Longrightarrow> gives Q (m \<bind> f)"
  by (cases m) (simp_all add: gives_def)

lemma gives_Let: "gives Q (f x) \<Longrightarrow> gives Q (Let x f)"
  by simp

lemma gives_case_sum:
  "(\<And>e. s = Inl e \<Longrightarrow> gives Q (f e)) \<Longrightarrow> (\<And>x. s = Inr x \<Longrightarrow> gives Q (g x)) \<Longrightarrow>
   gives Q (case s of Inl e \<Rightarrow> f e | Inr x \<Rightarrow> g x)"
  by (cases s) simp_all

lemma gives_case_option:
  "(m = None \<Longrightarrow> gives Q g) \<Longrightarrow> (\<And>x. m = Some x \<Longrightarrow> gives Q (f x)) \<Longrightarrow> gives Q (case m of None \<Rightarrow> g | Some x \<Rightarrow> f x)"
  by (cases m) simp_all

lemmas gives_intros = gives_None gives_Inl gives_Inr gives_if gives_bind gives_Let gives_case_sum gives_case_option

section \<open>Type-length-value loops\<close>

text \<open>
  The loop shared by the decoders of LDP, DHCPv6 and PPPoE discovery: a type and a length of 16
  bits each in network byte order, a check of the length, the protocol's \<open>handle\<close>, and on to the
  next TLV.
\<close>

function tlv_loop :: "(u16 \<Rightarrow> u16 \<Rightarrow> u8 list \<Rightarrow> 's \<Rightarrow> 's decoded) \<Rightarrow> u8 list \<Rightarrow> u16 \<Rightarrow> 's \<Rightarrow> 's decoded" where
  "tlv_loop handle buf len s =
     (if len < 4 then Some (Inr s)
      else case rd_be16 buf of None \<Rightarrow> None | Some t \<Rightarrow>
      case rd_be16 (drop 2 buf) of None \<Rightarrow> None | Some n \<Rightarrow>
      if n > len - 4 then Some (Inl DECODE_ERROR)
      else case handle t n (drop 4 buf) s of
          None \<Rightarrow> None
        | Some (Inl e) \<Rightarrow> Some (Inl e)
        | Some (Inr s) \<Rightarrow> tlv_loop handle (drop (unat n) (drop 4 buf)) (len - 4 - n) s)"
  by pat_completeness auto
termination
  by (relation "measure (\<lambda>(_, _, len, _). unat len)")
     (auto simp: word_less_nat_alt word_le_nat_alt not_less unat_sub_le)

declare tlv_loop.simps [simp del]

lemma tlv_loop_stop: "len < 4 \<Longrightarrow> tlv_loop h buf len s = Some (Inr s)"
  by (simp add: tlv_loop.simps)

lemma tlv_loop_safe:
  assumes "\<And>t n b s. unat n \<le> length b \<Longrightarrow> length b \<le> N \<Longrightarrow> runs P (h t n b s)"
    and "unat len \<le> length buf" "length buf \<le> N"
  shows "runs P (tlv_loop h buf len s)"
  using assms(2,3)
proof (induction "unat len" arbitrary: buf len s rule: less_induct)
  case less
  show ?case
  proof (cases "len < 4")
    case False
    then have l: "4 \<le> unat len" "4 \<le> len"
      by (simp_all add: word_less_nat_alt word_le_nat_alt)
    then obtain t where t: "rd_be16 buf = Some t" using less.prems rd_be16_ok [of buf] by auto
    have "rd_be16 (drop 2 buf) \<noteq> None"
      using l less.prems by (simp add: rd_be16_None_iff del: not_None_eq)
    then obtain n where r: "rd_be16 (drop 2 buf) = Some n" by auto
    show ?thesis
    proof (cases "n > len - 4")
      case ok: False
      then have n: "unat n \<le> unat len - 4"
        using l by (simp add: word_less_nat_alt unat_sub_le not_less)
      have u: "unat (len - 4 - n) = unat len - 4 - unat n"
        using ok l by (simp add: unat_sub_le not_less)
      have "runs P (h t n (drop 4 buf) s)"
        using n less.prems l by (intro assms(1)) simp_all
      moreover have "runs P (tlv_loop h (drop (unat n) (drop 4 buf)) (len - 4 - n) s')" for s'
        using less.prems l n u by (intro less.hyps) simp_all
      ultimately show ?thesis
        using False ok t r by (subst tlv_loop.simps) (auto simp: runs_def split: option.splits sum.splits)
    qed (use False t r in \<open>simp add: tlv_loop.simps\<close>)
  qed (simp add: tlv_loop_stop)
qed

text \<open>The loop over TLVs that fill the length left; \<open>pad\<close> is what comes behind them.\<close>

definition tlv_run :: "(u16 \<Rightarrow> u16 \<Rightarrow> u8 list \<Rightarrow> 's \<Rightarrow> 's decoded) \<Rightarrow> u8 list \<Rightarrow> u8 list \<Rightarrow> 's \<Rightarrow> 's decoded" where
  "tlv_run h pad bs s = tlv_loop h (bs @ pad) (of_nat (length bs)) s"

lemma tlv_run_Nil [simp]: "tlv_run h pad [] s = Some (Inr s)"
  by (simp add: tlv_run_def tlv_loop_stop)

lemma tlv_run_tlv:
  assumes "length data + length rest + 4 < 65536" "unat n = length data"
  shows "tlv_run h pad (w_be16 t @ w_be16 n @ data @ rest) s =
    (case h t n (data @ rest @ pad) s of
       None \<Rightarrow> None | Some (Inl e) \<Rightarrow> Some (Inl e) | Some (Inr s) \<Rightarrow> tlv_run h pad rest s)"
proof -
  define len :: u16 where "len = of_nat (length data + length rest + 4)"
  have len: "unat len = length data + length rest + 4"
    unfolding len_def using assms(1) by (intro unat_of_nat_small) simp
  then have l: "\<not> len < 4" "unat (len - 4) = length data + length rest"
    by (simp_all add: word_less_nat_alt unat_sub_le word_le_nat_alt)
  then have "\<not> n > len - 4"
    using assms by (simp add: word_less_nat_alt)
  moreover have "n = of_nat (length data)"
    using assms(2) by (metis of_nat_unat_id)
  then have "len - 4 - n = of_nat (length rest)"
    by (simp add: len_def)
  moreover have "drop (unat n) (data @ rest @ pad) = rest @ pad"
    "drop 2 (w_be16 t @ w_be16 n @ data @ rest @ pad) = w_be16 n @ data @ rest @ pad"
    "drop 4 (w_be16 t @ w_be16 n @ data @ rest @ pad) = data @ rest @ pad"
    using assms(2) by (simp_all add: w_be16_def)
  moreover have "of_nat (length (w_be16 t @ w_be16 n @ data @ rest)) = len"
    by (simp add: len_def w_be16_def)
  ultimately show ?thesis
    using l(1) unfolding tlv_run_def by (subst tlv_loop.simps) (simp split: option.split sum.split)
qed

text \<open>What a loop leaves alone.\<close>

lemma tlv_loop_preserves:
  assumes "\<And>t n b s s'. ok \<longrightarrow> unat n \<le> length b \<Longrightarrow> h t n b s = Some (Inr s') \<Longrightarrow> P s \<Longrightarrow> P s'"
    and "tlv_loop h buf len s = Some (Inr s')" "P s" "ok \<longrightarrow> unat len \<le> length buf"
  shows "P s'"
  using assms(2-4)
proof (induction "unat len" arbitrary: buf len s rule: less_induct)
  case less
  show ?case
  proof (cases "len < 4")
    case False
    then obtain t n s1 where r: "rd_be16 buf = Some t" "rd_be16 (drop 2 buf) = Some n" "\<not> n > len - 4"
      "h t n (drop 4 buf) s = Some (Inr s1)"
      and rec: "tlv_loop h (drop (unat n) (drop 4 buf)) (len - 4 - n) s1 = Some (Inr s')"
      using less.prems(1) by (subst (asm) tlv_loop.simps) (auto split: option.splits sum.splits if_splits)
    have u: "4 \<le> unat len" "unat n \<le> unat len - 4" "unat (len - 4 - n) = unat len - 4 - unat n"
      using False r(3) by (simp_all add: word_less_nat_alt unat_sub_le word_le_nat_alt not_less)
    have "P s1"
      by (rule assms(1) [OF _ r(4) less.prems(2)]) (use u less.prems(3) in auto)
    moreover have "ok \<longrightarrow> unat (len - 4 - n) \<le> length (drop (unat n) (drop 4 buf))"
      using u less.prems(3) by auto
    ultimately show ?thesis
      using less.hyps [OF _ rec] u by simp
  qed (use less.prems in \<open>simp add: tlv_loop_stop\<close>)
qed

lemma gives_tlv_loop:
  assumes "\<And>t n b s. P s \<Longrightarrow> gives P (h t n b s)" "P s"
  shows "gives P (tlv_loop h buf len s)"
  unfolding gives_def
proof (intro allI impI)
  fix x assume "tlv_loop h buf len s = Some (Inr x)"
  then show "P x"
    by (rule tlv_loop_preserves [where P = P and ok = False, rotated]) (use assms in \<open>auto simp: gives_def\<close>)
qed

section \<open>One-byte type-length-value loops\<close>

text \<open>
  The loop over the sub-options of an access line in \<open>decode_dhcp_agent\<close> and
  \<open>decode_pppoe_vendor\<close>. It does not compare the length of a sub-option with the length left, so
  \<open>len\<close> may wrap around; what ends it in any case is the end of the data.
\<close>

function sub_loop :: "(u8 \<Rightarrow> u8 \<Rightarrow> u8 list \<Rightarrow> 's \<Rightarrow> 's decoded) \<Rightarrow> u8 list \<Rightarrow> u16 \<Rightarrow> 's \<Rightarrow> 's decoded" where
  "sub_loop handle buf len s =
     (if \<not> len > 2 then Some (Inr s)
      else case rd8 buf of None \<Rightarrow> None | Some t \<Rightarrow>
      case rd8 (drop 1 buf) of None \<Rightarrow> None | Some n \<Rightarrow>
      case handle t n (drop 2 buf) s of
          None \<Rightarrow> None
        | Some (Inl e) \<Rightarrow> Some (Inl e)
        | Some (Inr s) \<Rightarrow> sub_loop handle (drop (unat n) (drop 2 buf)) (len - 2 - ucast n) s)"
  by pat_completeness auto
termination
proof (relation "measure (\<lambda>(_, buf, _, _). length buf)", simp)
  fix handle :: "u8 \<Rightarrow> u8 \<Rightarrow> u8 list \<Rightarrow> 's \<Rightarrow> 's decoded" and buf :: "u8 list" and len :: u16 and s t n r x
  assume "rd8 buf = Some t"
  then show "((handle, drop (unat (n :: u8)) (drop 2 buf), len - 2 - ucast n, x), (handle, buf, len, s)) \<in> measure (\<lambda>(_, buf, _, _). length buf)"
    by (cases buf) simp_all
qed

declare sub_loop.simps [simp del]

definition sub_run :: "(u8 \<Rightarrow> u8 \<Rightarrow> u8 list \<Rightarrow> 's \<Rightarrow> 's decoded) \<Rightarrow> u8 list \<Rightarrow> u8 list \<Rightarrow> 's \<Rightarrow> 's decoded" where
  "sub_run h pad bs s = sub_loop h (bs @ pad) (of_nat (length bs)) s"

lemma sub_run_Nil [simp]: "sub_run h pad [] s = Some (Inr s)"
  by (simp add: sub_run_def sub_loop.simps)

lemma sub_run_option:
  assumes "length data + length rest + 2 < 65536" "unat n = length data" "data @ rest \<noteq> []"
  shows "sub_run h pad (t # n # data @ rest) s =
    (case h t n (data @ rest @ pad) s of
       None \<Rightarrow> None | Some (Inl e) \<Rightarrow> Some (Inl e) | Some (Inr s) \<Rightarrow> sub_run h pad rest s)"
proof -
  define len :: u16 where "len = of_nat (length data + length rest + 2)"
  have "unat len = length data + length rest + 2"
    unfolding len_def using assms(1) by (intro unat_of_nat_small) simp
  moreover have "0 < length data + length rest" using assms(3) by auto
  ultimately have "len > 2" by (simp add: word_less_nat_alt)
  moreover have "(of_nat (length (t # n # data @ rest)) :: u16) = len" by (simp add: len_def)
  moreover have "(ucast n :: u16) = of_nat (length data)"
    using assms(2) by (metis of_nat_unat)
  then have "len - 2 - ucast n = of_nat (length rest)" by (simp add: len_def)
  moreover have "drop (unat n) (data @ rest @ pad) = rest @ pad" using assms(2) by simp
  ultimately show ?thesis
    unfolding sub_run_def by (subst sub_loop.simps) (simp split: option.split sum.split)
qed

section \<open>Packet codecs\<close>

text \<open>
  The contract of an encoder and its decoder: the decoder never reads behind the received data,
  whatever it contains, and gives back from the encoding of a well-formed structure one that looks
  the same. \<open>view\<close> is the part of the structure that is on the wire.
\<close>

locale packet_codec =
  fixes enc :: "'a \<Rightarrow> u8 list option"
    and dec :: "u8 list \<Rightarrow> 'a decoded"
    and wf :: "'a \<Rightarrow> bool"
    and view :: "'a \<Rightarrow> 'b"
  assumes dec_safe: "length bs < 65536 \<Longrightarrow> dec bs \<noteq> None"
    and dec_enc: "wf x \<Longrightarrow> \<exists>bs y. enc x = Some bs \<and> dec bs = Some (Inr y) \<and> view y = view x"
begin

lemma enc_inj: "wf x \<Longrightarrow> wf y \<Longrightarrow> enc x = enc y \<Longrightarrow> view x = view y"
  using dec_enc [of x] dec_enc [of y] by auto

lemma dec_cases: "length bs < 65536 \<Longrightarrow> (\<exists>e. dec bs = Some (Inl e)) \<or> (\<exists>x. dec bs = Some (Inr x))"
  using dec_safe [of bs] by (metis not_None_eq sum.exhaust)

end

end
