(* ===== verification/PPP_Codec.thy ===== *)
theory PPP_Codec
  imports Wire
begin

text \<open>
  The encoders and decoders of the PPP control protocols PAP, CHAP, IP6CP, IPCP and LCP in
  \<^verbatim>\<open>code/bngblaster/src/bbl_protocols.c\<close>. The sizes in the checks of the scratchpad are those of
  the structures on a 64 bit machine. A pointer field is \<^term>\<open>None\<close> when it is NULL.
\<close>

section \<open>PAP\<close>

abbreviation (input) PAP_CODE_REQUEST :: u8 where
  "PAP_CODE_REQUEST \<equiv> 1"

record bbl_pap =
  pap_code :: u8
  pap_identifier :: u8
  pap_username :: "u8 list option"
  pap_username_len :: u8
  pap_password :: "u8 list option"
  pap_password_len :: u8
  pap_reply_message :: "u8 list option"
  pap_reply_message_len :: u8

text \<open>A one byte length and the bytes a pointer and that length stand for; nothing for NULL.\<close>

definition w_counted :: "u8 list option \<Rightarrow> u8 \<Rightarrow> u8 list option" where
  "w_counted ptr n = (case ptr of None \<Rightarrow> Some [] | Some bytes \<Rightarrow> do { b \<leftarrow> ld_range bytes 0 (unat n); Some (n # b) })"

definition encode_ppp_pap :: "bbl_pap \<Rightarrow> u8 list option" where
  "encode_ppp_pap pap =
     do { user \<leftarrow> w_counted (pap_username pap) (pap_username_len pap);
          pass \<leftarrow> w_counted (pap_password pap) (pap_password_len pap);
          reply \<leftarrow> w_counted (pap_reply_message pap) (pap_reply_message_len pap);
          let body = user @ pass @ reply;
          Some ([pap_code pap, pap_identifier pap] @ w_be16 (of_nat (4 + length body)) @ body) }"

definition zero_pap :: bbl_pap where
  "zero_pap = \<lparr>pap_code = 0, pap_identifier = 0, pap_username = None, pap_username_len = 0,
     pap_password = None, pap_password_len = 0, pap_reply_message = None, pap_reply_message_len = 0\<rparr>"

definition decode_ppp_pap :: "u8 list \<Rightarrow> u16 \<Rightarrow> u16 \<Rightarrow> bbl_pap decoded" where
  "decode_ppp_pap buf len sp_len =
     (if len < 4 \<or> sp_len < 56 then Some (Inl DECODE_ERROR)
      else do {
        code \<leftarrow> rd8 buf;
        identifier \<leftarrow> rd8 (drop 1 buf);
        pap_len \<leftarrow> rd_be16 (drop 2 buf);
        let pap = zero_pap\<lparr>pap_code := code, pap_identifier := identifier\<rparr>;
        if code = PAP_CODE_REQUEST then
          if pap_len < 6 \<or> pap_len > len then Some (Inl DECODE_ERROR)
          else do {
            let buf = drop 4 buf; let len = len - 4;
            username_len \<leftarrow> rd8 buf;
            let buf = drop 1 buf; let len = len - 1;
            if ucast username_len \<ge> len then Some (Inl DECODE_ERROR)
            else do {
              username \<leftarrow> ld_range buf 0 (unat username_len);
              let buf = drop (unat username_len) buf; let len = len - ucast username_len;
              password_len \<leftarrow> rd8 buf;
              let buf = drop 1 buf; let len = len - 1;
              if ucast password_len > len then Some (Inl DECODE_ERROR)
              else do {
                password \<leftarrow> ld_range buf 0 (unat password_len);
                Some (Inr (pap\<lparr>pap_username := Some username, pap_username_len := username_len,
                               pap_password := Some password, pap_password_len := password_len\<rparr>)) } } }
        else
          if pap_len < 5 \<or> pap_len > len then Some (Inl DECODE_ERROR)
          else do {
            let buf = drop 4 buf; let len = len - 4;
            reply_message_len \<leftarrow> rd8 buf;
            let buf = drop 1 buf; let len = len - 1;
            if reply_message_len = 0 then Some (Inr pap)
            else if ucast reply_message_len > len then Some (Inl DECODE_ERROR)
            else do {
              reply_message \<leftarrow> ld_range buf 0 (unat reply_message_len);
              Some (Inr (pap\<lparr>pap_reply_message := Some reply_message,
                             pap_reply_message_len := reply_message_len\<rparr>)) } } })"

section \<open>CHAP\<close>

abbreviation (input) CHAP_CODE_CHALLENGE :: u8 where
  "CHAP_CODE_CHALLENGE \<equiv> 1"

record bbl_chap =
  chap_code :: u8
  chap_identifier :: u8
  chap_name :: "u8 list option"
  chap_name_len :: u8
  chap_challenge :: "u8 list option"
  chap_challenge_len :: u8
  chap_reply_message :: "u8 list option"
  chap_reply_message_len :: u8

definition w_bytes :: "u8 list option \<Rightarrow> u8 \<Rightarrow> u8 list option" where
  "w_bytes ptr n = (case ptr of None \<Rightarrow> Some [] | Some bytes \<Rightarrow> ld_range bytes 0 (unat n))"

definition encode_ppp_chap :: "bbl_chap \<Rightarrow> u8 list option" where
  "encode_ppp_chap chap =
     do { challenge \<leftarrow> w_counted (chap_challenge chap) (chap_challenge_len chap);
          name \<leftarrow> w_bytes (chap_name chap) (chap_name_len chap);
          reply \<leftarrow> w_bytes (chap_reply_message chap) (chap_reply_message_len chap);
          let body = challenge @ name @ reply;
          Some ([chap_code chap, chap_identifier chap] @ w_be16 (of_nat (4 + length body)) @ body) }"

definition zero_chap :: bbl_chap where
  "zero_chap = \<lparr>chap_code = 0, chap_identifier = 0, chap_name = None, chap_name_len = 0,
     chap_challenge = None, chap_challenge_len = 0, chap_reply_message = None, chap_reply_message_len = 0\<rparr>"

definition decode_ppp_chap :: "u8 list \<Rightarrow> u16 \<Rightarrow> u16 \<Rightarrow> bbl_chap decoded" where
  "decode_ppp_chap buf len sp_len =
     (if len < 4 \<or> sp_len < 56 then Some (Inl DECODE_ERROR)
      else do {
        code \<leftarrow> rd8 buf;
        identifier \<leftarrow> rd8 (drop 1 buf);
        chap_len \<leftarrow> rd_be16 (drop 2 buf);
        let chap = zero_chap\<lparr>chap_code := code, chap_identifier := identifier\<rparr>;
        if code = CHAP_CODE_CHALLENGE then
          if chap_len < 5 \<or> chap_len > len then Some (Inl DECODE_ERROR)
          else do {
            let buf = drop 4 buf; let len = len - 4;
            challenge_len \<leftarrow> rd8 buf;
            let buf = drop 1 buf; let len = len - 1;
            if ucast challenge_len > len then Some (Inl DECODE_ERROR)
            else do {
              challenge \<leftarrow> ld_range buf 0 (unat challenge_len);
              Some (Inr (chap\<lparr>chap_challenge := Some challenge, chap_challenge_len := challenge_len\<rparr>)) } }
        else
          if chap_len < 4 \<or> chap_len > len then Some (Inl DECODE_ERROR)
          else do {
            let buf = drop 4 buf; let len = len - 4;
            let reply_message_len = ucast (chap_len - 4);
            if reply_message_len = 0 then Some (Inr chap)
            else if ucast reply_message_len > len then Some (Inl DECODE_ERROR)
            else do {
              reply_message \<leftarrow> ld_range buf 0 (unat reply_message_len);
              Some (Inr (chap\<lparr>chap_reply_message := Some reply_message,
                              chap_reply_message_len := reply_message_len\<rparr>)) } } })"

section \<open>Options of the control protocols\<close>

abbreviation (input) PPP_CODE_VENDOR_SPECIFIC :: u8 where "PPP_CODE_VENDOR_SPECIFIC \<equiv> 0"
abbreviation (input) PPP_CODE_CONF_REQUEST :: u8 where "PPP_CODE_CONF_REQUEST \<equiv> 1"
abbreviation (input) PPP_CODE_CONF_ACK :: u8 where "PPP_CODE_CONF_ACK \<equiv> 2"
abbreviation (input) PPP_CODE_CONF_NAK :: u8 where "PPP_CODE_CONF_NAK \<equiv> 3"
abbreviation (input) PPP_CODE_CONF_REJECT :: u8 where "PPP_CODE_CONF_REJECT \<equiv> 4"
abbreviation (input) PPP_CODE_PROT_REJECT :: u8 where "PPP_CODE_PROT_REJECT \<equiv> 8"
abbreviation (input) PPP_CODE_ECHO_REQUEST :: u8 where "PPP_CODE_ECHO_REQUEST \<equiv> 9"
abbreviation (input) PPP_CODE_ECHO_REPLY :: u8 where "PPP_CODE_ECHO_REPLY \<equiv> 10"

lemma option_rest_less:
  assumes "\<not> len < 2" "\<not> ucast (n - 2) > (len :: u16) - 2"
  shows "unat (len - 2 - ucast (n - 2 :: u8)) < unat len"
  using assms unat_sub [of "ucast (n - 2)" "len - 2"] unat_sub [of 2 len]
  by (simp add: word_less_nat_alt word_le_nat_alt not_less)

text \<open>
  The loop over the options, the same for the three protocols: type and length of the next
  option, checks of the length, the protocol's own \<open>handle\<close>, and on to the next option. The
  handler gets the type, the length of the option's data, the length left in the packet, the
  data, and the option from its type byte on.
\<close>

function opt_loop :: "(u8 \<Rightarrow> u8 \<Rightarrow> u16 \<Rightarrow> u8 list \<Rightarrow> u8 list \<Rightarrow> 's \<Rightarrow> 's decoded) \<Rightarrow>
    u8 list \<Rightarrow> u16 \<Rightarrow> 's \<Rightarrow> 's decoded" where
  "opt_loop handle buf len s =
     (if len < 2 then Some (Inr s)
      else case rd8 buf of None \<Rightarrow> None | Some option_type \<Rightarrow>
      case rd8 (drop 1 buf) of None \<Rightarrow> None | Some option_len \<Rightarrow>
      if option_len < 2 then Some (Inl DECODE_ERROR)
      else if ucast (option_len - 2) > len - 2 then Some (Inl DECODE_ERROR)
      else case handle option_type (option_len - 2) (len - 2) (drop 2 buf) buf s of
          None \<Rightarrow> None
        | Some (Inl e) \<Rightarrow> Some (Inl e)
        | Some (Inr s) \<Rightarrow>
            opt_loop handle (drop (unat (option_len - 2)) (drop 2 buf)) (len - 2 - ucast (option_len - 2)) s)"
  by pat_completeness auto
termination
  by (relation "measure (\<lambda>(_, _, len, _). unat len)") (simp_all add: option_rest_less)

declare opt_loop.simps [simp del]

section \<open>IP6CP\<close>

abbreviation (input) PPP_IP6CP_OPTION_IDENTIFIER :: u8 where "PPP_IP6CP_OPTION_IDENTIFIER \<equiv> 1"

record bbl_ip6cp =
  ip6cp_code :: u8
  ip6cp_identifier :: u8
  ip6cp_options :: "u8 list option"
  ip6cp_options_len :: u8
  ip6cp_ipv6_identifier :: u64
  ip6cp_unknown_options :: bool

definition encode_ppp_ip6cp :: "bbl_ip6cp \<Rightarrow> u8 list option" where
  "encode_ppp_ip6cp ip6cp =
     (case ip6cp_options ip6cp of
        Some options \<Rightarrow>
          if ip6cp_options_len ip6cp \<noteq> 0 then
            do { opts \<leftarrow> ld_range options 0 (unat (ip6cp_options_len ip6cp));
                 Some ([ip6cp_code ip6cp, ip6cp_identifier ip6cp] @
                   w_be16 (ucast (ip6cp_options_len ip6cp) + 4) @ opts) }
          else Some ([ip6cp_code ip6cp, ip6cp_identifier ip6cp] @ w_be16 14 @
                 [PPP_IP6CP_OPTION_IDENTIFIER, 10] @ w_ne64 (ip6cp_ipv6_identifier ip6cp))
      | None \<Rightarrow> Some ([ip6cp_code ip6cp, ip6cp_identifier ip6cp] @ w_be16 14 @
                 [PPP_IP6CP_OPTION_IDENTIFIER, 10] @ w_ne64 (ip6cp_ipv6_identifier ip6cp)))"

definition ip6cp_handle :: "u8 \<Rightarrow> u8 \<Rightarrow> u16 \<Rightarrow> u8 list \<Rightarrow> u8 list \<Rightarrow> bbl_ip6cp \<Rightarrow> bbl_ip6cp decoded" where
  "ip6cp_handle option_type option_len len data start ip6cp =
     (if option_type = PPP_IP6CP_OPTION_IDENTIFIER then
        if option_len < 8 then Some (Inl DECODE_ERROR)
        else do { v \<leftarrow> rd_ne64 data; Some (Inr (ip6cp\<lparr>ip6cp_ipv6_identifier := v\<rparr>)) }
      else Some (Inr (ip6cp\<lparr>ip6cp_unknown_options := True\<rparr>)))"

definition decode_ppp_ip6cp :: "u8 list \<Rightarrow> u16 \<Rightarrow> u16 \<Rightarrow> bbl_ip6cp decoded" where
  "decode_ppp_ip6cp buf len sp_len =
     (if len < 4 \<or> sp_len < 40 then Some (Inl DECODE_ERROR)
      else do {
        code \<leftarrow> rd8 buf;
        identifier \<leftarrow> rd8 (drop 1 buf);
        ip6cp_len \<leftarrow> rd_be16 (drop 2 buf);
        let buf = drop 4 buf; let len = len - 4;
        if ip6cp_len < 4 then Some (Inl DECODE_ERROR)
        else if ip6cp_len - 4 > len then Some (Inl DECODE_ERROR)
        else
          let ip6cp_len = ip6cp_len - 4;
              ip6cp = \<lparr>ip6cp_code = code, ip6cp_identifier = identifier, ip6cp_options = Some buf,
                       ip6cp_options_len = ucast ip6cp_len, ip6cp_ipv6_identifier = 0,
                       ip6cp_unknown_options = False\<rparr>
          in if code = PPP_CODE_CONF_REQUEST \<or> code = PPP_CODE_CONF_ACK \<or> code = PPP_CODE_CONF_NAK
             then opt_loop ip6cp_handle buf ip6cp_len ip6cp
             else Some (Inr ip6cp) })"

section \<open>IPCP\<close>

abbreviation (input) PPP_IPCP_OPTION_ADDRESS :: u8 where "PPP_IPCP_OPTION_ADDRESS \<equiv> 3"
abbreviation (input) PPP_IPCP_OPTION_DNS1 :: u8 where "PPP_IPCP_OPTION_DNS1 \<equiv> 129"
abbreviation (input) PPP_IPCP_OPTION_DNS2 :: u8 where "PPP_IPCP_OPTION_DNS2 \<equiv> 131"

record bbl_ipcp =
  ipcp_code :: u8
  ipcp_identifier :: u8
  ipcp_options :: "u8 list option"
  ipcp_options_len :: u8
  ipcp_address :: u32
  ipcp_dns1 :: u32
  ipcp_dns2 :: u32
  ipcp_option_address :: bool
  ipcp_option_dns1 :: bool
  ipcp_option_dns2 :: bool
  ipcp_unknown_options :: bool

text \<open>The options the encoder constructs when none are given.\<close>

definition ipcp_construct :: "bbl_ipcp \<Rightarrow> u8 list" where
  "ipcp_construct ipcp =
     (if ipcp_option_address ipcp then [PPP_IPCP_OPTION_ADDRESS, 6] @ w_ne32 (ipcp_address ipcp) else []) @
     (if ipcp_option_dns1 ipcp then [PPP_IPCP_OPTION_DNS1, 6] @ w_ne32 (ipcp_dns1 ipcp) else []) @
     (if ipcp_option_dns2 ipcp then [PPP_IPCP_OPTION_DNS2, 6] @ w_ne32 (ipcp_dns2 ipcp) else [])"

definition encode_ppp_ipcp :: "bbl_ipcp \<Rightarrow> u8 list option" where
  "encode_ppp_ipcp ipcp =
     do { opts \<leftarrow> (case ipcp_options ipcp of
            Some options \<Rightarrow> if ipcp_options_len ipcp \<noteq> 0 then ld_range options 0 (unat (ipcp_options_len ipcp))
                            else Some (ipcp_construct ipcp)
          | None \<Rightarrow> Some (ipcp_construct ipcp));
          Some ([ipcp_code ipcp, ipcp_identifier ipcp] @ w_be16 (of_nat (4 + length opts)) @ opts) }"

definition ipcp_handle :: "u8 \<Rightarrow> u8 \<Rightarrow> u16 \<Rightarrow> u8 list \<Rightarrow> u8 list \<Rightarrow> bbl_ipcp \<Rightarrow> bbl_ipcp decoded" where
  "ipcp_handle option_type option_len len data start ipcp =
     (if option_type = PPP_IPCP_OPTION_ADDRESS then
        if option_len < 4 then Some (Inl DECODE_ERROR)
        else do { v \<leftarrow> rd_ne32 data; Some (Inr (ipcp\<lparr>ipcp_option_address := True, ipcp_address := v\<rparr>)) }
      else if option_type = PPP_IPCP_OPTION_DNS1 then
        if option_len < 4 then Some (Inl DECODE_ERROR)
        else do { v \<leftarrow> rd_ne32 data; Some (Inr (ipcp\<lparr>ipcp_option_dns1 := True, ipcp_dns1 := v\<rparr>)) }
      else if option_type = PPP_IPCP_OPTION_DNS2 then
        if option_len < 4 then Some (Inl DECODE_ERROR)
        else do { v \<leftarrow> rd_ne32 data; Some (Inr (ipcp\<lparr>ipcp_option_dns2 := True, ipcp_dns2 := v\<rparr>)) }
      else Some (Inr (ipcp\<lparr>ipcp_unknown_options := True\<rparr>)))"

definition decode_ppp_ipcp :: "u8 list \<Rightarrow> u16 \<Rightarrow> u16 \<Rightarrow> bbl_ipcp decoded" where
  "decode_ppp_ipcp buf len sp_len =
     (if len < 4 \<or> sp_len < 40 then Some (Inl DECODE_ERROR)
      else do {
        code \<leftarrow> rd8 buf;
        identifier \<leftarrow> rd8 (drop 1 buf);
        ipcp_len \<leftarrow> rd_be16 (drop 2 buf);
        let buf = drop 4 buf; let len = len - 4;
        if ipcp_len < 4 then Some (Inl DECODE_ERROR)
        else if ipcp_len - 4 > len then Some (Inl DECODE_ERROR)
        else
          let ipcp_len = ipcp_len - 4;
              ipcp = \<lparr>ipcp_code = code, ipcp_identifier = identifier, ipcp_options = Some buf,
                      ipcp_options_len = ucast ipcp_len, ipcp_address = 0, ipcp_dns1 = 0, ipcp_dns2 = 0,
                      ipcp_option_address = False, ipcp_option_dns1 = False, ipcp_option_dns2 = False,
                      ipcp_unknown_options = False\<rparr>
          in if code \<in> {PPP_CODE_CONF_REQUEST, PPP_CODE_CONF_ACK, PPP_CODE_CONF_NAK, PPP_CODE_CONF_REJECT}
             then opt_loop ipcp_handle buf ipcp_len ipcp
             else Some (Inr ipcp) })"

section \<open>LCP\<close>

abbreviation (input) PPP_LCP_OPTION_MRU :: u8 where "PPP_LCP_OPTION_MRU \<equiv> 1"
abbreviation (input) PPP_LCP_OPTION_AUTH :: u8 where "PPP_LCP_OPTION_AUTH \<equiv> 3"
abbreviation (input) PPP_LCP_OPTION_MAGIC :: u8 where "PPP_LCP_OPTION_MAGIC \<equiv> 5"
abbreviation (input) PPP_MAX_OPTIONS :: nat where "PPP_MAX_OPTIONS \<equiv> 8"

text \<open>\<open>lcp_option\<close> lists the pointers stored in the array \<open>option\<close> so far.\<close>

record bbl_lcp =
  lcp_code :: u8
  lcp_identifier :: u8
  lcp_options :: "u8 list option"
  lcp_options_len :: u8
  lcp_mru :: u16
  lcp_auth :: u16
  lcp_protocol :: u16
  lcp_magic :: u32
  lcp_vendor_oui :: "u8 list"
  lcp_vendor_kind :: u8
  lcp_vendor_value :: "u8 list option"
  lcp_vendor_value_len :: u16
  lcp_start :: "u8 list option"
  lcp_len :: u16
  lcp_padding :: u16
  lcp_option :: "u8 list list"
  lcp_unknown_options :: bool

definition lcp_construct :: "bbl_lcp \<Rightarrow> u8 list" where
  "lcp_construct lcp =
     (if lcp_mru lcp \<noteq> 0 then [PPP_LCP_OPTION_MRU, 4] @ w_be16 (lcp_mru lcp) else []) @
     (if lcp_auth lcp \<noteq> 0 then [PPP_LCP_OPTION_AUTH, 4] @ w_be16 (lcp_auth lcp) else []) @
     (if lcp_magic lcp \<noteq> 0 then [PPP_LCP_OPTION_MAGIC, 6] @ w_ne32 (lcp_magic lcp) else [])"

text \<open>\<open>old\<close> is what the buffer held before: the padding is not written.\<close>

definition encode_ppp_lcp :: "u8 list \<Rightarrow> bbl_lcp \<Rightarrow> u8 list option" where
  "encode_ppp_lcp old lcp =
     do { body \<leftarrow> (if lcp_code lcp = PPP_CODE_ECHO_REQUEST \<or> lcp_code lcp = PPP_CODE_ECHO_REPLY
            then Some (w_ne32 (lcp_magic lcp))
            else case lcp_options lcp of
              Some options \<Rightarrow> if lcp_options_len lcp \<noteq> 0 then ld_range options 0 (unat (lcp_options_len lcp))
                              else Some (lcp_construct lcp)
            | None \<Rightarrow> Some (lcp_construct lcp));
          let pdu = [lcp_code lcp, lcp_identifier lcp] @ w_be16 (of_nat (4 + length body)) @ body;
          pad \<leftarrow> (if lcp_padding lcp = 0 then Some [] else ld_range old (length pdu) (unat (lcp_padding lcp)));
          Some (pdu @ pad) }"

text \<open>The checks are on the length left in the packet, not on that of the option.\<close>

definition lcp_handle :: "u8 \<Rightarrow> u8 \<Rightarrow> u16 \<Rightarrow> u8 list \<Rightarrow> u8 list \<Rightarrow> bbl_lcp \<Rightarrow> bbl_lcp decoded" where
  "lcp_handle option_type option_len len data start lcp =
     (let lcp = (if length (lcp_option lcp) < PPP_MAX_OPTIONS
                 then lcp\<lparr>lcp_option := lcp_option lcp @ [start]\<rparr> else lcp)
      in if option_type = PPP_LCP_OPTION_MRU then
           if len < 2 then Some (Inl DECODE_ERROR)
           else do { v \<leftarrow> rd_be16 data; Some (Inr (lcp\<lparr>lcp_mru := v\<rparr>)) }
         else if option_type = PPP_LCP_OPTION_AUTH then
           if len < 2 then Some (Inl DECODE_ERROR)
           else do { v \<leftarrow> rd_be16 data; Some (Inr (lcp\<lparr>lcp_auth := v\<rparr>)) }
         else if option_type = PPP_LCP_OPTION_MAGIC then
           if len < 4 then Some (Inl DECODE_ERROR)
           else do { v \<leftarrow> rd_ne32 data; Some (Inr (lcp\<lparr>lcp_magic := v\<rparr>)) }
         else Some (Inr (lcp\<lparr>lcp_unknown_options := True\<rparr>)))"

definition decode_ppp_lcp :: "u8 list \<Rightarrow> u16 \<Rightarrow> u16 \<Rightarrow> bbl_lcp decoded" where
  "decode_ppp_lcp buf len sp_len =
     (if len < 4 \<or> sp_len < 136 then Some (Inl DECODE_ERROR)
      else do {
        let start = buf; let start_len = len;
        code \<leftarrow> rd8 buf;
        identifier \<leftarrow> rd8 (drop 1 buf);
        pdu_len \<leftarrow> rd_be16 (drop 2 buf);
        let buf = drop 4 buf; let len = len - 4;
        if pdu_len < 4 then Some (Inl DECODE_ERROR)
        else if pdu_len - 4 > len then Some (Inl DECODE_ERROR)
        else do {
          let pdu_len = pdu_len - 4;
          let lcp = \<lparr>lcp_code = code, lcp_identifier = identifier, lcp_options = Some buf,
                     lcp_options_len = ucast pdu_len, lcp_mru = 0, lcp_auth = 0, lcp_protocol = 0, lcp_magic = 0,
                     lcp_vendor_oui = [0, 0, 0], lcp_vendor_kind = 0, lcp_vendor_value = None,
                     lcp_vendor_value_len = 0, lcp_start = Some start, lcp_len = start_len, lcp_padding = 0,
                     lcp_option = [], lcp_unknown_options = False\<rparr>;
          if code = PPP_CODE_VENDOR_SPECIFIC then
            if pdu_len < 8 then Some (Inl DECODE_ERROR)
            else do { magic \<leftarrow> rd_ne32 buf;
                      oui \<leftarrow> ld_range buf 4 3;
                      kind \<leftarrow> rd8 (drop 7 buf);
                      Some (Inr (lcp\<lparr>lcp_magic := magic, lcp_vendor_oui := oui, lcp_vendor_kind := kind,
                                     lcp_vendor_value := Some (drop 8 buf), lcp_vendor_value_len := pdu_len - 8\<rparr>)) }
          else if code = PPP_CODE_PROT_REJECT then
            if pdu_len < 2 then Some (Inl DECODE_ERROR)
            else do { protocol \<leftarrow> rd_be16 buf; Some (Inr (lcp\<lparr>lcp_protocol := protocol\<rparr>)) }
          else if code = PPP_CODE_ECHO_REQUEST \<or> code = PPP_CODE_ECHO_REPLY then
            if pdu_len \<ge> 4 then do { magic \<leftarrow> rd_ne32 buf; Some (Inr (lcp\<lparr>lcp_magic := magic\<rparr>)) }
            else Some (Inr lcp)
          else if code \<in> {PPP_CODE_CONF_REQUEST, PPP_CODE_CONF_ACK, PPP_CODE_CONF_NAK}
            then opt_loop lcp_handle buf pdu_len lcp
          else Some (Inr lcp) } })"

section \<open>Safety\<close>

text \<open>A handler is safe when it reads only data that its length arguments cover.\<close>

definition handler_safe :: "(u8 \<Rightarrow> u8 \<Rightarrow> u16 \<Rightarrow> u8 list \<Rightarrow> u8 list \<Rightarrow> 's \<Rightarrow> 's decoded) \<Rightarrow> bool" where
  "handler_safe h \<longleftrightarrow> (\<forall>t n len data start s. unat n \<le> unat len \<longrightarrow> unat len \<le> length data \<longrightarrow> h t n len data start s \<noteq> None)"

lemma handler_safeD: "handler_safe h \<Longrightarrow> unat n \<le> unat len \<Longrightarrow> unat len \<le> length data \<Longrightarrow> h t n len data start s \<noteq> None"
  by (simp add: handler_safe_def)

lemma drop_two [simp]: "drop 2 (x # y # xs) = xs"
  by (simp add: numeral_2_eq_2)

lemma opt_loop_step:
  assumes "\<not> len < 2" "\<not> n < 2" "\<not> ucast (n - 2) > len - 2"
  shows "opt_loop h (t # n # rest) len s =
    (case h t (n - 2) (len - 2) rest (t # n # rest) s of
       None \<Rightarrow> None
     | Some (Inl e) \<Rightarrow> Some (Inl e)
     | Some (Inr s) \<Rightarrow> opt_loop h (drop (unat (n - 2)) rest) (len - 2 - ucast (n - 2)) s)"
  using assms by (subst opt_loop.simps) (simp split: option.split sum.split)

lemma opt_loop_stop: "len < 2 \<Longrightarrow> opt_loop h buf len s = Some (Inr s)"
  by (simp add: opt_loop.simps)

lemma opt_loop_bad:
  "\<not> len < 2 \<Longrightarrow> n < 2 \<or> ucast (n - 2) > len - 2 \<Longrightarrow> opt_loop h (t # n # rest) len s = Some (Inl DECODE_ERROR)"
  by (subst opt_loop.simps) auto

lemma opt_loop_safe:
  assumes "handler_safe h" "unat len \<le> length buf"
  shows "opt_loop h buf len s \<noteq> None"
  using assms(2)
proof (induction "unat len" arbitrary: buf len s rule: less_induct)
  case less
  show ?case
  proof (cases "len < 2")
    case False
    then have l2: "2 \<le> unat len" "unat (len - 2) = unat len - 2"
      by (simp_all add: word_less_nat_alt not_less unat_sub_le word_le_nat_alt)
    then obtain t n rest where buf: "buf = t # n # rest"
      using less.prems by (cases buf rule: rd_be16.cases) auto
    show ?thesis
    proof (cases "n < 2 \<or> ucast (n - 2) > len - 2")
      case ok: False
      let ?rest = "drop (unat (n - 2)) rest" and ?len = "len - 2 - ucast (n - 2)"
      have n: "unat (n - 2) \<le> unat (len - 2)"
        using ok by (simp add: word_less_nat_alt not_less)
      then have "h t (n - 2) (len - 2) rest buf s \<noteq> None"
        using less.prems l2 buf by (intro handler_safeD [OF assms(1)]) auto
      moreover have "unat ?len \<le> length ?rest"
        using less.prems l2 buf n by (simp add: unat_sub_le word_le_nat_alt)
      then have "opt_loop h ?rest ?len s' \<noteq> None" for s'
        using less.hyps option_rest_less False ok by blast
      ultimately show ?thesis
        using ok False by (auto simp: buf opt_loop_step split: sum.splits)
    qed (use False buf in \<open>simp add: opt_loop_bad\<close>)
  qed (simp add: opt_loop_stop)
qed

lemma handlers_safe: "handler_safe ip6cp_handle" "handler_safe ipcp_handle" "handler_safe lcp_handle"
  unfolding handler_safe_def ip6cp_handle_def ipcp_handle_def lcp_handle_def Let_def
  by (auto simp: word_less_nat_alt not_less reads_None_iff split: bind_splits)


text \<open>No decoder reads behind the data it was given.\<close>

lemma opt_loop_runs: "handler_safe h \<Longrightarrow> unat len \<le> length buf \<Longrightarrow> runs P (opt_loop h buf len s)"
  using opt_loop_safe by (metis runs_def)

lemma decode_ppp_pap_safe:
  assumes "unat len \<le> length buf"
  shows "decode_ppp_pap buf len sp_len \<noteq> None"
  using assms unfolding runs_False [symmetric] decode_ppp_pap_def
  by (intro runs_intros; (simp add: runs_arith del: length_greater_0_conv)?)

lemma decode_ppp_chap_safe:
  assumes "unat len \<le> length buf"
  shows "decode_ppp_chap buf len sp_len \<noteq> None"
  using assms unfolding runs_False [symmetric] decode_ppp_chap_def
  by (intro runs_intros; (simp add: runs_arith del: length_greater_0_conv)?)

lemma decode_ppp_ip6cp_safe:
  assumes "unat len \<le> length buf"
  shows "decode_ppp_ip6cp buf len sp_len \<noteq> None"
  using assms unfolding runs_False [symmetric] decode_ppp_ip6cp_def
  by (intro runs_intros; (simp add: runs_arith opt_loop_runs [OF handlers_safe(1)] del: length_greater_0_conv)?)

lemma decode_ppp_ipcp_safe:
  assumes "unat len \<le> length buf"
  shows "decode_ppp_ipcp buf len sp_len \<noteq> None"
  using assms unfolding runs_False [symmetric] decode_ppp_ipcp_def
  by (intro runs_intros; (simp add: runs_arith opt_loop_runs [OF handlers_safe(2)] del: length_greater_0_conv)?)

lemma decode_ppp_lcp_safe:
  assumes "unat len \<le> length buf"
  shows "decode_ppp_lcp buf len sp_len \<noteq> None"
  using assms unfolding runs_False [symmetric] decode_ppp_lcp_def
  by (intro runs_intros; (simp add: runs_arith opt_loop_runs [OF handlers_safe(3)] del: length_greater_0_conv)?)

section \<open>Round trips\<close>

text \<open>
  A request carries name and password, a reply only its message. A reply without message is
  encoded without its length byte, which the decoder refuses.
\<close>

definition wf_pap :: "bbl_pap \<Rightarrow> bool" where
  "wf_pap pap \<longleftrightarrow>
     (if pap_code pap = PAP_CODE_REQUEST then
        (\<exists>u p. pap_username pap = Some u \<and> length u = unat (pap_username_len pap) \<and>
               pap_password pap = Some p \<and> length p = unat (pap_password_len pap)) \<and>
        pap_reply_message pap = None \<and> pap_reply_message_len pap = 0
      else
        pap_username pap = None \<and> pap_username_len pap = 0 \<and> pap_password pap = None \<and> pap_password_len pap = 0 \<and>
        (\<exists>r. pap_reply_message pap = Some r \<and> r \<noteq> [] \<and> length r = unat (pap_reply_message_len pap)))"

lemma unat_of_nat_u16 [simp]: "n < 65536 \<Longrightarrow> unat (of_nat n :: u16) = n"
  by (simp add: unat_of_nat)

lemma w_be16_length [simp]: "length (w_be16 x) = 2" "length (w_ne32 y) = 4" "length (w_ne64 z) = 8"
  by (simp_all add: w_be16_def w_ne16_def w_ne32_def w_ne64_def)

lemma drop_header [simp]: "drop 4 (a # b # w_be16 x @ ys) = ys"
  by (simp add: w_be16_def numeral_eq_Suc)

lemma decode_pap_request:
  assumes "unat (len :: u16) = 6 + length u + length p" "unat n = length u" "unat m = length p" "sp_len \<ge> 56"
  shows "decode_ppp_pap (1 # i # w_be16 len @ n # u @ m # p) len sp_len =
    Some (Inr (zero_pap\<lparr>pap_code := 1, pap_identifier := i, pap_username := Some u, pap_username_len := n,
      pap_password := Some p, pap_password_len := m\<rparr>))"
  using assms by (simp add: decode_ppp_pap_def ld_range_def word_less_nat_alt word_le_nat_alt unat_sub_le)

lemma decode_pap_reply:
  assumes "unat (len :: u16) = 5 + length r" "unat n = length r" "r \<noteq> []" "c \<noteq> 1" "sp_len \<ge> 56"
  shows "decode_ppp_pap (c # i # w_be16 len @ n # r) len sp_len =
    Some (Inr (zero_pap\<lparr>pap_code := c, pap_identifier := i, pap_reply_message := Some r, pap_reply_message_len := n\<rparr>))"
  using assms by (auto simp: decode_ppp_pap_def Let_def ld_range_def word_less_nat_alt word_le_nat_alt unat_sub_le)

lemma pap_round_trip:
  assumes "wf_pap pap" "sp_len \<ge> 56" 
  shows "\<exists>bs. encode_ppp_pap pap = Some bs \<and> decode_ppp_pap bs (of_nat (length bs)) sp_len = Some (Inr pap)"
proof (cases "pap_code pap = 1")
  case True
  then obtain u p i n m where up: "length u = unat n" "length p = unat m"
      and pap: "pap = zero_pap\<lparr>pap_code := 1, pap_identifier := i, pap_username := Some u, pap_username_len := n,
        pap_password := Some p, pap_password_len := m\<rparr>"
    using assms by (cases pap) (auto simp: wf_pap_def zero_pap_def)
  define l :: u16 where "l = of_nat (6 + length u + length p)"
  have l: "unat l = 6 + length u + length p"
    unfolding l_def using up unat_u8_less [of n] unat_u8_less [of m] by (intro unat_of_nat_u16) simp
  have "encode_ppp_pap pap = Some (1 # i # w_be16 l @ n # u @ m # p)"
    using up by (simp add: pap encode_ppp_pap_def w_counted_def ld_range_def zero_pap_def l_def ac_simps)
  moreover have "of_nat (length (1 # i # w_be16 l @ n # u @ m # p)) = l"
    by (simp add: l_def)
  ultimately show ?thesis
    using decode_pap_request [OF l up [symmetric] assms(2)] pap by metis
next
  case False
  then obtain r c i n where r: "length r = unat n" "r \<noteq> []" "c \<noteq> 1"
      and pap: "pap = zero_pap\<lparr>pap_code := c, pap_identifier := i, pap_reply_message := Some r, pap_reply_message_len := n\<rparr>"
    using assms by (cases pap) (auto simp: wf_pap_def zero_pap_def)
  define l :: u16 where "l = of_nat (5 + length r)"
  have l: "unat l = 5 + length r"
    unfolding l_def using r unat_u8_less [of n] by (intro unat_of_nat_u16) simp
  have "encode_ppp_pap pap = Some (c # i # w_be16 l @ n # r)"
    using r by (simp add: pap encode_ppp_pap_def w_counted_def ld_range_def zero_pap_def l_def ac_simps)
  moreover have "of_nat (length (c # i # w_be16 l @ n # r)) = l"
    by (simp add: l_def)
  ultimately show ?thesis
    using decode_pap_reply [OF l r(1) [symmetric] r(2,3) assms(2)] pap by metis
qed

text \<open>Bytes a pointer and a length stand for.\<close>

definition counted :: "u8 list option \<Rightarrow> u8 \<Rightarrow> bool" where
  "counted ptr n \<longleftrightarrow> (case ptr of None \<Rightarrow> n = 0 | Some bs \<Rightarrow> length bs = unat n)"

definition bytes_of :: "u8 list option \<Rightarrow> u8 list" where
  "bytes_of ptr = (case ptr of None \<Rightarrow> [] | Some bs \<Rightarrow> bs)"

text \<open>A challenge is decoded without the name behind it; any other message as reply.\<close>

definition wf_chap :: "bbl_chap \<Rightarrow> bool" where
  "wf_chap chap \<longleftrightarrow>
     counted (chap_challenge chap) (chap_challenge_len chap) \<and> counted (chap_name chap) (chap_name_len chap) \<and>
     counted (chap_reply_message chap) (chap_reply_message_len chap) \<and>
     (if chap_code chap = CHAP_CODE_CHALLENGE then chap_challenge chap \<noteq> None
      else chap_challenge chap = None \<and> chap_name chap = None)"

definition view_chap :: "bbl_chap \<Rightarrow> u8 \<times> u8 \<times> u8 list" where
  "view_chap chap = (chap_code chap, chap_identifier chap,
     if chap_code chap = CHAP_CODE_CHALLENGE then bytes_of (chap_challenge chap) else bytes_of (chap_reply_message chap))"

lemma counted_bytes: "counted ptr n \<Longrightarrow> w_bytes ptr n = Some (bytes_of ptr)" "counted ptr n \<Longrightarrow> length (bytes_of ptr) = unat n"
  by (auto simp: counted_def w_bytes_def bytes_of_def ld_range_def split: option.splits)

lemma w_bytes_None: "w_bytes None n = Some []"
  by (simp add: w_bytes_def)

lemma counted_less: "counted ptr n \<Longrightarrow> length (bytes_of ptr) < 256"
  by (simp add: counted_bytes unat_u8_less)

lemma decode_chap_challenge:
  assumes "unat (len :: u16) = 5 + length c + length rest" "unat n = length c" "sp_len \<ge> 56"
  shows "decode_ppp_chap (1 # i # w_be16 len @ n # c @ rest) len sp_len =
    Some (Inr (zero_chap\<lparr>chap_code := 1, chap_identifier := i, chap_challenge := Some c, chap_challenge_len := n\<rparr>))"
  using assms by (simp add: decode_ppp_chap_def ld_range_def word_less_nat_alt word_le_nat_alt unat_sub_le)

lemma decode_chap_reply:
  assumes "unat (len :: u16) = 4 + length r" "length r < 256" "c \<noteq> 1" "sp_len \<ge> 56"
  shows "\<exists>chap. decode_ppp_chap (c # i # w_be16 len @ r) len sp_len = Some (Inr chap) \<and> view_chap chap = (c, i, r)"
proof -
  have n: "unat (ucast (len - 4) :: u8) = length r"
    using assms by (simp add: unsigned_ucast_eq take_bit_eq_mod unat_sub_le word_le_nat_alt)
  then have "ucast (len - 4) = (0 :: u8) \<longleftrightarrow> r = []"
    by (metis length_0_conv unat_eq_0)
  then show ?thesis
    using assms n
    by (auto simp: decode_ppp_chap_def Let_def ld_range_def view_chap_def bytes_of_def zero_chap_def
        word_less_nat_alt word_le_nat_alt unat_sub_le)
qed

lemma chap_round_trip:
  assumes "wf_chap chap" "sp_len \<ge> 56"
  shows "\<exists>bs y. encode_ppp_chap chap = Some bs \<and> decode_ppp_chap bs (of_nat (length bs)) sp_len = Some (Inr y) \<and>
    view_chap y = view_chap chap"
proof -
  let ?i = "chap_identifier chap" and ?r = "bytes_of (chap_reply_message chap)"
  have len: "length (bytes_of (chap_name chap)) < 256" "length ?r < 256"
    "length (bytes_of (chap_challenge chap)) < 256"
    using assms(1) by (auto simp: wf_chap_def intro: counted_less)
  show ?thesis
  proof (cases "chap_code chap = 1")
    case True
    obtain c n where c: "chap_challenge chap = Some c" "chap_challenge_len chap = n" "length c = unat n"
      using assms True by (auto simp: wf_chap_def counted_def)
    let ?rest = "bytes_of (chap_name chap) @ ?r"
    define l :: u16 where "l = of_nat (5 + length c + length ?rest)"
    have l: "unat l = 5 + length c + length ?rest"
      unfolding l_def using len c by (intro unat_of_nat_u16) (simp add: bytes_of_def)
    have "encode_ppp_chap chap = Some (1 # ?i # w_be16 l @ n # c @ ?rest)"
      using assms True c by (simp add: wf_chap_def encode_ppp_chap_def counted_bytes w_counted_def ld_range_def l_def ac_simps)
    moreover have "of_nat (length (1 # ?i # w_be16 l @ n # c @ ?rest)) = l"
      by (simp add: l_def)
    moreover have "view_chap (zero_chap\<lparr>chap_code := 1, chap_identifier := ?i, chap_challenge := Some c, chap_challenge_len := n\<rparr>) = view_chap chap"
      using True c by (simp add: view_chap_def bytes_of_def)
    ultimately show ?thesis
      using decode_chap_challenge [OF l c(3) [symmetric] assms(2)] by metis
  next
    case False
    define l :: u16 where "l = of_nat (4 + length ?r)"
    have l: "unat l = 4 + length ?r"
      unfolding l_def using len by (intro unat_of_nat_u16) simp
    have "encode_ppp_chap chap = Some (chap_code chap # ?i # w_be16 l @ ?r)"
      using assms False by (simp add: wf_chap_def encode_ppp_chap_def counted_bytes w_counted_def w_bytes_None l_def)
    moreover have "of_nat (length (chap_code chap # ?i # w_be16 l @ ?r)) = l"
      by (simp add: l_def)
    moreover have "view_chap chap = (chap_code chap, ?i, ?r)"
      using False by (simp add: view_chap_def)
    ultimately show ?thesis
      using decode_chap_reply [OF l len(2) False assms(2)] by metis
  qed
qed

text \<open>The loop over the options \<open>bs\<close> in front of a padding.\<close>

definition opt_run :: "(u8 \<Rightarrow> u8 \<Rightarrow> u16 \<Rightarrow> u8 list \<Rightarrow> u8 list \<Rightarrow> 's \<Rightarrow> 's decoded) \<Rightarrow>
    u8 list \<Rightarrow> u8 list \<Rightarrow> 's \<Rightarrow> 's decoded" where
  "opt_run h pad bs s = opt_loop h (bs @ pad) (of_nat (length bs)) s"

lemma opt_run_Nil [simp]: "opt_run h pad [] s = Some (Inr s)"
  by (simp add: opt_run_def opt_loop_stop)

lemma opt_run_option:
  assumes "length data + length rest + 2 < 65536" "unat n = 2 + length data"
  shows "opt_run h pad (t # n # data @ rest) s =
    (case h t (n - 2) (of_nat (length data + length rest)) (data @ rest @ pad) (t # n # data @ rest @ pad) s of
       None \<Rightarrow> None | Some (Inl e) \<Rightarrow> Some (Inl e) | Some (Inr s) \<Rightarrow> opt_run h pad rest s)"
proof -
  let ?len = "of_nat (length data + length rest + 2) :: u16"
  have n: "unat (n - 2) = length data"
    using assms(2) by (simp add: unat_sub_le word_le_nat_alt)
  have len: "?len - 2 = of_nat (length data + length rest)" "unat ?len = length data + length rest + 2"
    using assms(1) unat_of_nat_u16 [of "length data + length rest + 2"] by simp_all
  moreover have "ucast (n - 2) = (of_nat (length data) :: u16)"
    using n by (metis of_nat_unat)
  ultimately have rest: "?len - 2 - ucast (n - 2) = of_nat (length rest)" "drop (length data) (data @ rest @ pad) = rest @ pad"
    by simp_all
  have "unat (?len - 2) = length data + length rest"
    unfolding len using assms(1) by (intro unat_of_nat_u16) simp
  then have "\<not> ucast (n - 2) > ?len - 2" "\<not> ?len < 2" "\<not> n < 2"
    unfolding word_less_nat_alt len(2) using n assms(2) by simp_all
  from opt_loop_step [OF this(2,3,1), of h t "data @ rest @ pad" s, unfolded n rest]
  have "opt_loop h (t # n # data @ rest @ pad) ?len s =
    (case h t (n - 2) (of_nat (length data + length rest)) (data @ rest @ pad) (t # n # data @ rest @ pad) s of
       None \<Rightarrow> None | Some (Inl e) \<Rightarrow> Some (Inl e) | Some (Inr s) \<Rightarrow> opt_run h pad rest s)"
    unfolding len(1) opt_run_def .
  moreover have "?len = of_nat (length (t # n # data @ rest))" by simp
  ultimately show ?thesis unfolding opt_run_def by simp
qed

lemma ipcp_run:
  assumes "length rest < 256"
  shows "opt_run ipcp_handle pad (3 # 6 # w_ne32 v @ rest) s =
      opt_run ipcp_handle pad rest (s\<lparr>ipcp_option_address := True, ipcp_address := v\<rparr>)"
    and "opt_run ipcp_handle pad (129 # 6 # w_ne32 v @ rest) s =
      opt_run ipcp_handle pad rest (s\<lparr>ipcp_option_dns1 := True, ipcp_dns1 := v\<rparr>)"
    and "opt_run ipcp_handle pad (131 # 6 # w_ne32 v @ rest) s =
      opt_run ipcp_handle pad rest (s\<lparr>ipcp_option_dns2 := True, ipcp_dns2 := v\<rparr>)"
  using assms by (subst opt_run_option; simp add: ipcp_handle_def)+

lemma ip6cp_run:
  "opt_run ip6cp_handle pad (1 # 10 # w_ne64 v) s = Some (Inr (s\<lparr>ip6cp_ipv6_identifier := v\<rparr>))"
  using opt_run_option [of "w_ne64 v" "[]" 10 ip6cp_handle pad 1 s] by (simp add: ip6cp_handle_def)

lemma lcp_run:
  assumes "length rest < 256" "length (lcp_option s) < 8"
  shows "opt_run lcp_handle pad (1 # 4 # w_be16 v @ rest) s =
      opt_run lcp_handle pad rest (s\<lparr>lcp_option := lcp_option s @ [1 # 4 # w_be16 v @ rest @ pad], lcp_mru := v\<rparr>)"
    and "opt_run lcp_handle pad (3 # 4 # w_be16 v @ rest) s =
      opt_run lcp_handle pad rest (s\<lparr>lcp_option := lcp_option s @ [3 # 4 # w_be16 v @ rest @ pad], lcp_auth := v\<rparr>)"
    and "opt_run lcp_handle pad (5 # 6 # w_ne32 m @ rest) s =
      opt_run lcp_handle pad rest (s\<lparr>lcp_option := lcp_option s @ [5 # 6 # w_ne32 m @ rest @ pad], lcp_magic := m\<rparr>)"
proof -
  have l: "\<not> of_nat (2 + length rest) < (2 :: u16)" "\<not> of_nat (4 + length rest) < (4 :: u16)"
    using assms(1) unat_of_nat_u16 [of "2 + length rest"] unat_of_nat_u16 [of "4 + length rest"]
    by (simp_all add: word_less_nat_alt)
  show "opt_run lcp_handle pad (1 # 4 # w_be16 v @ rest) s =
      opt_run lcp_handle pad rest (s\<lparr>lcp_option := lcp_option s @ [1 # 4 # w_be16 v @ rest @ pad], lcp_mru := v\<rparr>)"
    "opt_run lcp_handle pad (3 # 4 # w_be16 v @ rest) s =
      opt_run lcp_handle pad rest (s\<lparr>lcp_option := lcp_option s @ [3 # 4 # w_be16 v @ rest @ pad], lcp_auth := v\<rparr>)"
    "opt_run lcp_handle pad (5 # 6 # w_ne32 m @ rest) s =
      opt_run lcp_handle pad rest (s\<lparr>lcp_option := lcp_option s @ [5 # 6 # w_ne32 m @ rest @ pad], lcp_magic := m\<rparr>)"
    using assms l by (subst opt_run_option; simp add: lcp_handle_def Let_def)+
qed

text \<open>Without options of its own the encoder constructs them from the fields.\<close>

definition no_options :: "u8 list option \<Rightarrow> u8 \<Rightarrow> bool" where
  "no_options ptr n \<longleftrightarrow> ptr = None \<or> n = 0"

definition wf_ip6cp :: "bbl_ip6cp \<Rightarrow> bool" where
  "wf_ip6cp x \<longleftrightarrow> ip6cp_code x \<in> {1, 2, 3} \<and> no_options (ip6cp_options x) (ip6cp_options_len x)"

definition view_ip6cp :: "bbl_ip6cp \<Rightarrow> u8 \<times> u8 \<times> u64" where
  "view_ip6cp x = (ip6cp_code x, ip6cp_identifier x, ip6cp_ipv6_identifier x)"

definition wf_ipcp :: "bbl_ipcp \<Rightarrow> bool" where
  "wf_ipcp x \<longleftrightarrow> ipcp_code x \<in> {1, 2, 3, 4} \<and> no_options (ipcp_options x) (ipcp_options_len x)"

definition flagged :: "bool \<Rightarrow> 'a \<Rightarrow> 'a option" where
  "flagged b x = (if b then Some x else None)"

definition view_ipcp :: "bbl_ipcp \<Rightarrow> u8 \<times> u8 \<times> u32 option \<times> u32 option \<times> u32 option" where
  "view_ipcp x = (ipcp_code x, ipcp_identifier x, flagged (ipcp_option_address x) (ipcp_address x),
     flagged (ipcp_option_dns1 x) (ipcp_dns1 x), flagged (ipcp_option_dns2 x) (ipcp_dns2 x))"

lemma header_len:
  assumes "length opts < 256"
  shows "unat (of_nat (4 + length opts) :: u16) = 4 + length opts" "of_nat (4 + length opts) - 4 = (of_nat (length opts) :: u16)"
  using assms unat_of_nat_u16 [of "4 + length opts"] by simp_all

lemma ucast_of_nat_small [simp]: "n < 256 \<Longrightarrow> ucast (of_nat n :: u16) = (of_nat n :: u8)"
  by (simp add: word_unat_eq_iff unsigned_ucast_eq take_bit_eq_mod unat_of_nat)

lemma header_checks:
  fixes l :: u16
  assumes "length opts < 256" "l = of_nat (4 + length opts)"
  shows "\<not> l < 4" "l - 4 = of_nat (length opts)" "unat l = 4 + length opts"
  using assms header_len [of opts] by (simp_all add: word_less_nat_alt)

lemma decode_ip6cp_conf:
  assumes "c \<in> {1, 2, 3}" "length opts < 256" "sp_len \<ge> 40" "l = of_nat (4 + length opts)"
  shows "decode_ppp_ip6cp (c # i # w_be16 l @ opts) l sp_len =
    opt_run ip6cp_handle [] opts
      \<lparr>ip6cp_code = c, ip6cp_identifier = i, ip6cp_options = Some opts, ip6cp_options_len = of_nat (length opts),
       ip6cp_ipv6_identifier = 0, ip6cp_unknown_options = False\<rparr>"
  using assms(1-3) header_checks [OF assms(2,4)]
  by (auto simp: decode_ppp_ip6cp_def opt_run_def)

lemma decode_ipcp_conf:
  assumes "c \<in> {1, 2, 3, 4}" "length opts < 256" "sp_len \<ge> 40" "l = of_nat (4 + length opts)"
  shows "decode_ppp_ipcp (c # i # w_be16 l @ opts) l sp_len =
    opt_run ipcp_handle [] opts
      \<lparr>ipcp_code = c, ipcp_identifier = i, ipcp_options = Some opts, ipcp_options_len = of_nat (length opts),
       ipcp_address = 0, ipcp_dns1 = 0, ipcp_dns2 = 0, ipcp_option_address = False, ipcp_option_dns1 = False,
       ipcp_option_dns2 = False, ipcp_unknown_options = False\<rparr>"
  using assms(1-3) header_checks [OF assms(2,4)]
  by (auto simp: decode_ppp_ipcp_def opt_run_def)

lemma encode_ip6cp_none:
  assumes "wf_ip6cp x"
  shows "encode_ppp_ip6cp x = Some (ip6cp_code x # ip6cp_identifier x # w_be16 14 @ 1 # 10 # w_ne64 (ip6cp_ipv6_identifier x))"
  using assms by (auto simp: wf_ip6cp_def no_options_def encode_ppp_ip6cp_def split: option.split)

lemma ip6cp_round_trip:
  assumes "wf_ip6cp x" "sp_len \<ge> 40"
  shows "\<exists>bs y. encode_ppp_ip6cp x = Some bs \<and> decode_ppp_ip6cp bs (of_nat (length bs)) sp_len = Some (Inr y) \<and>
    view_ip6cp y = view_ip6cp x"
  using assms decode_ip6cp_conf [of "ip6cp_code x" "1 # 10 # w_ne64 (ip6cp_ipv6_identifier x)" sp_len 14 "ip6cp_identifier x"]
  by (simp add: encode_ip6cp_none wf_ip6cp_def ip6cp_run view_ip6cp_def)

lemma ipcp_construct_length: "length (ipcp_construct x) < 256"
  by (simp add: ipcp_construct_def)

lemma encode_ipcp_none:
  assumes "wf_ipcp x"
  shows "encode_ppp_ipcp x = Some (ipcp_code x # ipcp_identifier x # w_be16 (of_nat (4 + length (ipcp_construct x))) @ ipcp_construct x)"
  using assms by (auto simp: wf_ipcp_def no_options_def encode_ppp_ipcp_def split: option.split)

lemma ipcp_construct_run:
  assumes "\<not> ipcp_option_address s" "\<not> ipcp_option_dns1 s" "\<not> ipcp_option_dns2 s"
    "ipcp_code s = ipcp_code x" "ipcp_identifier s = ipcp_identifier x"
  shows "\<exists>y. opt_run ipcp_handle [] (ipcp_construct x) s = Some (Inr y) \<and> view_ipcp y = view_ipcp x"
  using assms ipcp_run [of "[]", simplified]
  by (auto simp: ipcp_construct_def ipcp_run flagged_def view_ipcp_def)

lemma ipcp_round_trip:
  assumes "wf_ipcp x" "sp_len \<ge> 40"
  shows "\<exists>bs y. encode_ppp_ipcp x = Some bs \<and> decode_ppp_ipcp bs (of_nat (length bs)) sp_len = Some (Inr y) \<and>
    view_ipcp y = view_ipcp x"
proof -
  let ?o = "ipcp_construct x"
  define l :: u16 where "l = of_nat (4 + length ?o)"
  have "of_nat (length (ipcp_code x # ipcp_identifier x # w_be16 l @ ?o)) = l"
    by (simp add: l_def)
  moreover have c: "ipcp_code x \<in> {1, 2, 3, 4}" using assms(1) by (simp add: wf_ipcp_def)
  have "\<exists>y. decode_ppp_ipcp (ipcp_code x # ipcp_identifier x # w_be16 l @ ?o) l sp_len = Some (Inr y) \<and> view_ipcp y = view_ipcp x"
    unfolding decode_ipcp_conf [OF c ipcp_construct_length assms(2) l_def] by (rule ipcp_construct_run) simp_all
  ultimately show ?thesis
    using encode_ipcp_none [OF assms(1), folded l_def] by metis
qed

text \<open>
  LCP: echo messages carry the magic number, configuration messages their options. The padding
  behind the message is whatever the buffer held before, and is not part of the message.
\<close>

definition lcp_echo :: "bbl_lcp \<Rightarrow> bool" where
  "lcp_echo x \<longleftrightarrow> lcp_code x = PPP_CODE_ECHO_REQUEST \<or> lcp_code x = PPP_CODE_ECHO_REPLY"

definition wf_lcp :: "u8 list \<Rightarrow> bbl_lcp \<Rightarrow> bool" where
  "wf_lcp old x \<longleftrightarrow>
     (lcp_echo x \<or> lcp_code x \<in> {1, 2, 3} \<and> no_options (lcp_options x) (lcp_options_len x)) \<and>
     18 + unat (lcp_padding x) \<le> length old \<and> 18 + unat (lcp_padding x) < 65536"

definition view_lcp :: "bbl_lcp \<Rightarrow> u8 \<times> u8 \<times> u16 \<times> u16 \<times> u32" where
  "view_lcp x = (lcp_code x, lcp_identifier x, if lcp_echo x then 0 else lcp_mru x,
     if lcp_echo x then 0 else lcp_auth x, lcp_magic x)"

definition lcp_init :: "u8 \<Rightarrow> u8 \<Rightarrow> u8 list \<Rightarrow> u16 \<Rightarrow> u8 list \<Rightarrow> u16 \<Rightarrow> bbl_lcp" where
  "lcp_init c i opts n start len =
    \<lparr>lcp_code = c, lcp_identifier = i, lcp_options = Some opts,
     lcp_options_len = ucast n, lcp_mru = 0, lcp_auth = 0, lcp_protocol = 0, lcp_magic = 0,
     lcp_vendor_oui = [0, 0, 0], lcp_vendor_kind = 0, lcp_vendor_value = None,
     lcp_vendor_value_len = 0, lcp_start = Some start, lcp_len = len, lcp_padding = 0,
     lcp_option = [], lcp_unknown_options = False\<rparr>"

lemma lcp_init_sel [simp]:
  "lcp_code (lcp_init c i opts n start len) = c" "lcp_identifier (lcp_init c i opts n start len) = i"
  "lcp_mru (lcp_init c i opts n start len) = 0" "lcp_auth (lcp_init c i opts n start len) = 0"
  "lcp_magic (lcp_init c i opts n start len) = 0" "lcp_padding (lcp_init c i opts n start len) = 0"
  "lcp_options (lcp_init c i opts n start len) = Some opts" "lcp_options_len (lcp_init c i opts n start len) = ucast n"
  "lcp_option (lcp_init c i opts n start len) = []"
  by (simp_all add: lcp_init_def)

text \<open>The options may be followed by padding.\<close>

lemma decode_lcp_conf:
  assumes "c \<in> {1, 2, 3}" "length opts < 256" "sp_len \<ge> 136" "l = of_nat (4 + length opts)"
    "unat len = 4 + length opts + length pad"
  shows "decode_ppp_lcp (c # i # w_be16 l @ opts @ pad) len sp_len =
    opt_run lcp_handle pad opts (lcp_init c i (opts @ pad) (l - 4) (c # i # w_be16 l @ opts @ pad) len)"
proof -
  have "\<not> len < 4" "\<not> l - 4 > len - 4"
    using assms header_checks [OF assms(2,4)] by (simp_all add: word_less_nat_alt unat_sub_le word_le_nat_alt)
  then show ?thesis
    using assms(1,3) header_checks [OF assms(2,4)]
    by (auto simp: decode_ppp_lcp_def lcp_init_def opt_run_def Let_def)
qed

lemma decode_lcp_echo:
  assumes "c = 9 \<or> c = 10" "sp_len \<ge> 136" "unat len = 8 + length pad"
  shows "decode_ppp_lcp (c # i # w_be16 8 @ w_ne32 m @ pad) len sp_len =
    Some (Inr ((lcp_init c i (w_ne32 m @ pad) 4 (c # i # w_be16 8 @ w_ne32 m @ pad) len)\<lparr>lcp_magic := m\<rparr>))"
proof -
  have "\<not> len < 4" "\<not> 4 > len - 4"
    using assms by (simp_all add: word_less_nat_alt unat_sub_le word_le_nat_alt)
  then show ?thesis
    using assms(1,2) by (auto simp: decode_ppp_lcp_def lcp_init_def Let_def)
qed

lemma lcp_construct_run:
  assumes "lcp_mru s = 0" "lcp_auth s = 0" "lcp_magic s = 0" "lcp_option s = []"
    "lcp_code s = lcp_code x" "lcp_identifier s = lcp_identifier x"
  shows "\<exists>y. opt_run lcp_handle pad (lcp_construct x) s = Some (Inr y) \<and> view_lcp y = view_lcp x"
  using assms lcp_run [of "[]", simplified]
  by (auto simp: lcp_construct_def lcp_run view_lcp_def lcp_echo_def)

definition lcp_body :: "bbl_lcp \<Rightarrow> u8 list" where
  "lcp_body x = (if lcp_echo x then w_ne32 (lcp_magic x) else lcp_construct x)"

lemma lcp_body_length: "length (lcp_body x) \<le> 14"
  by (simp add: lcp_body_def lcp_construct_def)

lemma encode_lcp_none:
  assumes "wf_lcp old x"
  shows "\<exists>pad. encode_ppp_lcp old x =
      Some (lcp_code x # lcp_identifier x # w_be16 (of_nat (4 + length (lcp_body x))) @ lcp_body x @ pad) \<and>
    length pad = unat (lcp_padding x)"
proof -
  let ?pdu = "[lcp_code x, lcp_identifier x] @ w_be16 (of_nat (4 + length (lcp_body x))) @ lcp_body x"
  let ?pad = "take (unat (lcp_padding x)) (drop (length ?pdu) old)"
  have room: "length ?pdu + unat (lcp_padding x) \<le> length old"
    using assms lcp_body_length [of x] by (simp add: wf_lcp_def)
  have "encode_ppp_lcp old x = Some (?pdu @ ?pad)"
    using assms room
    by (auto simp: encode_ppp_lcp_def wf_lcp_def lcp_body_def lcp_echo_def no_options_def ld_range_def Let_def split: option.split)
  moreover have "length ?pad = unat (lcp_padding x)" using room by simp
  ultimately show ?thesis by auto
qed

lemma decode_lcp_body:
  assumes "wf_lcp old x" "sp_len \<ge> 136" "unat len = 4 + length (lcp_body x) + length pad"
  shows "\<exists>y. decode_ppp_lcp (lcp_code x # lcp_identifier x # w_be16 (of_nat (4 + length (lcp_body x))) @ lcp_body x @ pad) len sp_len =
    Some (Inr y) \<and> view_lcp y = view_lcp x"
proof (cases "lcp_echo x")
  case True
  then show ?thesis
    using assms decode_lcp_echo [of "lcp_code x" sp_len len pad "lcp_identifier x" "lcp_magic x"]
    by (simp add: lcp_body_def view_lcp_def lcp_echo_def)
next
  case False
  then have "lcp_code x \<in> {1, 2, 3}" "length (lcp_construct x) < 256" "lcp_body x = lcp_construct x"
    using assms lcp_body_length [of x] by (auto simp: wf_lcp_def lcp_body_def)
  with decode_lcp_conf [OF this(1,2) assms(2) refl, of len pad "lcp_identifier x"] assms(3)
  show ?thesis by (simp add: lcp_construct_run)
qed

lemma lcp_round_trip:
  assumes "wf_lcp old x" "sp_len \<ge> 136"
  shows "\<exists>bs y. encode_ppp_lcp old x = Some bs \<and> decode_ppp_lcp bs (of_nat (length bs)) sp_len = Some (Inr y) \<and>
    view_lcp y = view_lcp x"
proof -
  obtain pad where e: "encode_ppp_lcp old x =
      Some (lcp_code x # lcp_identifier x # w_be16 (of_nat (4 + length (lcp_body x))) @ lcp_body x @ pad)" (is "_ = Some ?bs")
    and pad: "length pad = unat (lcp_padding x)"
    using encode_lcp_none [OF assms(1)] by blast
  have "unat (of_nat (length ?bs) :: u16) = 4 + length (lcp_body x) + length pad"
    using assms(1) lcp_body_length [of x] pad by (subst unat_of_nat_u16) (auto simp: wf_lcp_def)
  from decode_lcp_body [OF assms this] e show ?thesis by blast
qed

section \<open>Acknowledging options\<close>

text \<open>
  To acknowledge or reject a configuration the program changes the code of the decoded structure
  and encodes it again, which copies the options from the received packet.
\<close>

lemma opt_loop_preserves:
  assumes "opt_loop h buf len s = Some (Inr s')"
    and "\<And>t n len data start s s'. h t n len data start s = Some (Inr s') \<Longrightarrow> f s' = f s"
  shows "f s' = f s"
  using assms
proof (induction h buf len s rule: opt_loop.induct)
  case (1 h buf len s)
  show ?case
  proof (cases "len < 2")
    case False
    then obtain t n s1 where r: "rd8 buf = Some t" "rd8 (drop 1 buf) = Some n" "\<not> n < 2" "\<not> ucast (n - 2) > len - 2"
        "h t (n - 2) (len - 2) (drop 2 buf) buf s = Some (Inr s1)"
        "opt_loop h (drop (unat (n - 2)) (drop 2 buf)) (len - 2 - ucast (n - 2)) s1 = Some (Inr s')"
      using "1.prems"(1) by (subst (asm) opt_loop.simps) (auto split: if_splits option.splits sum.splits)
    then have "f s' = f s1"
      using "1.IH" [OF False r(1-4) r(5) refl] "1.prems"(2) by blast
    with "1.prems"(2) [OF r(5)] show ?thesis by simp
  qed (use "1.prems"(1) in \<open>simp add: opt_loop_stop\<close>)
qed

lemma ipcp_loop_frame:
  assumes "opt_loop ipcp_handle buf len s = Some (Inr s')"
  shows "ipcp_identifier s' = ipcp_identifier s \<and> ipcp_options s' = ipcp_options s \<and> ipcp_options_len s' = ipcp_options_len s"
proof -
  let ?f = "\<lambda>s. (ipcp_identifier s, ipcp_options s, ipcp_options_len s)"
  have "?f s' = ?f s"
    by (rule opt_loop_preserves [OF assms]) (auto simp: ipcp_handle_def Let_def split: if_splits bind_splits)
  then show ?thesis by simp
qed

lemma ip6cp_loop_frame:
  assumes "opt_loop ip6cp_handle buf len s = Some (Inr s')"
  shows "ip6cp_identifier s' = ip6cp_identifier s \<and> ip6cp_options s' = ip6cp_options s \<and> ip6cp_options_len s' = ip6cp_options_len s"
proof -
  let ?f = "\<lambda>s. (ip6cp_identifier s, ip6cp_options s, ip6cp_options_len s)"
  have "?f s' = ?f s"
    by (rule opt_loop_preserves [OF assms]) (auto simp: ip6cp_handle_def Let_def split: if_splits bind_splits)
  then show ?thesis by simp
qed

lemma lcp_loop_frame:
  assumes "opt_loop lcp_handle buf len s = Some (Inr s')"
  shows "lcp_identifier s' = lcp_identifier s \<and> lcp_options s' = lcp_options s \<and> lcp_options_len s' = lcp_options_len s \<and> lcp_padding s' = lcp_padding s"
proof -
  let ?f = "\<lambda>s. (lcp_identifier s, lcp_options s, lcp_options_len s, lcp_padding s)"
  have "?f s' = ?f s"
    by (rule opt_loop_preserves [OF assms]) (auto simp: lcp_handle_def Let_def split: if_splits bind_splits)
  then show ?thesis by simp
qed

lemma decode_ipcp_options:
  assumes "decode_ppp_ipcp (c # i # w_be16 n @ rest) len sp_len = Some (Inr x)"
  shows "ipcp_identifier x = i \<and> ipcp_options x = Some rest \<and> ipcp_options_len x = ucast (n - 4) \<and> 4 \<le> n \<and> n - 4 \<le> len - 4"
  using assms
  by (auto simp: decode_ppp_ipcp_def Let_def not_less dest!: ipcp_loop_frame split: if_splits)

lemma decode_ip6cp_options:
  assumes "decode_ppp_ip6cp (c # i # w_be16 n @ rest) len sp_len = Some (Inr x)"
  shows "ip6cp_identifier x = i \<and> ip6cp_options x = Some rest \<and> ip6cp_options_len x = ucast (n - 4) \<and> 4 \<le> n \<and> n - 4 \<le> len - 4"
  using assms
  by (auto simp: decode_ppp_ip6cp_def Let_def not_less dest!: ip6cp_loop_frame split: if_splits)

lemma decode_lcp_options:
  assumes "decode_ppp_lcp (c # i # w_be16 n @ rest) len sp_len = Some (Inr x)"
  shows "lcp_identifier x = i \<and> lcp_options x = Some rest \<and> lcp_options_len x = ucast (n - 4) \<and> lcp_padding x = 0 \<and> 4 \<le> n \<and> n - 4 \<le> len - 4"
  using assms
  by (auto simp: decode_ppp_lcp_def Let_def not_less dest!: lcp_loop_frame split: if_splits bind_splits)

lemma options_len:
  fixes n :: u16
  assumes "4 < n" "n \<le> 259" "unat n \<le> 4 + length rest"
  shows "unat (ucast (n - 4) :: u8) = unat n - 4" "ucast (n - 4) \<noteq> (0 :: u8)"
    "of_nat (4 + length (take (unat n - 4) rest)) = n" "ucast (ucast (n - 4) :: u8) + 4 = n"
    "ld_range rest 0 (unat n - 4) = Some (take (unat n - 4) rest)"
proof -
  have n: "unat (n - 4) = unat n - 4" "unat n \<le> 259" "4 < unat n"
    using assms unat_sub_le [of 4 n] by (simp_all add: word_le_nat_alt word_less_nat_alt)
  then show u: "unat (ucast (n - 4) :: u8) = unat n - 4"
    by (simp add: unsigned_ucast_eq take_bit_eq_mod)
  then show "ucast (n - 4) \<noteq> (0 :: u8)" using n by (metis diff_is_0_eq not_le unat_0)
  show "of_nat (4 + length (take (unat n - 4) rest)) = n"
    using n assms by (simp add: word_unat_eq_iff unat_of_nat take_bit_eq_mod)
  have "ucast (ucast (n - 4) :: u8) = n - 4"
    using u n by (simp add: word_unat_eq_iff)
  then show "ucast (ucast (n - 4) :: u8) + 4 = n" by simp
  show "ld_range rest 0 (unat n - 4) = Some (take (unat n - 4) rest)"
    using assms by (simp add: ld_range_def)
qed

lemma ipcp_echo:
  assumes "decode_ppp_ipcp (c # i # w_be16 n @ rest) len sp_len = Some (Inr x)"
    and "4 < n" "n \<le> 259" "unat n \<le> 4 + length rest"
  shows "encode_ppp_ipcp (x\<lparr>ipcp_code := c'\<rparr>) = Some (c' # i # w_be16 n @ take (unat n - 4) rest)"
  using decode_ipcp_options [OF assms(1)] options_len [OF assms(2-4)]
  by (simp add: encode_ppp_ipcp_def)

lemma ip6cp_echo:
  assumes "decode_ppp_ip6cp (c # i # w_be16 n @ rest) len sp_len = Some (Inr x)"
    and "4 < n" "n \<le> 259" "unat n \<le> 4 + length rest"
  shows "encode_ppp_ip6cp (x\<lparr>ip6cp_code := c'\<rparr>) = Some (c' # i # w_be16 n @ take (unat n - 4) rest)"
  using decode_ip6cp_options [OF assms(1)] options_len [OF assms(2-4)]
  by (simp add: encode_ppp_ip6cp_def)

lemma lcp_echo_options:
  assumes "decode_ppp_lcp (c # i # w_be16 n @ rest) len sp_len = Some (Inr x)"
    and "4 < n" "n \<le> 259" "unat n \<le> 4 + length rest" "c' \<noteq> 9" "c' \<noteq> 10"
  shows "encode_ppp_lcp old (x\<lparr>lcp_code := c'\<rparr>) = Some (c' # i # w_be16 n @ take (unat n - 4) rest)"
  using decode_lcp_options [OF assms(1)] options_len [OF assms(2-4)] assms(5,6)
  by (simp add: encode_ppp_lcp_def)

section \<open>The codecs\<close>

abbreviation (input) SCRATCHPAD_LEN :: u16 where
  "SCRATCHPAD_LEN \<equiv> 4096"

interpretation pap_codec: packet_codec encode_ppp_pap "\<lambda>bs. decode_ppp_pap bs (of_nat (length bs)) SCRATCHPAD_LEN" wf_pap "\<lambda>x. x"
proof (unfold_locales, goal_cases)
  case (1 bs) then show ?case by (intro decode_ppp_pap_safe) simp
next
  case (2 x) then show ?case using pap_round_trip [of x 4096] by auto
qed

interpretation chap_codec: packet_codec encode_ppp_chap "\<lambda>bs. decode_ppp_chap bs (of_nat (length bs)) SCRATCHPAD_LEN" wf_chap view_chap
proof (unfold_locales, goal_cases)
  case (1 bs) then show ?case by (intro decode_ppp_chap_safe) simp
next
  case (2 x) then show ?case using chap_round_trip [of x 4096] by simp
qed

interpretation ip6cp_codec: packet_codec encode_ppp_ip6cp "\<lambda>bs. decode_ppp_ip6cp bs (of_nat (length bs)) SCRATCHPAD_LEN" wf_ip6cp view_ip6cp
proof (unfold_locales, goal_cases)
  case (1 bs) then show ?case by (intro decode_ppp_ip6cp_safe) simp
next
  case (2 x) then show ?case using ip6cp_round_trip [of x 4096] by simp
qed

interpretation ipcp_codec: packet_codec encode_ppp_ipcp "\<lambda>bs. decode_ppp_ipcp bs (of_nat (length bs)) SCRATCHPAD_LEN" wf_ipcp view_ipcp
proof (unfold_locales, goal_cases)
  case (1 bs) then show ?case by (intro decode_ppp_ipcp_safe) simp
next
  case (2 x) then show ?case using ipcp_round_trip [of x 4096] by simp
qed

interpretation lcp_codec: packet_codec "encode_ppp_lcp old" "\<lambda>bs. decode_ppp_lcp bs (of_nat (length bs)) SCRATCHPAD_LEN" "wf_lcp old" view_lcp
  for old
proof (unfold_locales, goal_cases)
  case (1 bs) then show ?case by (intro decode_ppp_lcp_safe) simp
next
  case (2 x) then show ?case using lcp_round_trip [of old x 4096] by simp
qed

section \<open>Properties\<close>

text \<open>C21. No decoder of the PPP control protocols reads behind the received data, whatever the
  data and its length fields are.\<close>
theorem ppp_decoders_safe:
  assumes "unat len \<le> length buf"
  shows "decode_ppp_pap buf len sp_len \<noteq> None \<and> decode_ppp_chap buf len sp_len \<noteq> None \<and>
    decode_ppp_ip6cp buf len sp_len \<noteq> None \<and> decode_ppp_ipcp buf len sp_len \<noteq> None \<and>
    decode_ppp_lcp buf len sp_len \<noteq> None"
  using assms decode_ppp_pap_safe decode_ppp_chap_safe decode_ppp_ip6cp_safe decode_ppp_ipcp_safe decode_ppp_lcp_safe
  by blast

theorem ppp_decoders_safe_witness:
  "unat (6 :: u16) \<le> length ([1, 7, 0, 255, 3, 200] :: u8 list) \<and> decode_ppp_lcp [1, 7, 0, 255, 3, 200] 6 4096 \<noteq> None"
  using ppp_decoders_safe [of 6 "[1, 7, 0, 255, 3, 200]" 4096] by simp


definition demo_pap :: bbl_pap where
  "demo_pap = \<lparr>pap_code = 1, pap_identifier = 9, pap_username = Some [117, 49], pap_username_len = 2,
     pap_password = Some [112], pap_password_len = 1, pap_reply_message = None, pap_reply_message_len = 0\<rparr>"


text \<open>C23. The network control protocols: the options constructed from the fields of an IPCP or IP6CP
  configuration message are decoded to the same addresses, and an option that was not sent is not
  received.\<close>
theorem ppp_ncp_round_trip:
  "(wf_ipcp x \<longrightarrow> (\<exists>bs y. encode_ppp_ipcp x = Some bs \<and>
      decode_ppp_ipcp bs (of_nat (length bs)) SCRATCHPAD_LEN = Some (Inr y) \<and> view_ipcp y = view_ipcp x)) \<and>
   (wf_ip6cp z \<longrightarrow> (\<exists>bs y. encode_ppp_ip6cp z = Some bs \<and>
      decode_ppp_ip6cp bs (of_nat (length bs)) SCRATCHPAD_LEN = Some (Inr y) \<and> view_ip6cp y = view_ip6cp z))"
  using ipcp_codec.dec_enc [of x] ip6cp_codec.dec_enc [of z] by blast

definition demo_ipcp :: bbl_ipcp where
  "demo_ipcp = \<lparr>ipcp_code = 1, ipcp_identifier = 3, ipcp_options = None, ipcp_options_len = 0,
     ipcp_address = 0x0100000a, ipcp_dns1 = 0, ipcp_dns2 = 0x35, ipcp_option_address = True,
     ipcp_option_dns1 = False, ipcp_option_dns2 = True, ipcp_unknown_options = False\<rparr>"

theorem ppp_ncp_round_trip_witness:
  "wf_ipcp demo_ipcp \<and> (\<exists>bs y. encode_ppp_ipcp demo_ipcp = Some bs \<and>
      decode_ppp_ipcp bs (of_nat (length bs)) SCRATCHPAD_LEN = Some (Inr y) \<and>
      view_ipcp y = (1, 3, Some 0x0100000a, None, Some 0x35))"
proof -
  have w: "wf_ipcp demo_ipcp" by (simp add: wf_ipcp_def demo_ipcp_def no_options_def)
  moreover have "view_ipcp demo_ipcp = (1, 3, Some 0x0100000a, None, Some 0x35)"
    by (simp add: view_ipcp_def demo_ipcp_def flagged_def)
  ultimately show ?thesis using ppp_ncp_round_trip [of demo_ipcp undefined] by auto
qed

text \<open>C24. LCP: decoding an encoded configuration or echo message gives code, identifier, MRU,
  authentication protocol and magic number back, also with the padding the encoder appends.\<close>
theorem ppp_lcp_round_trip:
  assumes "wf_lcp old x"
  shows "\<exists>bs y. encode_ppp_lcp old x = Some bs \<and>
    decode_ppp_lcp bs (of_nat (length bs)) SCRATCHPAD_LEN = Some (Inr y) \<and> view_lcp y = view_lcp x"
  using assms by (rule lcp_codec.dec_enc)

definition demo_lcp :: bbl_lcp where
  "demo_lcp = (lcp_init 1 5 [] 0 [] 0)\<lparr>lcp_mru := 1492, lcp_auth := 0xc023, lcp_magic := 7, lcp_padding := 4\<rparr>"

theorem ppp_lcp_round_trip_witness:
  "wf_lcp (replicate 64 0) demo_lcp \<and> (\<exists>bs y. encode_ppp_lcp (replicate 64 0) demo_lcp = Some bs \<and>
    decode_ppp_lcp bs (of_nat (length bs)) SCRATCHPAD_LEN = Some (Inr y) \<and> view_lcp y = (1, 5, 1492, 0xc023, 7))"
proof -
  have w: "wf_lcp (replicate 64 0) demo_lcp" by (simp add: wf_lcp_def demo_lcp_def no_options_def)
  moreover have "view_lcp demo_lcp = (1, 5, 1492, 0xc023, 7)"
    by (simp add: view_lcp_def demo_lcp_def lcp_echo_def)
  ultimately show ?thesis using ppp_lcp_round_trip [of "replicate 64 0" demo_lcp] by simp
qed

text \<open>C25. A configuration message with at most 255 bytes of options is acknowledged or rejected with
  exactly the options received, in the same order, and its identifier: changing the code of the decoded
  structure and encoding it again copies the message up to its length field.\<close>
theorem ppp_ack_echoes_options:
  assumes "4 < n" "n \<le> 259" "unat n \<le> 4 + length rest"
  shows "(decode_ppp_ipcp (c # i # w_be16 n @ rest) len sp_len = Some (Inr x) \<longrightarrow>
      encode_ppp_ipcp (x\<lparr>ipcp_code := c'\<rparr>) = Some (c' # i # w_be16 n @ take (unat n - 4) rest)) \<and>
    (decode_ppp_ip6cp (c # i # w_be16 n @ rest) len sp_len = Some (Inr y) \<longrightarrow>
      encode_ppp_ip6cp (y\<lparr>ip6cp_code := c'\<rparr>) = Some (c' # i # w_be16 n @ take (unat n - 4) rest)) \<and>
    (decode_ppp_lcp (c # i # w_be16 n @ rest) len sp_len = Some (Inr z) \<and> c' \<noteq> 9 \<and> c' \<noteq> 10 \<longrightarrow>
      encode_ppp_lcp old (z\<lparr>lcp_code := c'\<rparr>) = Some (c' # i # w_be16 n @ take (unat n - 4) rest))"
  using ipcp_echo [OF _ assms] ip6cp_echo [OF _ assms] lcp_echo_options [OF _ assms] by blast

theorem ppp_ack_echoes_options_witness:
  "\<exists>x. decode_ppp_ipcp (1 # 3 # w_be16 10 @ [3, 6, 10, 0, 0, 1, 99]) 11 4096 = Some (Inr x) \<and>
    encode_ppp_ipcp (x\<lparr>ipcp_code := 2\<rparr>) = Some [2, 3, 0, 10, 3, 6, 10, 0, 0, 1]"
proof -
  let ?rest = "[3, 6, 10, 0, 0, 1, 99] :: u8 list"
  let ?x = "\<lparr>ipcp_code = 1, ipcp_identifier = 3, ipcp_options = Some ?rest, ipcp_options_len = 6,
     ipcp_address = 0x0100000a, ipcp_dns1 = 0, ipcp_dns2 = 0, ipcp_option_address = True,
     ipcp_option_dns1 = False, ipcp_option_dns2 = False, ipcp_unknown_options = False\<rparr>"
  have "decode_ppp_ipcp (1 # 3 # w_be16 10 @ ?rest) 11 4096 = Some (Inr ?x)"
    by code_simp
  moreover have "w_be16 10 @ take 6 ?rest = [0, 10, 3, 6, 10, 0, 0, 1]"
    by code_simp
  ultimately show ?thesis
    using ppp_ack_echoes_options [of 10 ?rest 1 3 11 4096 ?x 2] by auto
qed

end
