(* ===== verification/Inet_Checksum.thy ===== *)
theory Inet_Checksum
  imports Wire
begin

text \<open>
  The internet checksum of \<^verbatim>\<open>code/bngblaster/src/bbl_protocols.c\<close>: the sum of 16 bit words in the
  byte order of the machine, the end-around carry, and the checksums over pseudo headers. An
  address in network byte order is the 32 bit number the machine reads from it.
\<close>

section \<open>The functions\<close>

fun checksum_add :: "u8 list \<Rightarrow> u32 \<Rightarrow> u32" where
  "checksum_add (a # b # rest) result = checksum_add rest (result + ucast (ucast a OR push_bit 8 (ucast b) :: u16))"
| "checksum_add [a] result = result + ucast a"
| "checksum_add [] result = result"

definition checksum_sum :: "u8 list \<Rightarrow> u32" where
  "checksum_sum bs = checksum_add bs 0"

lemma unat_drop16: "unat (drop_bit 16 (s :: u32)) = unat s div 65536"
  unfolding unat_drop_bit_eq by (simp add: drop_bit_eq_div)

lemma unat_and_ffff: "unat ((s :: u32) AND 0xffff) = unat s mod 65536"
proof -
  have "s AND 0xffff = take_bit 16 s"
    unfolding take_bit_eq_mask by (simp add: mask_eq_exp_minus_1)
  then show ?thesis
    by (simp add: unsigned_take_bit_eq del: take_bit_eq_mod) (simp add: take_bit_eq_mod)
qed

lemma fold_parts: "unat ((s AND 0xffff) + drop_bit 16 s) = unat s mod 65536 + unat (s :: u32) div 65536"
proof -
  have "unat s div 65536 < 65536"
    using unat_u32_less [of s] by (simp add: div_less_iff_less_mult)
  then show ?thesis
    by (simp add: unat_word_ariths unat_and_ffff unat_drop16)
qed

lemma drop16_zero_iff: "drop_bit 16 s = 0 \<longleftrightarrow> unat (s :: u32) < 65536"
proof -
  have "drop_bit 16 s = 0 \<longleftrightarrow> unat (drop_bit 16 s) = 0" by (rule unat_eq_0 [symmetric])
  also have "\<dots> \<longleftrightarrow> unat s < 65536" by (simp only: unat_drop16 div_eq_0_iff) simp
  finally show ?thesis .
qed

function checksum_fold :: "u32 \<Rightarrow> u32" where
  "checksum_fold s = (if drop_bit 16 s \<noteq> 0 then checksum_fold ((s AND 0xffff) + drop_bit 16 s) else s)"
  by pat_completeness auto
termination
proof (relation "measure unat", simp)
  fix s :: u32
  assume "drop_bit 16 s \<noteq> 0"
  then have "1 \<le> unat s div 65536" by (simp add: drop16_zero_iff div_greater_zero_iff Suc_le_eq)
  moreover have "unat s = 65536 * (unat s div 65536) + unat s mod 65536" by simp
  ultimately have "unat s mod 65536 + unat s div 65536 < unat s" by linarith
  then show "((s AND 0xffff) + drop_bit 16 s, s) \<in> measure unat"
    by (simp only: in_measure fold_parts)
qed

declare checksum_fold.simps [simp del]

definition bbl_checksum :: "u8 list \<Rightarrow> u16" where
  "bbl_checksum bs = ucast (NOT (checksum_fold (checksum_sum bs)))"

text \<open>\<open>htobe16\<close> of a number, as the machine reads it.\<close>

definition htobe16 :: "u16 \<Rightarrow> u16" where
  "htobe16 x = push_bit 8 x OR drop_bit 8 x"

text \<open>The sums over the pseudo headers, for a protocol number and the length of the message.\<close>

definition pseudo4 :: "u16 \<Rightarrow> u16 \<Rightarrow> u32 \<Rightarrow> u32 \<Rightarrow> u32" where
  "pseudo4 proto n src dst =
     ucast (htobe16 proto) + ucast (htobe16 n) + checksum_sum (w_ne32 src) + checksum_sum (w_ne32 dst)"

definition pseudo6 :: "u16 \<Rightarrow> u16 \<Rightarrow> u8 list \<Rightarrow> u8 list \<Rightarrow> u32 option" where
  "pseudo6 proto n src dst =
     do { s \<leftarrow> ld_range src 0 16;
          d \<leftarrow> ld_range dst 0 16;
          Some (ucast (htobe16 proto) + ucast (htobe16 n) + checksum_sum s + checksum_sum d) }"

text \<open>A message without the two bytes at the position of its checksum.\<close>

definition sum_around :: "nat \<Rightarrow> u8 list \<Rightarrow> u32" where
  "sum_around p bs = checksum_sum (take p bs) + checksum_sum (drop (p + 2) bs)"

definition bbl_ipv4_udp_checksum :: "u32 \<Rightarrow> u32 \<Rightarrow> u8 list \<Rightarrow> u16" where
  "bbl_ipv4_udp_checksum src dst udp =
     ucast (NOT (checksum_fold (pseudo4 17 (of_nat (length udp)) src dst + sum_around 6 udp)))"

definition bbl_ipv4_tcp_checksum :: "u32 \<Rightarrow> u32 \<Rightarrow> u8 list \<Rightarrow> u16" where
  "bbl_ipv4_tcp_checksum src dst tcp =
     ucast (NOT (checksum_fold (pseudo4 6 (of_nat (length tcp)) src dst + checksum_sum tcp)))"

definition bbl_ipv6_udp_checksum :: "u8 list \<Rightarrow> u8 list \<Rightarrow> u8 list \<Rightarrow> u16 option" where
  "bbl_ipv6_udp_checksum src dst udp =
     do { p \<leftarrow> pseudo6 17 (of_nat (length udp)) src dst;
          Some (ucast (NOT (checksum_fold (p + sum_around 6 udp)))) }"

definition bbl_ipv6_tcp_checksum :: "u8 list \<Rightarrow> u8 list \<Rightarrow> u8 list \<Rightarrow> u16 option" where
  "bbl_ipv6_tcp_checksum src dst tcp =
     do { p \<leftarrow> pseudo6 6 (of_nat (length tcp)) src dst;
          Some (ucast (NOT (checksum_fold (p + checksum_sum tcp)))) }"

definition bbl_ipv6_icmpv6_checksum :: "u8 list \<Rightarrow> u8 list \<Rightarrow> u8 list \<Rightarrow> u16 option" where
  "bbl_ipv6_icmpv6_checksum src dst icmp =
     do { p \<leftarrow> pseudo6 58 (of_nat (length icmp)) src dst;
          Some (ucast (NOT (checksum_fold (p + sum_around 2 icmp)))) }"

definition bbl_ipv6_ospf_checksum :: "u8 list \<Rightarrow> u8 list \<Rightarrow> u8 list \<Rightarrow> u16 option" where
  "bbl_ipv6_ospf_checksum src dst ospf =
     do { p \<leftarrow> pseudo6 89 (of_nat (length ospf)) src dst;
          Some (ucast (NOT (checksum_fold (p + checksum_sum ospf)))) }"

text \<open>A checksum stored at a position of a message.\<close>

definition put16 :: "nat \<Rightarrow> u16 \<Rightarrow> u8 list \<Rightarrow> u8 list" where
  "put16 p c bs = take p bs @ w_ne16 c @ drop (p + 2) bs"

section \<open>Laws\<close>

text \<open>The sum of the 16 bit words as a number, and the end-around carry.\<close>

fun words_sum :: "u8 list \<Rightarrow> nat" where
  "words_sum (a # b # rest) = unat a + 256 * unat b + words_sum rest"
| "words_sum [a] = unat a"
| "words_sum [] = 0"

definition carry :: "nat \<Rightarrow> nat" where
  "carry n = (if n = 0 then 0 else (n - 1) mod 65535 + 1)"

lemma unat_word_of_bytes: "unat (ucast a OR push_bit 8 (ucast b) :: u16) = unat (a :: u8) + 256 * unat (b :: u8)"
proof -
  have lt: "unat a + 256 * unat b < 2 ^ 16"
    using unat_u8_less [of a] unat_u8_less [of b] by simp
  have "ucast a AND push_bit 8 (ucast b) = (0 :: u16)"
    by (rule bit_word_eqI) (auto simp: bit_simps dest: bit_imp_le_length)
  then have "ucast a OR push_bit 8 (ucast b) = (ucast a + push_bit 8 (ucast b) :: u16)"
    by (simp add: disjunctive_add_eq_or)
  then show ?thesis
    using lt by (simp add: push_bit_eq_mult unat_word_ariths)
qed

lemma checksum_add_eq: "checksum_add bs r = r + of_nat (words_sum bs)"
proof (induction bs r rule: checksum_add.induct)
  case (1 a b rest r)
  have "ucast (ucast a OR push_bit 8 (ucast b) :: u16) = (of_nat (unat a + 256 * unat b) :: u32)"
    by (metis unat_word_of_bytes of_nat_unat)
  with 1 show ?case by simp
qed simp_all

lemma words_sum_bound: "words_sum bs \<le> 65535 * ((length bs + 1) div 2)"
proof (induction bs rule: words_sum.induct)
  case (1 a b rest)
  then show ?case using unat_u8_less [of a] unat_u8_less [of b] by simp
next
  case (2 a)
  then show ?case using unat_u8_less [of a] by simp
qed simp

lemma words_sum_append: "even (length xs) \<Longrightarrow> words_sum (xs @ ys) = words_sum xs + words_sum ys"
  by (induction xs rule: words_sum.induct) simp_all

lemma checksum_sum_eq: "checksum_sum bs = of_nat (words_sum bs)"
  by (simp add: checksum_sum_def checksum_add_eq)

lemma carry_step: "65536 \<le> n \<Longrightarrow> carry (n mod 65536 + n div 65536) = carry n"
proof -
  assume n: "65536 \<le> n"
  define h l where "h = n div 65536" and "l = n mod 65536"
  have hl: "n = 65536 * h + l" "1 \<le> h" using n by (simp_all add: h_def l_def)
  then have "n - 1 = (h + l - 1) + 65535 * h" by simp
  then have "(n - 1) mod 65535 = (h + l - 1) mod 65535" by simp
  moreover have "h + l \<noteq> 0" "n \<noteq> 0" using hl by simp_all
  ultimately show ?thesis unfolding carry_def h_def [symmetric] l_def [symmetric] by (simp add: add.commute)
qed

lemma unat_checksum_fold: "unat (checksum_fold s) = carry (unat s)"
proof (induction s rule: checksum_fold.induct)
  case (1 s)
  show ?case
  proof (cases "drop_bit 16 s = 0")
    case True
    then have "carry (unat s) = unat s" by (auto simp: drop16_zero_iff carry_def)
    with True show ?thesis by (simp add: checksum_fold.simps)
  next
    case False
    then show ?thesis
      using 1 [OF False] by (subst checksum_fold.simps) (simp add: fold_parts carry_step drop16_zero_iff)
  qed
qed

lemma carry_le: "carry n \<le> 65535"
proof -
  have "(n - 1) mod 65535 < 65535" by (rule mod_less_divisor) simp
  then show ?thesis by (auto simp: carry_def)
qed

lemma unat_not_fold: "unat (ucast (NOT (checksum_fold s)) :: u16) = 65535 - carry (unat s)"
proof -
  let ?f = "checksum_fold s"
  have f: "unat ?f = carry (unat s)" "unat ?f \<le> 65535"
    using carry_le by (simp_all add: unat_checksum_fold)
  have "NOT ?f = (-1) - ?f" by (simp add: not_eq_complement)
  then have "unat (NOT ?f) = 4294967295 - unat ?f"
    using unat_sub [of ?f "-1"] by (simp add: unsigned_minus_1_eq_mask mask_eq_exp_minus_1)
  then have "unat (ucast (NOT ?f) :: u16) = (4294967295 - unat ?f) mod 65536"
    by (simp add: unsigned_ucast_eq take_bit_eq_mod)
  also have "\<dots> = (65535 - unat ?f + 65535 * 65536) mod 65536"
    using f(2) by (intro arg_cong [of _ _ "\<lambda>x. x mod 65536"]) simp
  also have "\<dots> = 65535 - unat ?f" by (subst mod_mult_self1) simp
  finally show ?thesis by (simp only: f)
qed

lemma carry_multiple: "0 < n \<Longrightarrow> n mod 65535 = 0 \<Longrightarrow> carry n = 65535"
proof -
  assume "0 < n" "n mod 65535 = 0"
  then obtain k where k: "n = 65535 * k" "0 < k" by (metis mod_0_imp_dvd dvd_def gr0I mult_is_0 less_irrefl)
  then obtain j where "k = Suc j" by (cases k) auto
  then have "n - 1 = 65534 + 65535 * j" using k by simp
  then have "(n - 1) mod 65535 = 65534" by simp
  with \<open>0 < n\<close> show ?thesis by (simp add: carry_def)
qed

lemma carry_complement: "carry (n + (65535 - carry n)) = 65535"
proof (cases "n = 0")
  case False
  have m: "carry n = (n - 1) mod 65535 + 1" using False by (simp add: carry_def)
  then have "n + (65535 - carry n) = (n - 1 - (n - 1) mod 65535) + 65535"
    using False carry_le [of n] mod_less_eq_dividend [of "n - 1" 65535] by linarith
  moreover have "(n - 1 - (n - 1) mod 65535) mod 65535 = 0" by (simp add: minus_mod_eq_div_mult)
  ultimately have "(n + (65535 - carry n)) mod 65535 = 0" by simp
  then show ?thesis using False by (intro carry_multiple) simp_all
qed (simp add: carry_def)

lemma words_sum_put16:
  assumes "even p" "p + 2 \<le> length bs"
  shows "words_sum (put16 p c bs) = words_sum (take p bs) + unat c + words_sum (drop (p + 2) bs)"
proof -
  have "words_sum (w_ne16 c) = unat c"
    using unat_word_of_bytes [of "ucast c" "ucast (drop_bit 8 c)"] ucast_split16 [of c] by (simp add: w_ne16_def)
  moreover have "even (length (take p bs))" "even (length (w_ne16 c))"
    using assms by (simp_all add: w_ne16_def)
  ultimately show ?thesis by (simp add: put16_def words_sum_append)
qed

text \<open>The complement of a folded sum, stored into the message, makes the sum all ones.\<close>

lemma ones_iff: "checksum_fold s = 0xffff \<longleftrightarrow> carry (unat s) = 65535"
  by (simp add: word_unat_eq_iff unat_checksum_fold)

lemma sum_of_small:
  assumes "length bs < 65536" "q \<le> 2000000"
  shows "unat (of_nat q + of_nat (words_sum bs) :: u32) = q + words_sum bs"
proof -
  have "words_sum bs \<le> 65535 * 32768"
    using words_sum_bound [of bs] assms(1) by simp
  then have "q + words_sum bs < 2 ^ 32" using assms(2) by simp
  then have "unat (of_nat (q + words_sum bs) :: u32) = q + words_sum bs" by (intro unat_of_nat_small) simp
  then show ?thesis by simp
qed

lemma checksum_completes:
  assumes "even p" "p + 2 \<le> length bs" "length bs < 65536" "q \<le> 2000000"
    and c: "c = ucast (NOT (checksum_fold (of_nat q + sum_around p bs)))"
  shows "checksum_fold (of_nat q + checksum_sum (put16 p c bs)) = 0xffff"
proof -
  define w where "w = words_sum (take p bs) + words_sum (drop (p + 2) bs)"
  have z: "words_sum (put16 p 0 bs) = w" using words_sum_put16 [OF assms(1,2), of 0] by (simp add: w_def)
  have len: "length (put16 p x bs) = length bs" for x using assms(2) by (simp add: put16_def w_ne16_def)
  have "sum_around p bs = of_nat w" by (simp add: sum_around_def checksum_sum_eq w_def)
  then have "unat (of_nat q + sum_around p bs :: u32) = q + w"
    using sum_of_small [of "put16 p 0 bs" q] assms(3,4) by (simp add: len z)
  then have "unat c = 65535 - carry (q + w)" by (simp add: c unat_not_fold)
  then have "q + words_sum (put16 p c bs) = (q + w) + (65535 - carry (q + w))"
    using words_sum_put16 [OF assms(1,2), of c] by (simp add: w_def)
  then have "carry (q + words_sum (put16 p c bs)) = 65535" by (simp only: carry_complement)
  then show ?thesis
    using sum_of_small [of "put16 p c bs" q] assms(3,4) by (simp add: ones_iff checksum_sum_eq len)
qed

lemma unat_htobe16_le: "unat (htobe16 x) \<le> 65535"
  using unat_u16_less [of "htobe16 x"] by simp

lemma pseudo4_small: "\<exists>q \<le> 2000000. pseudo4 proto n src dst = of_nat q"
proof -
  have "words_sum (w_ne32 a) \<le> 65535 * 2" for a using words_sum_bound [of "w_ne32 a"] by simp
  from this [of src] this [of dst] show ?thesis
    using unat_htobe16_le [of proto] unat_htobe16_le [of n]
    by (intro exI [of _ "unat (htobe16 proto) + unat (htobe16 n) + words_sum (w_ne32 src) + words_sum (w_ne32 dst)"])
       (simp add: pseudo4_def checksum_sum_eq)
qed

lemma pseudo6_small: "pseudo6 proto n src dst = Some s \<Longrightarrow> \<exists>q \<le> 2000000. s = of_nat q"
proof -
  assume "pseudo6 proto n src dst = Some s"
  moreover define a b where "a = take 16 src" and "b = take 16 dst"
  ultimately have ab: "length a = 16" "length b = 16"
    and s: "s = ucast (htobe16 proto) + ucast (htobe16 n) + checksum_sum a + checksum_sum b"
    by (auto simp: pseudo6_def ld_range_def split: bind_splits if_splits)
  have "words_sum a \<le> 65535 * 8" "words_sum b \<le> 65535 * 8"
    using words_sum_bound [of a] words_sum_bound [of b] ab by simp_all
  then show ?thesis
    using unat_htobe16_le [of proto] unat_htobe16_le [of n]
    by (intro exI [of _ "unat (htobe16 proto) + unat (htobe16 n) + words_sum a + words_sum b"])
       (simp add: s checksum_sum_eq)
qed

lemma sum_around_zero:
  assumes "even p" "put16 p 0 bs = bs"
  shows "checksum_sum bs = sum_around p bs"
proof (cases "p + 2 \<le> length bs")
  case True
  then show ?thesis using words_sum_put16 [OF assms(1) True, of 0] assms(2)
    by (simp add: sum_around_def checksum_sum_eq)
next
  case False
  have "length (put16 p 0 bs) = min p (length bs) + 2" using False by (simp add: put16_def w_ne16_def)
  then have "length bs = min p (length bs) + 2" using assms(2) by simp
  then show ?thesis using False by linarith
qed

lemma bbl_checksum_zero_iff: "bbl_checksum bs = 0 \<longleftrightarrow> checksum_fold (checksum_sum bs) = 0xffff"
proof -
  have "bbl_checksum bs = 0 \<longleftrightarrow> unat (bbl_checksum bs) = 0" by (rule unat_eq_0 [symmetric])
  also have "\<dots> \<longleftrightarrow> carry (unat (checksum_sum bs)) = 65535"
    using carry_le [of "unat (checksum_sum bs)"] by (simp add: bbl_checksum_def unat_not_fold)
  finally show ?thesis by (simp add: ones_iff)
qed

text \<open>The checksum of a whole message is stored where the message held a zero.\<close>

lemma bbl_checksum_put16:
  assumes "even p" "put16 p 0 bs = bs" "p + 2 \<le> length bs" "length bs < 65536"
  shows "bbl_checksum (put16 p (bbl_checksum bs) bs) = 0"
  using checksum_completes [OF assms(1,3,4), of 0 "bbl_checksum bs"]
  by (simp add: bbl_checksum_zero_iff bbl_checksum_def sum_around_zero [OF assms(1,2)])



end
