(* ===== verification/Control_Codec.thy ===== *)
theory Control_Codec
  imports Inet_Checksum
begin

text \<open>
  The encoders and decoders of the small control protocols in
  \<^verbatim>\<open>code/bngblaster/src/bbl_protocols.c\<close>: ARP, ICMP, ICMPv6, IGMP, LACP, LDP hello, OSPF and IS-IS
  headers. A pointer to an object of fixed size (a MAC or IPv6
  address) is the bytes of the object, which have to be within the data. An encoder gives the
  bytes it writes; \<open>old\<close> is what the buffer held before where an encoder leaves bytes unwritten.
\<close>

section \<open>ARP\<close>

record bbl_arp =
  arp_code :: u16
  arp_sender :: "u8 list option"
  arp_sender_ip :: u32
  arp_target :: "u8 list option"
  arp_target_ip :: u32

definition w_mac :: "u8 list option \<Rightarrow> u8 list option" where
  "w_mac ptr = (case ptr of None \<Rightarrow> Some [0, 0, 0, 0, 0, 0] | Some mac \<Rightarrow> ld_range mac 0 6)"

definition encode_arp :: "bbl_arp \<Rightarrow> u8 list option" where
  "encode_arp arp =
     do { sender \<leftarrow> w_mac (arp_sender arp);
          target \<leftarrow> w_mac (arp_target arp);
          Some (w_ne16 0x0100 @ w_ne16 0x0008 @ [6, 4] @ w_be16 (arp_code arp) @
                sender @ w_ne32 (arp_sender_ip arp) @ target @ w_ne32 (arp_target_ip arp)) }"

definition decode_arp :: "u8 list \<Rightarrow> u16 \<Rightarrow> u16 \<Rightarrow> bbl_arp decoded" where
  "decode_arp buf len sp_len =
     (if len < 28 \<or> sp_len < 40 then Some (Inl DECODE_ERROR)
      else do {
        let buf = drop 6 buf;
        code \<leftarrow> rd_be16 buf;
        let buf = drop 2 buf;
        sender \<leftarrow> ld_range buf 0 6;
        let buf = drop 6 buf;
        sender_ip \<leftarrow> rd_ne32 buf;
        let buf = drop 4 buf;
        target \<leftarrow> ld_range buf 0 6;
        let buf = drop 6 buf;
        target_ip \<leftarrow> rd_ne32 buf;
        Some (Inr \<lparr>arp_code = code, arp_sender = Some sender, arp_sender_ip = sender_ip,
                   arp_target = Some target, arp_target_ip = target_ip\<rparr>) })"

section \<open>ICMP\<close>

record bbl_icmp =
  icmp_type :: u8
  icmp_code :: u8
  icmp_data :: "u8 list option"
  icmp_data_len :: u16

text \<open>The checksum is computed over the message with a zero in its place, and then stored there.\<close>

definition with_checksum :: "u8 list \<Rightarrow> u8 list" where
  "with_checksum bs = put16 2 (bbl_checksum bs) bs"

definition encode_icmp :: "bbl_icmp \<Rightarrow> u8 list option" where
  "encode_icmp icmp =
     do { data \<leftarrow> (if icmp_data_len icmp \<noteq> 0
            then (case icmp_data icmp of None \<Rightarrow> None | Some d \<Rightarrow> ld_range d 0 (unat (icmp_data_len icmp)))
            else Some []);
          Some (with_checksum ([icmp_type icmp, icmp_code icmp, 0, 0] @ data)) }"

definition decode_icmp :: "u8 list \<Rightarrow> u16 \<Rightarrow> u16 \<Rightarrow> bbl_icmp decoded" where
  "decode_icmp buf len sp_len =
     (if len < 4 \<or> sp_len < 24 then Some (Inl DECODE_ERROR)
      else do {
        typ \<leftarrow> rd8 buf;
        let buf = drop 1 buf; let len = len - 1;
        code \<leftarrow> rd8 buf;
        let buf = drop 1 buf; let len = len - 1;
        let buf = drop 2 buf; let len = len - 2;
        if len \<noteq> 0
        then do { data \<leftarrow> ld_range buf 0 (unat len);
                  Some (Inr \<lparr>icmp_type = typ, icmp_code = code, icmp_data = Some data, icmp_data_len = len\<rparr>) }
        else Some (Inr \<lparr>icmp_type = typ, icmp_code = code, icmp_data = None, icmp_data_len = 0\<rparr>) })"

section \<open>ICMPv6\<close>

abbreviation (input) IPV6_ICMPV6_ROUTER_SOLICITATION :: u8 where "IPV6_ICMPV6_ROUTER_SOLICITATION \<equiv> 133"
abbreviation (input) IPV6_ICMPV6_ROUTER_ADVERTISEMENT :: u8 where "IPV6_ICMPV6_ROUTER_ADVERTISEMENT \<equiv> 134"
abbreviation (input) IPV6_ICMPV6_NEIGHBOR_SOLICITATION :: u8 where "IPV6_ICMPV6_NEIGHBOR_SOLICITATION \<equiv> 135"
abbreviation (input) IPV6_ICMPV6_NEIGHBOR_ADVERTISEMENT :: u8 where "IPV6_ICMPV6_NEIGHBOR_ADVERTISEMENT \<equiv> 136"
abbreviation (input) ICMPV6_OPTION_DEST_LINK_LAYER :: u8 where "ICMPV6_OPTION_DEST_LINK_LAYER \<equiv> 2"
abbreviation (input) ICMPV6_OPTION_PREFIX :: u8 where "ICMPV6_OPTION_PREFIX \<equiv> 3"
abbreviation (input) ICMPV6_OPTION_DNS :: u8 where "ICMPV6_OPTION_DNS \<equiv> 25"

record bbl_icmpv6 =
  icmpv6_type :: u8
  icmpv6_code :: u8
  icmpv6_flags :: u8
  icmpv6_prefix_len :: u8
  icmpv6_prefix_address :: "u8 list"
  icmpv6_mac :: "u8 list option"
  icmpv6_data :: "u8 list option"
  icmpv6_data_len :: u16
  icmpv6_dns1 :: "u8 list option"
  icmpv6_dns2 :: "u8 list option"
  icmpv6_dst_mac :: "u8 list option"

definition ptr_range :: "u8 list option \<Rightarrow> nat \<Rightarrow> u8 list option" where
  "ptr_range ptr n = (case ptr of None \<Rightarrow> None | Some bs \<Rightarrow> ld_range bs 0 n)"

text \<open>
  \<open>old\<close>: the three bytes behind the flags of a neighbor advertisement are skipped, not written.
\<close>

definition encode_icmpv6 :: "u8 list \<Rightarrow> bbl_icmpv6 \<Rightarrow> u8 list option" where
  "encode_icmpv6 old icmp =
     do { body \<leftarrow>
            (if icmpv6_data_len icmp \<noteq> 0 then ptr_range (icmpv6_data icmp) (unat (icmpv6_data_len icmp))
             else if icmpv6_type icmp = IPV6_ICMPV6_ROUTER_SOLICITATION then Some [0, 0, 0, 0]
             else if icmpv6_type icmp = IPV6_ICMPV6_ROUTER_ADVERTISEMENT then
               do { mac \<leftarrow> ptr_range (icmpv6_mac icmp) 6;
                    Some ([64, 0] @ w_be16 30 @ [0, 0, 0, 0, 0, 0, 0, 0] @ [1, 1] @ mac) }
             else if icmpv6_type icmp = IPV6_ICMPV6_NEIGHBOR_SOLICITATION then
               do { mac \<leftarrow> ptr_range (icmpv6_mac icmp) 6;
                    addr \<leftarrow> ld_range (icmpv6_prefix_address icmp) 0 16;
                    Some ([0, 0, 0, 0] @ addr @ [1, 1] @ mac) }
             else if icmpv6_type icmp = IPV6_ICMPV6_NEIGHBOR_ADVERTISEMENT then
               do { mac \<leftarrow> ptr_range (icmpv6_mac icmp) 6;
                    addr \<leftarrow> ld_range (icmpv6_prefix_address icmp) 0 16;
                    skipped \<leftarrow> ld_range old 5 3;
                    Some ([0x60] @ skipped @ addr @ [2, 1] @ mac) }
             else Some []);
          Some (with_checksum ([icmpv6_type icmp, icmpv6_code icmp, 0, 0] @ body)) }"

text \<open>
  The length of an option is a multiple of eight bytes and includes its type and length bytes.
  The check \<open>len < option_len - 2\<close> is done with C's \<open>int\<close>, which has no wrap-around here.
\<close>

definition ra_option :: "u8 \<Rightarrow> u16 \<Rightarrow> u8 list \<Rightarrow> bbl_icmpv6 \<Rightarrow> bbl_icmpv6 decoded" where
  "ra_option option option_len buf icmpv6 =
     (if option = ICMPV6_OPTION_PREFIX then
        if option_len < 32 then Some (Inl DECODE_ERROR)
        else do { l \<leftarrow> rd8 buf;
                  addr \<leftarrow> ld_range buf 14 16;
                  Some (Inr (icmpv6\<lparr>icmpv6_prefix_len := l, icmpv6_prefix_address := addr\<rparr>)) }
      else if option = ICMPV6_OPTION_DNS then
        if option_len \<ge> 24 then
          do { dns1 \<leftarrow> ld_range buf 6 16;
               if option_len \<ge> 40
               then do { dns2 \<leftarrow> ld_range buf 22 16;
                         Some (Inr (icmpv6\<lparr>icmpv6_dns1 := Some dns1, icmpv6_dns2 := Some dns2\<rparr>)) }
               else Some (Inr (icmpv6\<lparr>icmpv6_dns1 := Some dns1\<rparr>)) }
        else Some (Inr icmpv6)
      else Some (Inr icmpv6))"

function ra_loop :: "u8 list \<Rightarrow> u16 \<Rightarrow> bbl_icmpv6 \<Rightarrow> bbl_icmpv6 decoded" where
  "ra_loop buf len icmpv6 =
     (if len < 8 then Some (Inr icmpv6)
      else case rd8 buf of None \<Rightarrow> None | Some option \<Rightarrow>
      case rd8 (drop 1 buf) of None \<Rightarrow> None | Some l \<Rightarrow>
      (let option_len = ucast l * 8; buf = drop 2 buf; len = len - 2
       in if option_len < 2 \<or> unat len < unat option_len - 2 then Some (Inl DECODE_ERROR)
          else case ra_option option option_len buf icmpv6 of
              None \<Rightarrow> None
            | Some (Inl e) \<Rightarrow> Some (Inl e)
            | Some (Inr icmpv6) \<Rightarrow> ra_loop (drop (unat (option_len - 2)) buf) (len - (option_len - 2)) icmpv6))"
  by pat_completeness auto
termination
  by (relation "measure (\<lambda>(_, len, _). unat len)")
     (auto simp: word_less_nat_alt word_le_nat_alt not_less unat_sub_le)

declare ra_loop.simps [simp del]

text \<open>The loop over the options of a neighbor advertisement ends at the first target link-layer address.\<close>

function na_loop :: "u8 list \<Rightarrow> u16 \<Rightarrow> bbl_icmpv6 \<Rightarrow> bbl_icmpv6 decoded" where
  "na_loop buf len icmpv6 =
     (if len < 8 then Some (Inr icmpv6)
      else case rd8 buf of None \<Rightarrow> None | Some option \<Rightarrow>
      case rd8 (drop 1 buf) of None \<Rightarrow> None | Some l \<Rightarrow>
      (let option_len = ucast l * 8; buf = drop 2 buf; len = len - 2
       in if option_len < 2 \<or> unat len < unat option_len - 2 then Some (Inl DECODE_ERROR)
          else if option = ICMPV6_OPTION_DEST_LINK_LAYER then
            if option_len \<noteq> 8 then Some (Inl DECODE_ERROR)
            else case ld_range buf 0 6 of None \<Rightarrow> None | Some mac \<Rightarrow> Some (Inr (icmpv6\<lparr>icmpv6_dst_mac := Some mac\<rparr>))
          else na_loop (drop (unat (option_len - 2)) buf) (len - (option_len - 2)) icmpv6))"
  by pat_completeness auto
termination
  by (relation "measure (\<lambda>(_, len, _). unat len)")
     (auto simp: word_less_nat_alt word_le_nat_alt not_less unat_sub_le)

declare na_loop.simps [simp del]

definition zero_icmpv6 :: bbl_icmpv6 where
  "zero_icmpv6 = \<lparr>icmpv6_type = 0, icmpv6_code = 0, icmpv6_flags = 0, icmpv6_prefix_len = 0,
     icmpv6_prefix_address = replicate 16 0, icmpv6_mac = None, icmpv6_data = None, icmpv6_data_len = 0,
     icmpv6_dns1 = None, icmpv6_dns2 = None, icmpv6_dst_mac = None\<rparr>"

definition decode_icmpv6 :: "u8 list \<Rightarrow> u16 \<Rightarrow> u16 \<Rightarrow> bbl_icmpv6 decoded" where
  "decode_icmpv6 buf len sp_len =
     (if len < 4 \<or> sp_len < 72 then Some (Inl DECODE_ERROR)
      else do {
        typ \<leftarrow> rd8 buf;
        let buf = drop 1 buf; let len = len - 1;
        code \<leftarrow> rd8 buf;
        let buf = drop 1 buf; let len = len - 1;
        let buf = drop 2 buf; let len = len - 2;
        let icmpv6 = zero_icmpv6\<lparr>icmpv6_type := typ, icmpv6_code := code,
          icmpv6_data := if len \<noteq> 0 then Some buf else None, icmpv6_data_len := len\<rparr>;
        if typ = IPV6_ICMPV6_ROUTER_ADVERTISEMENT then
          if len < 12 then Some (Inl DECODE_ERROR)
          else do {
            let buf = drop 1 buf; let len = len - 1;
            flags \<leftarrow> rd8 buf;
            let buf = drop 11 buf; let len = len - 11;
            ra_loop buf len (icmpv6\<lparr>icmpv6_flags := flags\<rparr>) }
        else if typ = IPV6_ICMPV6_NEIGHBOR_SOLICITATION then
          if len < 20 then Some (Inl DECODE_ERROR)
          else do {
            let buf = drop 4 buf;
            addr \<leftarrow> ld_range buf 0 16;
            Some (Inr (icmpv6\<lparr>icmpv6_prefix_address := addr\<rparr>)) }
        else if typ = IPV6_ICMPV6_NEIGHBOR_ADVERTISEMENT then
          if len < 20 then Some (Inl DECODE_ERROR)
          else do {
            let buf = drop 4 buf; let len = len - 4;
            addr \<leftarrow> ld_range buf 0 16;
            let buf = drop 16 buf; let len = len - 16;
            na_loop buf len (icmpv6\<lparr>icmpv6_prefix_address := addr\<rparr>) }
        else Some (Inr icmpv6) })"

section \<open>IGMP\<close>

abbreviation (input) IGMP_TYPE_QUERY :: u8 where "IGMP_TYPE_QUERY \<equiv> 0x11"
abbreviation (input) IGMP_TYPE_REPORT_V1 :: u8 where "IGMP_TYPE_REPORT_V1 \<equiv> 0x12"
abbreviation (input) IGMP_TYPE_REPORT_V2 :: u8 where "IGMP_TYPE_REPORT_V2 \<equiv> 0x16"
abbreviation (input) IGMP_TYPE_REPORT_V3 :: u8 where "IGMP_TYPE_REPORT_V3 \<equiv> 0x22"
abbreviation (input) IGMP_TYPE_LEAVE :: u8 where "IGMP_TYPE_LEAVE \<equiv> 0x17"
abbreviation (input) IGMP_MAX_SOURCES :: nat where "IGMP_MAX_SOURCES \<equiv> 3"
abbreviation (input) IGMP_MAX_GROUPS :: nat where "IGMP_MAX_GROUPS \<equiv> 12"

record bbl_igmp_group_record =
  gr_type :: u8
  gr_group :: u32
  gr_sources :: u8
  gr_source :: "u32 list"

record bbl_igmp =
  igmp_version :: u8
  igmp_type :: u8
  igmp_robustness :: u8
  igmp_group :: u32
  igmp_source :: u32
  igmp_group_records :: u8
  igmp_group_record :: "bbl_igmp_group_record list"

text \<open>The arrays \<open>group_record\<close> and \<open>source\<close> have their fixed sizes; the loops stop there.\<close>

definition w_group_record :: "bbl_igmp_group_record \<Rightarrow> u8 list" where
  "w_group_record r =
     [gr_type r, 0] @ w_be16 (ucast (gr_sources r)) @ w_ne32 (gr_group r) @
     concat (map w_ne32 (take (min (unat (gr_sources r)) IGMP_MAX_SOURCES) (gr_source r)))"

definition encode_igmp :: "bbl_igmp \<Rightarrow> u8 list" where
  "encode_igmp igmp =
     (let body =
        (if igmp_type igmp \<in> {IGMP_TYPE_QUERY, IGMP_TYPE_REPORT_V1, IGMP_TYPE_REPORT_V2, IGMP_TYPE_LEAVE}
         then w_ne32 (igmp_group igmp)
         else if igmp_type igmp = IGMP_TYPE_REPORT_V3 then
           w_ne16 0 @ w_be16 (ucast (igmp_group_records igmp)) @
           (if igmp_group_records igmp \<noteq> 0
            then concat (map w_group_record (take (min (unat (igmp_group_records igmp)) IGMP_MAX_GROUPS) (igmp_group_record igmp)))
            else w_ne16 0)
         else [])
      in with_checksum ([igmp_type igmp, 0, 0, 0] @ body))"

definition zero_igmp :: bbl_igmp where
  "zero_igmp = \<lparr>igmp_version = 0, igmp_type = 0, igmp_robustness = 0, igmp_group = 0, igmp_source = 0,
     igmp_group_records = 0,
     igmp_group_record = replicate IGMP_MAX_GROUPS \<lparr>gr_type = 0, gr_group = 0, gr_sources = 0, gr_source = replicate IGMP_MAX_SOURCES 0\<rparr>\<rparr>"

definition decode_igmp :: "u8 list \<Rightarrow> u16 \<Rightarrow> u16 \<Rightarrow> bbl_igmp decoded" where
  "decode_igmp buf len sp_len =
     (if len < 8 \<or> sp_len < 304 then Some (Inl DECODE_ERROR)
      else do {
        let version = (if len < 12 then 1 else 3);
        typ \<leftarrow> rd8 buf;
        let igmp = zero_igmp\<lparr>igmp_version := version, igmp_type := typ\<rparr>;
        let buf = drop 4 buf;
        if typ = IGMP_TYPE_QUERY then
          do { group \<leftarrow> rd_ne32 buf;
               let buf = drop 4 buf;
               if version = 3 then
                 do { r \<leftarrow> rd8 buf;
                      let buf = drop 2 buf;
                      sources \<leftarrow> rd_be16 buf;
                      let buf = drop 2 buf;
                      if sources \<noteq> 0
                      then do { source \<leftarrow> rd_ne32 buf;
                                Some (Inr (igmp\<lparr>igmp_group := group, igmp_robustness := r AND 7, igmp_source := source\<rparr>)) }
                      else Some (Inr (igmp\<lparr>igmp_group := group, igmp_robustness := r AND 7\<rparr>)) }
               else Some (Inr (igmp\<lparr>igmp_group := group\<rparr>)) }
        else if typ = IGMP_TYPE_REPORT_V1 then
          do { group \<leftarrow> rd_ne32 buf; Some (Inr (igmp\<lparr>igmp_group := group\<rparr>)) }
        else if typ = IGMP_TYPE_REPORT_V2 \<or> typ = IGMP_TYPE_LEAVE then
          do { group \<leftarrow> rd_ne32 buf; Some (Inr (igmp\<lparr>igmp_version := 2, igmp_group := group\<rparr>)) }
        else if typ = IGMP_TYPE_REPORT_V3 then Some (Inr (igmp\<lparr>igmp_version := 3\<rparr>))
        else Some (Inr igmp) })"

section \<open>LACP\<close>

record bbl_lacp =
  lacp_actor_system_id :: "u8 list option"
  lacp_actor_system_priority :: u16
  lacp_actor_key :: u16
  lacp_actor_port_priority :: u16
  lacp_actor_port_id :: u16
  lacp_actor_state :: u8
  lacp_partner_system_id :: "u8 list option"
  lacp_partner_system_priority :: u16
  lacp_partner_key :: u16
  lacp_partner_port_priority :: u16
  lacp_partner_port_id :: u16
  lacp_partner_state :: u8

definition encode_lacp :: "bbl_lacp \<Rightarrow> u8 list option" where
  "encode_lacp lacp =
     do { actor \<leftarrow> ptr_range (lacp_actor_system_id lacp) 6;
          partner \<leftarrow> ptr_range (lacp_partner_system_id lacp) 6;
          Some ([1, 1] @
            [1, 20] @ w_be16 (lacp_actor_system_priority lacp) @ actor @ w_be16 (lacp_actor_key lacp) @
              w_be16 (lacp_actor_port_priority lacp) @ w_be16 (lacp_actor_port_id lacp) @
              [lacp_actor_state lacp, 0, 0, 0] @
            [2, 20] @ w_be16 (lacp_partner_system_priority lacp) @ partner @ w_be16 (lacp_partner_key lacp) @
              w_be16 (lacp_partner_port_priority lacp) @ w_be16 (lacp_partner_port_id lacp) @
              [lacp_partner_state lacp, 0, 0, 0] @
            [3, 16] @ replicate 66 0) }"

definition zero_lacp :: bbl_lacp where
  "zero_lacp = \<lparr>lacp_actor_system_id = None, lacp_actor_system_priority = 0, lacp_actor_key = 0,
     lacp_actor_port_priority = 0, lacp_actor_port_id = 0, lacp_actor_state = 0, lacp_partner_system_id = None,
     lacp_partner_system_priority = 0, lacp_partner_key = 0, lacp_partner_port_priority = 0,
     lacp_partner_port_id = 0, lacp_partner_state = 0\<rparr>"

text \<open>
  One turn of the loop over the TLVs: the length of the TLV and the length left, which a terminator
  sets to zero before the length of the TLV is subtracted from it.
\<close>

definition lacp_tlv :: "u8 list \<Rightarrow> u16 \<Rightarrow> bbl_lacp \<Rightarrow> (u8 \<times> u16 \<times> bbl_lacp) decoded" where
  "lacp_tlv buf len lacp =
     do { tlv_type \<leftarrow> rd8 buf;
          tlv_len \<leftarrow> rd8 (drop 1 buf);
          if ucast tlv_len > len then Some (Inl DECODE_ERROR)
          else if tlv_type = 0 then Some (Inr (tlv_len, 0, lacp))
          else if tlv_type = 1 then
            if tlv_len \<noteq> 20 then Some (Inl DECODE_ERROR)
            else do { pri \<leftarrow> rd_be16 (drop 2 buf);
                      sys \<leftarrow> ld_range buf 4 6;
                      key \<leftarrow> rd_be16 (drop 10 buf);
                      port_pri \<leftarrow> rd_be16 (drop 12 buf);
                      port \<leftarrow> rd_be16 (drop 14 buf);
                      state \<leftarrow> rd8 (drop 16 buf);
                      Some (Inr (tlv_len, len, lacp\<lparr>lacp_actor_system_priority := pri, lacp_actor_system_id := Some sys,
                        lacp_actor_key := key, lacp_actor_port_priority := port_pri, lacp_actor_port_id := port,
                        lacp_actor_state := state\<rparr>)) }
          else if tlv_type = 2 then
            if tlv_len \<noteq> 20 then Some (Inl DECODE_ERROR)
            else do { pri \<leftarrow> rd_be16 (drop 2 buf);
                      sys \<leftarrow> ld_range buf 4 6;
                      key \<leftarrow> rd_be16 (drop 10 buf);
                      port_pri \<leftarrow> rd_be16 (drop 12 buf);
                      port \<leftarrow> rd_be16 (drop 14 buf);
                      state \<leftarrow> rd8 (drop 16 buf);
                      Some (Inr (tlv_len, len, lacp\<lparr>lacp_partner_system_priority := pri, lacp_partner_system_id := Some sys,
                        lacp_partner_key := key, lacp_partner_port_priority := port_pri, lacp_partner_port_id := port,
                        lacp_partner_state := state\<rparr>)) }
          else Some (Inr (tlv_len, len, lacp)) }"

text \<open>The loop may not end; then the outer value is \<^term>\<open>None\<close>, while reading behind the data is the inner one.\<close>

partial_function (option) lacp_loop :: "u8 list \<Rightarrow> u16 \<Rightarrow> bbl_lacp \<Rightarrow> bbl_lacp decoded option" where
  "lacp_loop buf len lacp =
     (if len < 2 then Some (Some (Inr lacp))
      else case lacp_tlv buf len lacp of
          None \<Rightarrow> Some None
        | Some (Inl e) \<Rightarrow> Some (Some (Inl e))
        | Some (Inr (tlv_len, len, lacp)) \<Rightarrow> lacp_loop (drop (unat tlv_len) buf) (len - ucast tlv_len) lacp)"

definition decode_lacp :: "u8 list \<Rightarrow> u16 \<Rightarrow> u16 \<Rightarrow> bbl_lacp decoded option" where
  "decode_lacp buf len sp_len =
     (case (if len \<noteq> 0 then rd8 buf else Some 1) of
        None \<Rightarrow> Some None
      | Some subtype \<Rightarrow>
          if subtype \<noteq> 1 then Some (Some (Inl UNKNOWN_PROTOCOL))
          else (let buf = drop 1 buf; len = len - 1
                in if len < 109 \<or> sp_len < 48 then Some (Some (Inl DECODE_ERROR))
                   else case rd8 buf of
                       None \<Rightarrow> Some None
                     | Some version \<Rightarrow>
                         if version \<noteq> 1 then Some (Some (Inl DECODE_ERROR))
                         else lacp_loop (drop 1 buf) (len - 1) zero_lacp))"

section \<open>LDP hello\<close>

record bbl_ldp_hello =
  ldp_lsr_id :: u32
  ldp_label_space_id :: u16
  ldp_hold_time :: u16
  ldp_msg_id :: u32
  ldp_ipv4_transport_address :: u32
  ldp_ipv6_transport_address :: "u8 list option"
  ldp_dual_stack_capability :: u8

definition ldp_tlvs :: "bbl_ldp_hello \<Rightarrow> u8 list option" where
  "ldp_tlvs ldp =
     do { v6 \<leftarrow> (case ldp_ipv6_transport_address ldp of None \<Rightarrow> Some []
            | Some addr \<Rightarrow> do { a \<leftarrow> ld_range addr 0 16; Some (w_be16 0x0403 @ w_be16 16 @ a) });
          Some (w_be16 0x0400 @ w_be16 4 @ w_be16 (ldp_hold_time ldp) @ w_ne16 0 @
            (if ldp_ipv4_transport_address ldp \<noteq> 0
             then w_be16 0x0401 @ w_be16 4 @ w_ne32 (ldp_ipv4_transport_address ldp) else []) @
            v6 @
            (if ldp_dual_stack_capability ldp \<noteq> 0
             then w_be16 0x8701 @ w_be16 4 @ [push_bit 4 (ldp_dual_stack_capability ldp) AND 0xf0, 0, 0, 0] else [])) }"

definition encode_ldp_hello :: "bbl_ldp_hello \<Rightarrow> u8 list option" where
  "encode_ldp_hello ldp =
     do { tlvs \<leftarrow> ldp_tlvs ldp;
          let msg = w_be32 (ldp_msg_id ldp) @ tlvs;
          let pdu = w_ne32 (ldp_lsr_id ldp) @ w_be16 (ldp_label_space_id ldp) @
                    w_be16 0x0100 @ w_be16 (of_nat (length msg)) @ msg;
          Some (w_be16 1 @ w_be16 (of_nat (length pdu)) @ pdu) }"

definition ldp_tlv :: "u16 \<Rightarrow> u16 \<Rightarrow> u8 list \<Rightarrow> bbl_ldp_hello \<Rightarrow> bbl_ldp_hello decoded" where
  "ldp_tlv t tlv_len buf ldp =
     (let tlv_type = t AND 0x3fff
      in if tlv_type = 0x0400 then
        if tlv_len \<noteq> 4 then Some (Inl DECODE_ERROR)
        else do { v \<leftarrow> rd_be16 buf; Some (Inr (ldp\<lparr>ldp_hold_time := v\<rparr>)) }
      else if tlv_type = 0x0401 then
        if tlv_len \<noteq> 4 then Some (Inl DECODE_ERROR)
        else do { v \<leftarrow> rd_ne32 buf; Some (Inr (ldp\<lparr>ldp_ipv4_transport_address := v\<rparr>)) }
      else if tlv_type = 0x0403 then
        if tlv_len \<noteq> 16 then Some (Inl DECODE_ERROR)
        else do { a \<leftarrow> ld_range buf 0 16; Some (Inr (ldp\<lparr>ldp_ipv6_transport_address := Some a\<rparr>)) }
      else if tlv_type = 0x0701 then
        if tlv_len \<noteq> 4 then Some (Inl DECODE_ERROR)
        else do { v \<leftarrow> rd8 buf; Some (Inr (ldp\<lparr>ldp_dual_stack_capability := drop_bit 4 v AND 0x0f\<rparr>)) }
      else Some (Inr ldp))"

definition ldp_pdu :: "u8 list \<Rightarrow> u16 \<Rightarrow> bbl_ldp_hello decoded" where
  "ldp_pdu buf len =
     do { lsr_id \<leftarrow> rd_ne32 buf;
          let buf = drop 4 buf; let len = len - 4;
          label_space_id \<leftarrow> rd_be16 buf;
          let buf = drop 2 buf; let len = len - 2;
          if len < 4 then Some (Inl DECODE_ERROR)
          else do {
            msg_type \<leftarrow> rd_be16 buf;
            let buf = drop 2 buf; let len = len - 2;
            msg_len \<leftarrow> rd_be16 buf;
            let buf = drop 2 buf; let len = len - 2;
            if msg_len > len \<or> msg_len < 4 \<or> msg_type \<noteq> 0x0100 then Some (Inl DECODE_ERROR)
            else do {
              msg_id \<leftarrow> rd_be32 buf;
              let buf = drop 4 buf; let len = msg_len - 4;
              tlv_loop ldp_tlv buf len
                \<lparr>ldp_lsr_id = lsr_id, ldp_label_space_id = label_space_id, ldp_hold_time = 0, ldp_msg_id = msg_id,
                 ldp_ipv4_transport_address = 0, ldp_ipv6_transport_address = None, ldp_dual_stack_capability = 0\<rparr> } } }"

definition decode_ldp_hello :: "u8 list \<Rightarrow> u16 \<Rightarrow> u16 \<Rightarrow> bbl_ldp_hello decoded" where
  "decode_ldp_hello buf len sp_len =
     (if len < 10 \<or> sp_len < 32 then Some (Inl DECODE_ERROR)
      else do {
        v \<leftarrow> rd_be16 buf;
        pdu_len \<leftarrow> rd_be16 (drop 2 buf);
        if v AND 0x7fff \<noteq> 1 then Some (Inl UNKNOWN_PROTOCOL)
        else if pdu_len > len - 4 then Some (Inl UNKNOWN_PROTOCOL)
        else ldp_pdu (drop 4 buf) pdu_len })"

section \<open>OSPF and IS-IS\<close>

record bbl_ospf =
  ospf_version :: u8
  ospf_type :: u8
  ospf_pdu :: "u8 list"
  ospf_pdu_len :: u16

definition encode_ospf :: "bbl_ospf \<Rightarrow> u8 list option" where
  "encode_ospf ospf = ld_range (ospf_pdu ospf) 0 (unat (ospf_pdu_len ospf))"

definition decode_ospf :: "u8 list \<Rightarrow> u16 \<Rightarrow> u16 \<Rightarrow> bbl_ospf decoded" where
  "decode_ospf buf len sp_len =
     (if len < 16 \<or> sp_len < 24 then Some (Inl DECODE_ERROR)
      else do {
        pdu \<leftarrow> ld_range buf 0 (unat len);
        version \<leftarrow> rd8 buf;
        typ \<leftarrow> rd8 (drop 1 buf);
        hdr_len \<leftarrow> rd_be16 (drop 2 buf);
        if hdr_len > len then Some (Inl DECODE_ERROR)
        else Some (Inr \<lparr>ospf_version = version, ospf_type = typ, ospf_pdu = pdu, ospf_pdu_len = len\<rparr>) })"

record bbl_isis =
  isis_type :: u8
  isis_pdu :: "u8 list"
  isis_pdu_len :: u16

definition encode_isis :: "bbl_isis \<Rightarrow> u8 list decoded" where
  "encode_isis x =
     (if isis_pdu_len x < 8 then Some (Inl ENCODE_ERROR)
      else do { pdu \<leftarrow> ld_range (isis_pdu x) 0 (unat (isis_pdu_len x));
                Some (Inr (w_ne16 0xfefe @ [3] @ pdu)) })"

definition decode_isis :: "u8 list \<Rightarrow> u16 \<Rightarrow> u16 \<Rightarrow> bbl_isis decoded" where
  "decode_isis buf len sp_len =
     (if len < 8 \<or> sp_len < 24 then Some (Inl DECODE_ERROR)
      else do {
        pdu \<leftarrow> ld_range buf 0 (unat len);
        hdr_len \<leftarrow> rd8 (drop 1 buf);
        if ucast hdr_len > len then Some (Inl DECODE_ERROR)
        else do { t \<leftarrow> rd8 (drop 4 buf);
                  Some (Inr \<lparr>isis_type = t AND 0x1f, isis_pdu = pdu, isis_pdu_len = len\<rparr>) } })"

section \<open>CFM\<close>

record bbl_cfm =
  cfm_type :: u8
  cfm_seq :: u32
  cfm_rdi :: bool
  cfm_md_level :: u8
  cfm_md_name_format :: u8
  cfm_md_name_len :: u8
  cfm_md_name :: "u8 list option"
  cfm_ma_id :: u16
  cfm_ma_name_format :: u8
  cfm_ma_name_len :: u8
  cfm_ma_name :: "u8 list option"

text \<open>
  The names are cut to the room the format has for them, and the room behind the MA name is filled
  with the zeroes written before. The structure keeps the shortened lengths.
\<close>

definition cfm_md :: "bbl_cfm \<Rightarrow> (u8 list \<times> u8 \<times> bbl_cfm) option" where
  "cfm_md cfm =
     (if cfm_md_name_format cfm \<noteq> 1 then
        do { let n = (if cfm_md_name_len cfm > 32 then 32 else cfm_md_name_len cfm);
             name \<leftarrow> ptr_range (cfm_md_name cfm) (unat n);
             Some (n # name, 45 - (n + 1), cfm\<lparr>cfm_md_name_len := n\<rparr>) }
      else Some ([], 45, cfm))"

definition encode_cfm :: "bbl_cfm \<Rightarrow> (u8 list \<times> bbl_cfm) decoded" where
  "encode_cfm cfm =
     (if cfm_type cfm \<noteq> 1 then Some (Inl ENCODE_ERROR)
      else do {
        (md, max_ma_str_len, cfm) \<leftarrow> cfm_md cfm;
        let n = (if cfm_ma_name_len cfm > max_ma_str_len then max_ma_str_len else cfm_ma_name_len cfm);
        ma \<leftarrow> ptr_range (cfm_ma_name cfm) (unat n);
        Some (Inr (([push_bit 5 (cfm_md_level cfm), cfm_type cfm, if cfm_rdi cfm then 4 OR 128 else 4, 70] @
          w_be32 (cfm_seq cfm) @ w_be16 (cfm_ma_id cfm) @ [cfm_md_name_format cfm] @ md @
          [cfm_ma_name_format cfm, n] @ ma @ replicate (unat max_ma_str_len - unat n) 0 @ replicate 16 0) @
          [1] @ w_be16 1 @ [0] @ [2] @ w_be16 1 @ [2] @ [4] @ w_be16 1 @ [1] @ [0],
          cfm\<lparr>cfm_ma_name_len := n\<rparr>)) })"

section \<open>Safety\<close>

lemma decode_arp_safe: "unat len \<le> length buf \<Longrightarrow> runs P (decode_arp buf len sp_len)"
  unfolding decode_arp_def
  by (intro runs_intros; (simp add: runs_arith del: length_greater_0_conv)?)

lemma decode_icmp_safe: "unat len \<le> length buf \<Longrightarrow> runs P (decode_icmp buf len sp_len)"
  unfolding decode_icmp_def
  by (intro runs_intros; (simp add: runs_arith del: length_greater_0_conv)?)

lemma decode_ospf_safe: "unat len \<le> length buf \<Longrightarrow> runs P (decode_ospf buf len sp_len)"
  unfolding decode_ospf_def
  by (intro runs_intros; (simp add: runs_arith del: length_greater_0_conv)?)

lemma decode_isis_safe: "unat len \<le> length buf \<Longrightarrow> runs P (decode_isis buf len sp_len)"
  unfolding decode_isis_def
  by (intro runs_intros; (simp add: runs_arith del: length_greater_0_conv)?)

lemma ra_option_safe:
  "unat option_len \<le> length buf + 2 \<Longrightarrow> runs P (ra_option option option_len buf icmpv6)"
  unfolding ra_option_def
  by (intro runs_intros; (simp add: runs_arith del: length_greater_0_conv)?)

text \<open>Every option is read within the length left, and the next one starts where it ends.\<close>

lemma nd_option_bounds:
  fixes len :: u16 and l :: u8
  assumes "\<not> len < 8" "unat len \<le> length buf" "\<not> ((ucast l * 8 :: u16) < 2 \<or> unat (len - 2) < unat (ucast l * 8 :: u16) - 2)"
  shows "unat (ucast l * 8 :: u16) \<le> length (drop 2 buf) + 2"
    and "unat (len - 2 - (ucast l * 8 - 2)) \<le> length (drop (unat (ucast l * 8 - 2 :: u16)) (drop 2 buf))"
    and "unat (len - 2 - (ucast l * 8 - 2)) < unat len"
proof -
  let ?o = "ucast l * 8 :: u16"
  have "8 \<le> unat len" "unat (len - 2) = unat len - 2"
    using assms(1) by (simp_all add: runs_arith)
  moreover have "2 \<le> unat ?o" "unat (?o - 2) = unat ?o - 2" "unat ?o - 2 \<le> unat (len - 2)"
    using assms(3) by (simp_all add: runs_arith)
  ultimately show "unat ?o \<le> length (drop 2 buf) + 2"
    "unat (len - 2 - (?o - 2)) \<le> length (drop (unat (?o - 2)) (drop 2 buf))"
    "unat (len - 2 - (?o - 2)) < unat len"
    using assms(2) by (simp_all add: unat_sub_le word_le_nat_alt)
qed

lemma ra_loop_safe: "unat len \<le> length buf \<Longrightarrow> runs P (ra_loop buf len s)"
proof (induction "unat len" arbitrary: buf len s rule: less_induct)
  case less
  show ?case
  proof (cases "len < 8")
    case False
    then have "rd8 buf \<noteq> None" "rd8 (drop 1 buf) \<noteq> None"
      using less.prems by (auto simp: reads_None_iff word_less_nat_alt not_less simp del: not_None_eq)
    then obtain t l where r: "rd8 buf = Some t" "rd8 (drop 1 buf) = Some l" by auto
    let ?o = "ucast l * 8 :: u16"
    show ?thesis
    proof (cases "?o < 2 \<or> unat (len - 2) < unat ?o - 2")
      case ok: False
      note b = nd_option_bounds [OF False less.prems ok]
      have "runs P (ra_option t ?o (drop 2 buf) s)" by (rule ra_option_safe [OF b(1)])
      moreover have "runs P (ra_loop (drop (unat (?o - 2)) (drop 2 buf)) (len - 2 - (?o - 2)) s')" for s'
        by (rule less.hyps [OF b(3,2)])
      ultimately show ?thesis
        using False ok r by (subst ra_loop.simps) (auto simp: runs_def Let_def split: option.splits sum.splits)
    qed (use False r in \<open>auto simp: ra_loop.simps [of buf] Let_def\<close>)
  qed (simp add: ra_loop.simps)
qed

lemma na_loop_safe: "unat len \<le> length buf \<Longrightarrow> runs P (na_loop buf len s)"
proof (induction "unat len" arbitrary: buf len s rule: less_induct)
  case less
  show ?case
  proof (cases "len < 8")
    case False
    then have "rd8 buf \<noteq> None" "rd8 (drop 1 buf) \<noteq> None" "ld_range (drop 2 buf) 0 6 \<noteq> None"
      using less.prems by (auto simp: reads_None_iff word_less_nat_alt not_less simp del: not_None_eq)
    then obtain t l m where r: "rd8 buf = Some t" "rd8 (drop 1 buf) = Some l" "ld_range (drop 2 buf) 0 6 = Some m" by auto
    let ?o = "ucast l * 8 :: u16"
    show ?thesis
    proof (cases "?o < 2 \<or> unat (len - 2) < unat ?o - 2")
      case ok: False
      note b = nd_option_bounds [OF False less.prems ok]
      have "runs P (na_loop (drop (unat (?o - 2)) (drop 2 buf)) (len - 2 - (?o - 2)) s')" for s'
        by (rule less.hyps [OF b(3,2)])
      then show ?thesis
        using False ok r by (subst na_loop.simps) (auto simp: Let_def)
    qed (use False r in \<open>auto simp: na_loop.simps [of buf] Let_def\<close>)
  qed (simp add: na_loop.simps)
qed

lemma decode_icmpv6_safe: "unat len \<le> length buf \<Longrightarrow> runs P (decode_icmpv6 buf len sp_len)"
  unfolding decode_icmpv6_def
  by (intro runs_intros; (simp add: runs_arith ra_loop_safe na_loop_safe del: length_greater_0_conv)?)

lemma ldp_tlv_safe: "unat n \<le> length buf \<Longrightarrow> runs P (ldp_tlv t n buf ldp)"
  unfolding ldp_tlv_def
  by (intro runs_intros; (simp add: runs_arith del: length_greater_0_conv)?)

lemma ldp_loop_safe: "unat len \<le> length buf \<Longrightarrow> runs P (tlv_loop ldp_tlv buf len ldp)"
  by (rule tlv_loop_safe [of "length buf"]) (simp_all add: ldp_tlv_safe)

text \<open>
  The PDU length of an LDP hello is checked against the data, but not against the six bytes of the
  LDP identifier that are subtracted from it.
\<close>

lemma ldp_pdu_safe: "6 \<le> len \<Longrightarrow> unat len \<le> length buf \<Longrightarrow> runs P (ldp_pdu buf len)"
  unfolding ldp_pdu_def
  by (intro runs_intros; (simp add: runs_arith ldp_loop_safe del: length_greater_0_conv)?)

lemma decode_ldp_hello_safe:
  assumes "unat len \<le> length buf" "\<And>n. rd_be16 (drop 2 buf) = Some n \<Longrightarrow> 6 \<le> n"
  shows "runs P (decode_ldp_hello buf len sp_len)"
proof (cases "len < 10 \<or> sp_len < 32")
  case False
  then have "rd_be16 buf \<noteq> None" "rd_be16 (drop 2 buf) \<noteq> None"
    using assms(1) by (auto simp: reads_None_iff word_less_nat_alt not_less simp del: not_None_eq)
  then obtain v n where r: "rd_be16 buf = Some v" "rd_be16 (drop 2 buf) = Some n" by auto
  have "\<not> n > len - 4 \<Longrightarrow> runs P (ldp_pdu (drop 4 buf) n)"
    using assms False r by (intro ldp_pdu_safe) (simp_all add: runs_arith)
  then show ?thesis using r False by (simp add: decode_ldp_hello_def)
qed (auto simp: decode_ldp_hello_def)

text \<open>A source address is read behind a query of 12 to 15 bytes that announces one.\<close>

lemma decode_igmp_safe:
  assumes "unat len \<le> length buf"
    "\<And>n. 12 \<le> len \<Longrightarrow> rd8 buf = Some 0x11 \<Longrightarrow> rd_be16 (drop 10 buf) = Some n \<Longrightarrow> n \<noteq> 0 \<Longrightarrow> 16 \<le> length buf"
  shows "runs P (decode_igmp buf len sp_len)"
proof (cases "len < 8 \<or> sp_len < 304")
  case False
  then have l: "8 \<le> length buf" "\<not> len < 12 \<Longrightarrow> 12 \<le> length buf"
    using assms(1) by (simp_all add: runs_arith)
  then show ?thesis
    unfolding decode_igmp_def Let_def
    by (intro runs_Some runs_if_or runs_if runs_bind)
       (use assms(2) in \<open>auto simp: runs_def reads_None_iff not_less split: if_splits\<close>)
qed (auto simp: decode_igmp_def)


section \<open>Round trips\<close>

lemma put16_2: "put16 2 c (a # b # x # y # rest) = a # b # ucast c # ucast (drop_bit 8 c) # rest"
  by (simp add: put16_def w_ne16_def)

lemma decode_encode_arp:
  assumes "arp_sender arp = Some s" "arp_target arp = Some t" "length s = 6" "length t = 6" "40 \<le> sp_len"
  shows "\<exists>bs. encode_arp arp = Some bs \<and> length bs = 28 \<and> decode_arp bs 28 sp_len = Some (Inr arp)"
  using assms by (simp add: encode_arp_def w_mac_def ld_range_def decode_arp_def not_less w_ne16_def)

lemma decode_encode_icmp:
  assumes "icmp_data icmp = (if d = [] then None else Some d)" "unat (icmp_data_len icmp) = length d"
    "length d + 4 < 65536" "24 \<le> sp_len"
  shows "\<exists>bs. encode_icmp icmp = Some bs \<and> length bs = length d + 4 \<and>
    decode_icmp bs (of_nat (length bs)) sp_len = Some (Inr icmp)"
proof -
  have n: "icmp_data_len icmp = of_nat (length d)" using assms(2) by (metis of_nat_unat_id)
  have "(of_nat (length d) :: u16) = 0 \<longleftrightarrow> d = []"
    using assms(2) n by (metis length_0_conv unat_eq_0)
  moreover have "unat (4 + of_nat (length d) :: u16) = 4 + length d"
    using unat_of_nat_small [of "4 + length d", where 'a = 16] assms(3) by simp
  ultimately show ?thesis
    using assms n by (auto simp: encode_icmp_def with_checksum_def put16_2 decode_icmp_def ld_range_def
        word_less_nat_alt word_le_nat_alt unat_of_nat_small)
qed


text \<open>The TLVs of a hello bring back what is not zero in the structure.\<close>

lemma ldp_v6_TLV:
  assumes "length a = 16" "length rest < 60000"
  shows "tlv_run ldp_tlv pad (w_be16 0x0403 @ w_be16 16 @ a @ rest) s = tlv_run ldp_tlv pad rest (s\<lparr>ldp_ipv6_transport_address := Some a\<rparr>)"
  using assms by (subst tlv_run_tlv) (simp_all add: ldp_tlv_def ld_range_def)

lemma ldp_dual_TLV:
  assumes "v < 16" "length rest < 60000"
  shows "tlv_run ldp_tlv pad (w_be16 0x8701 @ w_be16 4 @ [push_bit 4 v AND 0xf0, 0, 0, 0] @ rest) s =
    tlv_run ldp_tlv pad rest (s\<lparr>ldp_dual_stack_capability := v\<rparr>)"
proof -
  have "unat v < 2 ^ 4" using assms(1) by (simp add: word_less_nat_alt)
  then have "take_bit 4 (unat v) = unat v" by (rule take_bit_nat_eq_self)
  then have "unat (take_bit 4 v) = unat v" by (simp only: unsigned_take_bit_eq)
  then have v: "take_bit 4 v = v" by (simp only: unsigned_word_eqI)
  then have "v AND 0xf = v" by (simp add: take_bit_eq_mask mask_eq_exp_minus_1)
  from v have high: "\<not> bit v n" if "4 \<le> n" for n
    using that by (metis bit_take_bit_iff not_less)
  have "drop_bit 4 (push_bit 4 v AND 0xf0) AND 0xf = v"
  proof (rule bit_word_eqI)
    fix n assume n: "n < LENGTH(8)"
    have m: "(0xf0 :: u8) = push_bit 4 (mask 4)" "(0xf :: u8) = mask 4"
      by (simp_all add: mask_eq_exp_minus_1)
    show "bit (drop_bit 4 (push_bit 4 v AND 0xf0) AND 0xf) n \<longleftrightarrow> bit v n"
      unfolding m using high [of n] n by (auto simp: bit_simps simp flip: not_le)
  qed
  with \<open>v AND 0xf = v\<close> show ?thesis
    using assms(2) by (subst tlv_run_tlv) (simp_all add: ldp_tlv_def)
qed

lemma ldp_hold_TLV:
  assumes "length rest < 60000"
  shows "tlv_run ldp_tlv pad (w_be16 0x0400 @ w_be16 4 @ w_be16 h @ w_ne16 0 @ rest) s = tlv_run ldp_tlv pad rest (s\<lparr>ldp_hold_time := h\<rparr>)"
  using tlv_run_tlv [of "w_be16 h @ w_ne16 0" rest 4 ldp_tlv pad "0x0400" s] assms by (simp add: ldp_tlv_def)

lemma ldp_v4_TLV:
  assumes "length rest < 60000"
  shows "tlv_run ldp_tlv pad (w_be16 0x0401 @ w_be16 4 @ w_ne32 a @ rest) s =
    tlv_run ldp_tlv pad rest (s\<lparr>ldp_ipv4_transport_address := a\<rparr>)"
  using assms by (subst tlv_run_tlv) (simp_all add: ldp_tlv_def)

lemma ldp_tlvs_run:
  assumes "ldp_tlvs ldp = Some tlvs" "ldp_dual_stack_capability ldp < 16"
    "\<And>a. ldp_ipv6_transport_address ldp = Some a \<Longrightarrow> length a = 16"
    "ldp_ipv4_transport_address s = 0" "ldp_ipv6_transport_address s = None" "ldp_dual_stack_capability s = 0"
  shows "tlv_run ldp_tlv pad tlvs s = Some (Inr (s\<lparr>ldp_hold_time := ldp_hold_time ldp,
      ldp_ipv4_transport_address := ldp_ipv4_transport_address ldp,
      ldp_ipv6_transport_address := ldp_ipv6_transport_address ldp,
      ldp_dual_stack_capability := ldp_dual_stack_capability ldp\<rparr>))"
    and "length tlvs < 65000"
proof -
  define dual where "dual = (if ldp_dual_stack_capability ldp \<noteq> 0
    then w_be16 0x8701 @ w_be16 4 @ [push_bit 4 (ldp_dual_stack_capability ldp) AND 0xf0, 0, 0, 0] else [])"
  have d: "length dual \<le> 8" "tlv_run ldp_tlv pad dual s = Some (Inr (s\<lparr>ldp_dual_stack_capability := ldp_dual_stack_capability ldp\<rparr>))"
    if "ldp_dual_stack_capability s = 0" for s
    using that ldp_dual_TLV [OF assms(2), of "[]"] by (auto simp: dual_def)
  define v6 where "v6 = (case ldp_ipv6_transport_address ldp of None \<Rightarrow> [] | Some a \<Rightarrow> w_be16 0x0403 @ w_be16 16 @ a)"
  have v: "length v6 \<le> 20" using assms(3) by (auto simp: v6_def split: option.split)
  have v6: "tlv_run ldp_tlv pad (v6 @ dual) s = tlv_run ldp_tlv pad dual (s\<lparr>ldp_ipv6_transport_address := ldp_ipv6_transport_address ldp\<rparr>)"
    if "ldp_ipv6_transport_address s = None" for s
  proof -
    have "s\<lparr>ldp_ipv6_transport_address := None\<rparr> = s" using that by (cases s) simp
    then show ?thesis
      using d(1) [OF assms(6)] assms(3) ldp_v6_TLV [of _ dual] by (auto simp: v6_def split: option.split)
  qed
  define v4 where "v4 = (if ldp_ipv4_transport_address ldp \<noteq> 0 then w_be16 0x0401 @ w_be16 4 @ w_ne32 (ldp_ipv4_transport_address ldp) else [])"
  have v4: "tlv_run ldp_tlv pad (v4 @ v6 @ dual) s = tlv_run ldp_tlv pad (v6 @ dual) (s\<lparr>ldp_ipv4_transport_address := ldp_ipv4_transport_address ldp\<rparr>)"
    if "ldp_ipv4_transport_address s = 0" for s
  proof -
    have "s\<lparr>ldp_ipv4_transport_address := 0\<rparr> = s" using that by (cases s) simp
    then show ?thesis
      using d(1) [OF assms(6)] v ldp_v4_TLV [of "v6 @ dual"] by (auto simp: v4_def)
  qed
  have e: "tlvs = w_be16 0x0400 @ w_be16 4 @ w_be16 (ldp_hold_time ldp) @ w_ne16 0 @ v4 @ v6 @ dual"
    using assms(1,3) by (auto simp: ldp_tlvs_def v4_def v6_def dual_def ld_range_def split: bind_splits option.splits)
  have l: "length (v4 @ v6 @ dual) < 60000" using v d(1) [OF assms(6)] by (simp add: v4_def)
  show "length tlvs < 65000" using l by (simp add: e)
  show "tlv_run ldp_tlv pad tlvs s = Some (Inr (s\<lparr>ldp_hold_time := ldp_hold_time ldp,
      ldp_ipv4_transport_address := ldp_ipv4_transport_address ldp,
      ldp_ipv6_transport_address := ldp_ipv6_transport_address ldp,
      ldp_dual_stack_capability := ldp_dual_stack_capability ldp\<rparr>))"
    using assms(4-6) by (simp add: e ldp_hold_TLV [OF l] v4 v6 d(2))
qed

lemma ldp_pdu_message:
  assumes "unat m = length tlvs + 4" "unat n = length tlvs + 14"
  shows "ldp_pdu (w_ne32 a @ w_be16 b @ w_be16 0x0100 @ w_be16 m @ w_be32 i @ tlvs) n =
    tlv_loop ldp_tlv tlvs (of_nat (length tlvs))
      \<lparr>ldp_lsr_id = a, ldp_label_space_id = b, ldp_hold_time = 0, ldp_msg_id = i,
       ldp_ipv4_transport_address = 0, ldp_ipv6_transport_address = None, ldp_dual_stack_capability = 0\<rparr>"
proof -
  have "unat (n - 6) = length tlvs + 8" "unat (n - 10) = length tlvs + 4"
    using assms(2) by (simp_all add: unat_sub_le word_le_nat_alt)
  then have u: "\<not> n - 6 < 4" "\<not> m > n - 10" "\<not> m < 4"
    using assms(1) by (simp_all add: word_less_nat_alt)
  have "m = of_nat (length tlvs + 4)" using assms(1) by (metis of_nat_unat_id)
  then have m: "m - 4 = of_nat (length tlvs)" by simp
  show ?thesis
    unfolding ldp_pdu_def Let_def using u m by simp
qed

lemma decode_encode_ldp_hello:
  assumes "ldp_dual_stack_capability ldp < 16" "\<And>a. ldp_ipv6_transport_address ldp = Some a \<Longrightarrow> length a = 16" "32 \<le> sp_len"
  shows "\<exists>bs. encode_ldp_hello ldp = Some bs \<and> decode_ldp_hello bs (of_nat (length bs)) sp_len = Some (Inr ldp)"
proof -
  obtain tlvs where t: "ldp_tlvs ldp = Some tlvs"
    using assms(2) by (cases "ldp_ipv6_transport_address ldp") (auto simp: ldp_tlvs_def ld_range_def)
  define s where "s = \<lparr>ldp_lsr_id = ldp_lsr_id ldp, ldp_label_space_id = ldp_label_space_id ldp, ldp_hold_time = 0,
    ldp_msg_id = ldp_msg_id ldp, ldp_ipv4_transport_address = 0, ldp_ipv6_transport_address = None, ldp_dual_stack_capability = 0\<rparr>"
  note run = ldp_tlvs_run [OF t assms(1,2), of s]
  have l: "length tlvs < 65000" by (rule run(2)) (simp_all add: s_def)
  have r: "tlv_loop ldp_tlv tlvs (of_nat (length tlvs)) s = Some (Inr ldp)"
    using run(1) [where pad = "[]"] by (simp add: tlv_run_def s_def)
  define m n len :: u16 where "m = of_nat (length tlvs + 4)" and "n = of_nat (length tlvs + 14)" and "len = of_nat (length tlvs + 18)"
  have u: "unat m = length tlvs + 4" "unat n = length tlvs + 14" "unat len = length tlvs + 18"
    unfolding m_def n_def len_def by (rule unat_of_nat_small, use l in simp)+
  then have "\<not> len < 10" "unat (len - 4) = unat n" by (simp_all add: word_less_nat_alt unat_sub_le word_le_nat_alt)
  then have c: "\<not> len < 10" "\<not> n > len - 4" by (simp_all add: word_less_nat_alt)
  define pdu where "pdu = w_ne32 (ldp_lsr_id ldp) @ w_be16 (ldp_label_space_id ldp) @ w_be16 0x0100 @ w_be16 m @ w_be32 (ldp_msg_id ldp) @ tlvs"
  have p: "ldp_pdu pdu n = Some (Inr ldp)"
    using ldp_pdu_message [OF u(1,2)] r by (simp add: pdu_def s_def)
  have "length pdu = length tlvs + 14" by (simp add: pdu_def)
  then have e: "encode_ldp_hello ldp = Some (w_be16 1 @ w_be16 n @ pdu)"
    by (simp add: encode_ldp_hello_def t Let_def pdu_def n_def m_def add.commute)
  have "(of_nat (length (w_be16 1 @ w_be16 n @ pdu)) :: u16) = len" by (simp add: len_def pdu_def)
  then show ?thesis
    using c p e assms(3) by (simp add: decode_ldp_hello_def not_less)
qed


section \<open>LACP\<close>

lemma lacp_tlv_Inr:
  assumes "lacp_tlv buf len s = Some (Inr (n, l, s'))"
  shows "\<exists>t rest. buf = t # n # rest \<and>
    (if t = 0 then l = 0 else l = len \<and> unat n \<le> unat len) \<and> (t \<in> {1, 2} \<longrightarrow> n = 20)"
proof -
  from assms obtain t m where r: "rd8 buf = Some t" "rd8 (drop 1 buf) = Some m"
    by (auto simp: lacp_tlv_def split: bind_splits)
  then obtain rest where b: "buf = t # m # rest"
    by (cases buf; cases "tl buf") auto
  then show ?thesis
    using assms by (auto simp: lacp_tlv_def word_less_nat_alt split: bind_splits if_splits)
qed

lemma lacp_tlv_safe: "2 \<le> unat len \<Longrightarrow> unat len \<le> length buf \<Longrightarrow> runs P (lacp_tlv buf len s)"
  unfolding lacp_tlv_def
  by (intro runs_intros; (auto simp: runs_arith)?)

text \<open>TLVs on which the decoder goes wrong: empty ones it does not know, and terminators that are not empty.\<close>

definition empty_unknown_tlv :: "u8 list \<Rightarrow> bool" where
  "empty_unknown_tlv buf \<longleftrightarrow> (\<exists>p. Suc p < length buf \<and> buf ! p \<notin> {0, 1, 2} \<and> buf ! Suc p = 0)"

definition long_terminator :: "u8 list \<Rightarrow> bool" where
  "long_terminator buf \<longleftrightarrow> (\<exists>p. Suc p < length buf \<and> buf ! p = 0 \<and> buf ! Suc p \<noteq> 0)"

lemma at_suffix: "\<exists>p. Suc p < length (drop k buf) \<and> Q (drop k buf ! p) (drop k buf ! Suc p) \<Longrightarrow>
  \<exists>p. Suc p < length buf \<and> Q (buf ! p) (buf ! Suc p)"
  by (elim exE conjE, rule exI [of _ "k + _"]) auto

lemma empty_unknown_tlv_drop: "empty_unknown_tlv (drop k buf) \<Longrightarrow> empty_unknown_tlv buf"
  unfolding empty_unknown_tlv_def by (rule at_suffix)

lemma long_terminator_drop: "long_terminator (drop k buf) \<Longrightarrow> long_terminator buf"
  unfolding long_terminator_def by (rule at_suffix)

lemma lacp_loop_returns: "lacp_loop buf len s = None \<Longrightarrow> empty_unknown_tlv buf"
proof (induction "length buf" arbitrary: buf len s rule: less_induct)
  case less
  then obtain n l s' where t: "2 \<le> len" "lacp_tlv buf len s = Some (Inr (n, l, s'))"
    and rec: "lacp_loop (drop (unat n) buf) (l - ucast n) s' = None"
    by (subst (asm) lacp_loop.simps) (auto split: if_splits option.splits sum.splits)
  from lacp_tlv_Inr [OF t(2)] obtain ty rest where b: "buf = ty # n # rest" "ty = 0 \<Longrightarrow> l = 0" "ty \<in> {1, 2} \<longrightarrow> n = 20"
    by (auto split: if_splits)
  show ?case
  proof (cases "n = 0")
    case True
    have "ty \<noteq> 0"
    proof
      assume "ty = 0"
      then have "lacp_loop (drop (unat n) buf) 0 s' = None" using rec b(2) True by simp
      then show False by (subst (asm) lacp_loop.simps) simp
    qed
    then show ?thesis
      using True b by (auto simp: empty_unknown_tlv_def intro!: exI [of _ 0])
  next
    case False
    then have "length (drop (unat n) buf) < length buf"
      using b by (simp add: unat_gt_0)
    then show ?thesis using less.hyps rec empty_unknown_tlv_drop by blast
  qed
qed

lemma lacp_loop_safe:
  "unat len \<le> length buf \<Longrightarrow> \<not> empty_unknown_tlv buf \<Longrightarrow> lacp_loop buf len s = Some None \<Longrightarrow> long_terminator buf"
proof (induction "length buf" arbitrary: buf len s rule: less_induct)
  case less
  have len: "2 \<le> len" using less.prems(3) by (subst (asm) lacp_loop.simps) (auto split: if_splits)
  then have "lacp_tlv buf len s \<noteq> None"
    using lacp_tlv_safe [of len buf False s] less.prems(1) by (simp add: runs_False word_le_nat_alt)
  then obtain n l s' where t: "lacp_tlv buf len s = Some (Inr (n, l, s'))"
    and rec: "lacp_loop (drop (unat n) buf) (l - ucast n) s' = Some None"
    using less.prems(3) len lacp_loop.simps [of buf len s] by (auto simp: not_less [symmetric] split: option.splits sum.splits)
  from lacp_tlv_Inr [OF t] obtain ty rest where b: "buf = ty # n # rest" "ty = 0 \<Longrightarrow> l = 0"
    "ty \<noteq> 0 \<Longrightarrow> l = len \<and> unat n \<le> unat len" "ty \<in> {1, 2} \<longrightarrow> n = 20"
    by (auto split: if_splits)
  show ?case
  proof (cases "ty = 0")
    case True
    have "n \<noteq> 0"
    proof
      assume "n = 0"
      with rec True b(2) show False by (subst (asm) lacp_loop.simps) simp
    qed
    then show ?thesis using True b(1) by (auto simp: long_terminator_def intro!: exI [of _ 0])
  next
    case False
    have "n \<noteq> 0"
      using less.prems(2) False b by (auto simp: empty_unknown_tlv_def dest!: spec [of _ 0])
    then have "length (drop (unat n) buf) < length buf" using b by (simp add: unat_gt_0)
    moreover have "unat (l - ucast n) \<le> length (drop (unat n) buf)"
      using b(3) [OF False] less.prems(1) by (simp add: unat_sub_le word_le_nat_alt)
    ultimately show ?thesis
      using less.hyps rec less.prems(2) empty_unknown_tlv_drop long_terminator_drop by blast
  qed
qed

lemma lacp_loop_endless: "2 \<le> len \<Longrightarrow> t \<notin> {0, 1, 2} \<Longrightarrow> lacp_loop (t # 0 # rest) len s = None"
proof (rule ccontr)
  assume len: "2 \<le> len" and t: "t \<notin> {0, 1, 2}" and "lacp_loop (t # 0 # rest) len s \<noteq> None"
  then obtain r where r: "lacp_loop (t # 0 # rest) len s = Some r"
    by blast
  have "t # 0 # rest = t # 0 # rest \<longrightarrow> 2 \<le> len \<longrightarrow> False"
  proof (rule lacp_loop.raw_induct [where P = "\<lambda>buf len s r. buf = t # 0 # rest \<longrightarrow> 2 \<le> len \<longrightarrow> False", OF _ r])
    fix f :: "u8 list \<Rightarrow> u16 \<Rightarrow> bbl_lacp \<Rightarrow> bbl_lacp decoded option" and buf len s r
    assume IH: "\<And>buf len s r. f buf len s = Some r \<Longrightarrow> buf = t # 0 # rest \<longrightarrow> 2 \<le> len \<longrightarrow> False"
      and eq: "(if len < 2 then Some (Some (Inr s))
        else case lacp_tlv buf len s of
            None \<Rightarrow> Some None
          | Some (Inl e) \<Rightarrow> Some (Some (Inl e))
          | Some (Inr (tlv_len, len, s)) \<Rightarrow> f (drop (unat tlv_len) buf) (len - ucast tlv_len) s) = Some r"
    show "buf = t # 0 # rest \<longrightarrow> 2 \<le> len \<longrightarrow> False"
    proof (intro impI)
      assume b: "buf = t # 0 # rest" and l: "2 \<le> len"
      have "lacp_tlv buf len s = Some (Inr (0, len, s))" using t b by (simp add: lacp_tlv_def)
      then have "f buf len s = Some r" using eq l by (simp add: not_less [symmetric])
      then show False using IH b l by blast
    qed
  qed
  with len show False by simp
qed

lemma decode_lacp_over_read:
  assumes "unat len \<le> length buf" "len \<noteq> 0" "decode_lacp buf len sp_len = Some None"
  shows "long_terminator buf \<or> empty_unknown_tlv buf"
proof (rule ccontr)
  assume n: "\<not> (long_terminator buf \<or> empty_unknown_tlv buf)"
  have "buf \<noteq> []" using assms(1,2) by (auto simp: unat_gt_0 unat_eq_0)
  then obtain b rest where b: "buf = b # rest" by (cases buf) auto
  have l: "1 \<le> unat len" using assms(2) by (simp add: unat_gt_0 Suc_le_eq)
  then have u: "unat (len - 1) = unat len - 1" by (simp add: unat_sub_le word_le_nat_alt)
  have "109 \<le> unat (len - 1)" and v: "rd8 rest = None \<or> lacp_loop (drop 1 rest) (len - 1 - 1) zero_lacp = Some None"
    using assms(2,3) by (auto simp: decode_lacp_def b Let_def word_less_nat_alt split: if_splits option.splits)
  moreover from this(1) have "rd8 rest \<noteq> None" "unat (len - 1 - 1) \<le> length (drop 1 rest)"
    using assms(1) u by (auto simp: reads_None_iff b unat_sub_le word_le_nat_alt simp del: not_None_eq diff_diff_eq diff_diff_add)
  ultimately have "long_terminator (drop 1 rest) \<or> empty_unknown_tlv (drop 1 rest)"
    using lacp_loop_safe [of "len - 1 - 1" "drop 1 rest"] by blast
  moreover have "drop 1 rest = drop 2 buf" by (simp add: b)
  ultimately show False using n long_terminator_drop empty_unknown_tlv_drop by metis
qed

text \<open>Round trip.\<close>

lemma lacp_actor_TLV:
  assumes "length i = 6"
  shows "lacp_tlv ([1, 20] @ w_be16 a @ i @ w_be16 k @ w_be16 p @ w_be16 q @ [e, 0, 0, 0] @ rest) len s =
    (if len < 20 then Some (Inl DECODE_ERROR)
     else Some (Inr (20, len, s\<lparr>lacp_actor_system_priority := a, lacp_actor_system_id := Some i,
            lacp_actor_key := k, lacp_actor_port_priority := p, lacp_actor_port_id := q, lacp_actor_state := e\<rparr>)))"
  using assms by (simp add: lacp_tlv_def ld_range_def)

lemma lacp_partner_TLV:
  assumes "length i = 6"
  shows "lacp_tlv ([2, 20] @ w_be16 a @ i @ w_be16 k @ w_be16 p @ w_be16 q @ [e, 0, 0, 0] @ rest) len s =
    (if len < 20 then Some (Inl DECODE_ERROR)
     else Some (Inr (20, len, s\<lparr>lacp_partner_system_priority := a, lacp_partner_system_id := Some i,
            lacp_partner_key := k, lacp_partner_port_priority := p, lacp_partner_port_id := q, lacp_partner_state := e\<rparr>)))"
  using assms by (simp add: lacp_tlv_def ld_range_def)

lemma rd8_replicate: "0 < n \<Longrightarrow> rd8 (replicate n x) = Some x"
  by (cases n) simp_all

lemma lacp_collector_loop: "lacp_loop ([3, 16] @ replicate 66 0) 68 s = Some (Some (Inr s))"
  by (simp add: lacp_loop.simps [of _ 68] lacp_loop.simps [of _ 52] lacp_loop.simps [of _ 0] lacp_tlv_def rd8_replicate)

lemma lacp_loop_step:
  "2 \<le> len \<Longrightarrow> lacp_tlv buf len s = Some (Inr (n, l, s')) \<Longrightarrow>
   lacp_loop buf len s = lacp_loop (drop (unat n) buf) (l - ucast n) s'"
  by (simp add: lacp_loop.simps [of buf] not_less [symmetric])

lemma lacp_actor_partner_loop:
  assumes "length i = 6" "length j = 6"
  shows "lacp_loop ([1, 20] @ w_be16 a @ i @ w_be16 k @ w_be16 p @ w_be16 q @ [e, 0, 0, 0] @
      [2, 20] @ w_be16 b @ j @ w_be16 l @ w_be16 x @ w_be16 y @ [f, 0, 0, 0] @ [3, 16] @ replicate 66 0) 108 s =
    Some (Some (Inr (s\<lparr>lacp_actor_system_priority := a, lacp_actor_system_id := Some i,
      lacp_actor_key := k, lacp_actor_port_priority := p, lacp_actor_port_id := q, lacp_actor_state := e,
      lacp_partner_system_priority := b, lacp_partner_system_id := Some j,
      lacp_partner_key := l, lacp_partner_port_priority := x, lacp_partner_port_id := y, lacp_partner_state := f\<rparr>)))"
proof -
  define B where "B = [3, 16] @ replicate 66 (0 :: u8)"
  define A where "A = [2, 20] @ w_be16 b @ j @ w_be16 l @ w_be16 x @ w_be16 y @ [f, 0, 0, 0] @ B"
  have d: "drop 20 ([1, 20] @ w_be16 a @ i @ w_be16 k @ w_be16 p @ w_be16 q @ [e, 0, 0, 0] @ A) = A" "drop 20 A = B"
    using assms by (simp_all add: A_def)
  have B: "lacp_loop B 68 s = Some (Some (Inr s))" for s
    unfolding B_def by (rule lacp_collector_loop)
  have A: "lacp_loop A 88 s = Some (Some (Inr (s\<lparr>lacp_partner_system_priority := b, lacp_partner_system_id := Some j,
      lacp_partner_key := l, lacp_partner_port_priority := x, lacp_partner_port_id := y, lacp_partner_state := f\<rparr>)))" for s
    using lacp_loop_step [OF _ lacp_partner_TLV [OF assms(2), of b l x y f B 88 s, unfolded A_def [symmetric], simplified]]
    by (simp add: d B)
  show ?thesis
    using lacp_loop_step [OF _ lacp_actor_TLV [OF assms(1), of a k p q e A 108 s, simplified]]
    unfolding B_def [symmetric] A_def [symmetric] by (simp add: d(1) [simplified] A)
qed

lemma decode_encode_lacp:
  assumes "lacp_actor_system_id lacp = Some a" "length a = 6" "lacp_partner_system_id lacp = Some p" "length p = 6" "48 \<le> sp_len"
  shows "\<exists>bs. encode_lacp lacp = Some bs \<and> length bs = 110 \<and> decode_lacp bs 110 sp_len = Some (Some (Inr lacp))"
proof -
  obtain tlvs where e: "encode_lacp lacp = Some (1 # 1 # tlvs)" and l: "length tlvs = 108"
    and r: "lacp_loop tlvs 108 zero_lacp = Some (Some (Inr lacp))"
    using assms lacp_actor_partner_loop [of a p]
    by (simp add: encode_lacp_def ptr_range_def ld_range_def zero_lacp_def)
  then show ?thesis using assms(5) by (simp add: decode_lacp_def Let_def not_less)
qed


section \<open>Neighbor discovery and CFM\<close>

lemma decode_encode_neighbor_solicitation:
  assumes "icmpv6_type x = IPV6_ICMPV6_NEIGHBOR_SOLICITATION" "icmpv6_data_len x = 0"
    "icmpv6_mac x = Some mac" "length mac = 6" "length (icmpv6_prefix_address x) = 16" "72 \<le> sp_len"
  shows "\<exists>bs y. encode_icmpv6 old x = Some bs \<and> length bs = 32 \<and> decode_icmpv6 bs 32 sp_len = Some (Inr y) \<and>
    icmpv6_type y = icmpv6_type x \<and> icmpv6_code y = icmpv6_code x \<and> icmpv6_prefix_address y = icmpv6_prefix_address x"
  using assms by (simp add: encode_icmpv6_def ptr_range_def ld_range_def with_checksum_def put16_2 decode_icmpv6_def not_less)

lemma na_loop_target: "length mac = 6 \<Longrightarrow> na_loop (2 # 1 # mac) 8 s = Some (Inr (s\<lparr>icmpv6_dst_mac := Some mac\<rparr>))"
  by (simp add: na_loop.simps ld_range_def Let_def)

lemma decode_encode_neighbor_advertisement:
  assumes "icmpv6_type x = IPV6_ICMPV6_NEIGHBOR_ADVERTISEMENT" "icmpv6_data_len x = 0"
    "icmpv6_mac x = Some mac" "length mac = 6" "length (icmpv6_prefix_address x) = 16" "72 \<le> sp_len" "8 \<le> length old"
  shows "\<exists>bs y. encode_icmpv6 old x = Some bs \<and> length bs = 32 \<and> decode_icmpv6 bs 32 sp_len = Some (Inr y) \<and>
    icmpv6_type y = icmpv6_type x \<and> icmpv6_code y = icmpv6_code x \<and> icmpv6_prefix_address y = icmpv6_prefix_address x \<and>
    icmpv6_dst_mac y = Some mac"
proof -
  define t where "t = take 3 (drop 5 old)"
  then have "length t = 3" using assms(7) by simp
  then obtain u v w where "t = [u, v, w]"
    by (auto simp: eval_nat_numeral length_Suc_conv)
  with t_def have old: "ld_range old 5 3 = Some [u, v, w]"
    using assms(7) by (simp add: ld_range_def)
  show ?thesis
    using assms by (simp add: encode_icmpv6_def old ptr_range_def ld_range_def [of _ 0] with_checksum_def put16_2
        decode_icmpv6_def na_loop_target not_less)
qed

lemma cfm_md_room: "cfm_md cfm = Some (md, m, cfm') \<Longrightarrow> length md + unat m = 45"
proof -
  have "unat (45 - (k + 1) :: u8) = 44 - unat k" if "k \<le> 32" for k :: u8
  proof -
    have "unat (k + 1) = unat k + 1"
      using that by (subst unat_word_ariths) (simp add: word_le_nat_alt)
    then show ?thesis
      using that by (subst unat_sub) (simp_all add: word_le_nat_alt)
  qed
  note room = this [unfolded word_le_nat_alt]
  assume "cfm_md cfm = Some (md, m, cfm')"
  then show ?thesis
    using room [of "cfm_md_name_len cfm"]
    by (auto simp: cfm_md_def Let_def ptr_range_def ld_range_def not_less word_less_nat_alt
        split: bind_splits if_splits option.splits)
qed

lemma encode_cfm_shape:
  assumes "encode_cfm cfm = Some (Inr (bs, cfm'))"
  shows "length bs = 87 \<and> bs ! 3 = 70 \<and> drop 74 bs = [1, 0, 1, 0, 2, 0, 1, 2, 4, 0, 1, 1, 0]"
proof -
  obtain md m c where md: "cfm_md cfm = Some (md, m, c)"
    using assms by (auto simp: encode_cfm_def split: if_splits bind_splits)
  define n where "n = (if cfm_ma_name_len c > m then m else cfm_ma_name_len c)"
  obtain ma where ma: "ptr_range (cfm_ma_name c) (unat n) = Some ma"
    using assms by (auto simp: encode_cfm_def md n_def [symmetric] split: if_splits bind_splits)
  then have l: "length ma = unat n" "unat n \<le> unat m"
    by (auto simp: n_def ptr_range_def ld_range_def word_less_nat_alt split: option.splits if_splits)
  define X where "X = [push_bit 5 (cfm_md_level c), cfm_type c, if cfm_rdi c then 4 OR 128 else 4, 70] @ w_be32 (cfm_seq c) @
       w_be16 (cfm_ma_id c) @ [cfm_md_name_format c] @ md @ [cfm_ma_name_format c, n] @ ma @
       replicate (unat m - unat n) 0 @ replicate 16 0"
  have "bs = X @ [1] @ w_be16 1 @ [0] @ [2] @ w_be16 1 @ [2] @ [4] @ w_be16 1 @ [1] @ [0]"
    using assms by (simp add: encode_cfm_def md n_def [symmetric] ma X_def split: if_splits)
  moreover have "length X = 74" using l cfm_md_room [OF md] by (simp add: X_def)
  moreover have "X ! 3 = 70" by (simp add: X_def)
  ultimately show ?thesis by (simp add: nth_append w_be16_def)
qed

lemma ptr_range_Some: "unat n \<le> length bs \<Longrightarrow> ptr_range (Some bs) (unat n) = Some (take (unat n) bs)"
  by (simp add: ptr_range_def ld_range_def)

lemma encode_cfm_ok:
  assumes "cfm_type cfm = 1" "cfm_ma_name cfm = Some ma" "unat (cfm_ma_name_len cfm) \<le> length ma"
    "cfm_md_name cfm = Some md" "unat (cfm_md_name_len cfm) \<le> length md"
  shows "\<exists>bs cfm'. encode_cfm cfm = Some (Inr (bs, cfm'))"
proof -
  have "\<exists>x m c. cfm_md cfm = Some (x, m, c) \<and> cfm_ma_name c = Some ma \<and> cfm_ma_name_len c = cfm_ma_name_len cfm"
    using assms by (simp add: cfm_md_def Let_def ptr_range_Some ptr_range_def ld_range_def word_less_nat_alt)
  then obtain x m c where c: "cfm_md cfm = Some (x, m, c)" "cfm_ma_name c = Some ma"
    "cfm_ma_name_len c = cfm_ma_name_len cfm" by blast
  define n where "n = (if cfm_ma_name_len c > m then m else cfm_ma_name_len c)"
  have "unat n \<le> length ma" using assms(3) c(3) by (auto simp: n_def word_less_nat_alt)
  then show ?thesis
    by (simp add: encode_cfm_def assms(1) c(1,2) n_def [symmetric] ptr_range_Some Let_def split del: if_split)
qed


lemma decode_igmp_short_query:
  assumes "n \<noteq> 0" "length rest < 4" "304 \<le> sp_len"
  shows "decode_igmp ([0x11, a, b, c] @ w_ne32 g @ [r, q] @ w_be16 n @ rest) (of_nat (length rest + 12)) sp_len = None"
proof -
  have len: "unat (of_nat (length rest + 12) :: u16) = length rest + 12"
    using assms(2) by (intro unat_of_nat_small) simp
  define len :: u16 where "len = of_nat (length rest + 12)"
  have "\<not> len < 8" "\<not> len < 12"
    using len unfolding len_def [symmetric] by (simp_all add: word_less_nat_alt)
  moreover have "rd_ne32 rest = None" using assms(2) by (simp add: reads_None_iff)
  ultimately show ?thesis
    unfolding len_def [symmetric] using assms(1,3) by (simp add: decode_igmp_def not_less)
qed

lemma decode_ldp_hello_short_pdu:
  "32 \<le> sp_len \<Longrightarrow> decode_ldp_hello (w_be16 1 @ w_be16 0 @ w_ne32 i @ w_be16 l) 10 sp_len = None"
  using rd_be16_None_iff [of "[]"] rd_be16_w [of l "[]"] by (simp add: decode_ldp_hello_def ldp_pdu_def not_less)

lemma lacp_unknown_loop:
  "length info = 16 \<Longrightarrow> 18 \<le> len \<Longrightarrow> lacp_loop (9 # 18 # info @ xs) len s = lacp_loop xs (len - 18) s"
  by (subst lacp_loop_step [where n = 18 and l = len and s' = s]) (simp_all add: lacp_tlv_def word_le_nat_alt word_less_nat_alt)

lemma decode_lacp_long_terminator:
  assumes "length info = 16" "48 \<le> sp_len"
  shows "decode_lacp ([1, 1] @ concat (replicate 6 ([9, 18] @ info)) @ [0, 2]) 112 sp_len = Some None"
proof -
  have "concat (replicate 6 ([9, 18] @ info)) = 9 # 18 # info @ 9 # 18 # info @ 9 # 18 # info @ 9 # 18 # info @ 9 # 18 # info @ 9 # 18 # info"
    by (simp add: eval_nat_numeral)
  moreover have "lacp_loop [0, 2] 2 s = lacp_loop [] (- 2) s" for s
    by (subst lacp_loop_step [where n = 2 and l = 0 and s' = s]) (simp_all add: lacp_tlv_def)
  moreover have "lacp_loop [] (- 2) s = Some None" for s
    by (subst lacp_loop.simps) (simp add: lacp_tlv_def)
  ultimately show ?thesis
    using assms by (simp add: decode_lacp_def Let_def not_less lacp_unknown_loop)
qed

section \<open>Properties\<close>



text \<open>
  C28. What the encoders of ARP, ICMP, LDP hello, LACP and ICMPv6 neighbor discovery write is
  decoded to what was encoded: all fields of the structure for the first four, type, code, target
  address and link-layer address for the last two.
\<close>

theorem control_round_trip:
  assumes "arp_sender arp = Some s" "arp_target arp = Some t" "length s = 6" "length t = 6"
    and "icmp_data icmp = (if d = [] then None else Some d)" "unat (icmp_data_len icmp) = length d" "length d + 4 < 65536"
    and "ldp_dual_stack_capability ldp < 16" "\<And>a. ldp_ipv6_transport_address ldp = Some a \<Longrightarrow> length a = 16"
    and "lacp_actor_system_id lacp = Some i" "length i = 6" "lacp_partner_system_id lacp = Some p" "length p = 6"
    and "icmpv6_type nd \<in> {135, 136}" "icmpv6_data_len nd = 0" "icmpv6_mac nd = Some mac" "length mac = 6"
    and "length (icmpv6_prefix_address nd) = 16" "8 \<le> length old" "72 \<le> sp_len"
  shows "(\<exists>bs. encode_arp arp = Some bs \<and> decode_arp bs (of_nat (length bs)) sp_len = Some (Inr arp)) \<and>
    (\<exists>bs. encode_icmp icmp = Some bs \<and> decode_icmp bs (of_nat (length bs)) sp_len = Some (Inr icmp)) \<and>
    (\<exists>bs. encode_ldp_hello ldp = Some bs \<and> decode_ldp_hello bs (of_nat (length bs)) sp_len = Some (Inr ldp)) \<and>
    (\<exists>bs. encode_lacp lacp = Some bs \<and> decode_lacp bs (of_nat (length bs)) sp_len = Some (Some (Inr lacp))) \<and>
    (\<exists>bs y. encode_icmpv6 old nd = Some bs \<and> decode_icmpv6 bs (of_nat (length bs)) sp_len = Some (Inr y) \<and>
      icmpv6_type y = icmpv6_type nd \<and> icmpv6_code y = icmpv6_code nd \<and>
      icmpv6_prefix_address y = icmpv6_prefix_address nd \<and> (icmpv6_type nd = 136 \<longrightarrow> icmpv6_dst_mac y = icmpv6_mac nd))"
proof -
  have sp: "24 \<le> sp_len" "32 \<le> sp_len" "40 \<le> sp_len" "48 \<le> sp_len"
    using assms(20) by (simp_all add: word_le_nat_alt)
  have "\<exists>bs y. encode_icmpv6 old nd = Some bs \<and> length bs = 32 \<and> decode_icmpv6 bs 32 sp_len = Some (Inr y) \<and>
      icmpv6_type y = icmpv6_type nd \<and> icmpv6_code y = icmpv6_code nd \<and>
      icmpv6_prefix_address y = icmpv6_prefix_address nd \<and> (icmpv6_type nd = 136 \<longrightarrow> icmpv6_dst_mac y = icmpv6_mac nd)"
  proof (cases "icmpv6_type nd = 135")
    case True
    with decode_encode_neighbor_solicitation [OF True assms(15-18,20), of old] show ?thesis by fastforce
  next
    case False
    then have "icmpv6_type nd = 136" using assms(14) by simp
    from decode_encode_neighbor_advertisement [OF this assms(15-18,20,19)] show ?thesis
      using assms(16) by fastforce
  qed
  with decode_encode_arp [OF assms(1-4) sp(3)] decode_encode_icmp [OF assms(5-7) sp(1)]
    decode_encode_ldp_hello [OF assms(8,9) sp(2)] decode_encode_lacp [OF assms(10-13) sp(4)]
  show ?thesis by fastforce
qed

theorem control_round_trip_witness:
  "\<exists>bs. encode_ldp_hello \<lparr>ldp_lsr_id = 0x0102000a, ldp_label_space_id = 0, ldp_hold_time = 15, ldp_msg_id = 1,
     ldp_ipv4_transport_address = 0x0102000a, ldp_ipv6_transport_address = None, ldp_dual_stack_capability = 4\<rparr> = Some bs \<and>
     decode_ldp_hello bs (of_nat (length bs)) 4096 = Some (Inr \<lparr>ldp_lsr_id = 0x0102000a, ldp_label_space_id = 0,
       ldp_hold_time = 15, ldp_msg_id = 1, ldp_ipv4_transport_address = 0x0102000a, ldp_ipv6_transport_address = None,
       ldp_dual_stack_capability = 4\<rparr>)"
  using control_round_trip [of "\<lparr>arp_code = 1, arp_sender = Some (replicate 6 2), arp_sender_ip = 3,
      arp_target = Some (replicate 6 4), arp_target_ip = 5\<rparr>" "replicate 6 2" "replicate 6 4"
    "\<lparr>icmp_type = 8, icmp_code = 0, icmp_data = Some [1, 2], icmp_data_len = 2\<rparr>" "[1, 2]"
    "\<lparr>ldp_lsr_id = 0x0102000a, ldp_label_space_id = 0, ldp_hold_time = 15, ldp_msg_id = 1,
     ldp_ipv4_transport_address = 0x0102000a, ldp_ipv6_transport_address = None, ldp_dual_stack_capability = 4\<rparr>"
    "zero_lacp\<lparr>lacp_actor_system_id := Some (replicate 6 1), lacp_partner_system_id := Some (replicate 6 2)\<rparr>"
    "replicate 6 1" "replicate 6 2"
    "zero_icmpv6\<lparr>icmpv6_type := 136, icmpv6_mac := Some (replicate 6 7)\<rparr>" "replicate 6 7" "replicate 8 0" 4096]
  by (simp add: zero_lacp_def zero_icmpv6_def)



text \<open>
  C30. Over-reads that can occur: the decoders go behind the data of every IGMP query of 12 to 15
  bytes that announces sources, of every LDP hello of ten bytes with a PDU length of zero, and of
  an LACP frame that ends with a terminator TLV that has a length.
\<close>

theorem control_decoders_over_read:
  assumes "n \<noteq> 0" "length rest < 4" "304 \<le> sp_len" "length info = 16"
  shows "decode_igmp ([0x11, a, b, c] @ w_ne32 g @ [r, q] @ w_be16 n @ rest) (of_nat (length rest + 12)) sp_len = None \<and>
    decode_ldp_hello (w_be16 1 @ w_be16 0 @ w_ne32 i @ w_be16 l) 10 sp_len = None \<and>
    decode_lacp ([1, 1] @ concat (replicate 6 ([9, 18] @ info)) @ [0, 2]) 112 sp_len = Some None"
  using decode_igmp_short_query [OF assms(1-3)] decode_ldp_hello_short_pdu [of sp_len] decode_lacp_long_terminator [OF assms(4)] assms(3)
  by (simp add: word_le_nat_alt)

theorem control_decoders_over_read_witness:
  "decode_igmp ([0x11, 0, 0, 0] @ w_ne32 0 @ [2, 125] @ w_be16 1 @ []) 12 4096 = None \<and>
   decode_ldp_hello (w_be16 1 @ w_be16 0 @ w_ne32 1 @ w_be16 0) 10 4096 = None"
  using control_decoders_over_read [of 1 "[]" 4096 "replicate 16 0" 0 0 0 0 2 125 1 0] by simp

text \<open>
  C31. A continuity check message is complete whenever the names have the lengths the structure
  gives, has always 87 bytes, however long the names are, and its TLVs start where the first TLV
  offset says, 70 bytes behind the offset itself.
\<close>

theorem encode_cfm_length:
  assumes "cfm_type cfm = 1" "cfm_ma_name cfm = Some ma" "unat (cfm_ma_name_len cfm) \<le> length ma"
    "cfm_md_name cfm = Some md" "unat (cfm_md_name_len cfm) \<le> length md"
  shows "\<exists>bs cfm'. encode_cfm cfm = Some (Inr (bs, cfm')) \<and> length bs = 87 \<and> bs ! 3 = 70 \<and>
    drop (4 + 70) bs = [1, 0, 1, 0, 2, 0, 1, 2, 4, 0, 1, 1, 0]"
proof -
  obtain bs cfm' where "encode_cfm cfm = Some (Inr (bs, cfm'))" using encode_cfm_ok [OF assms] by blast
  with encode_cfm_shape [OF this] show ?thesis by auto
qed

theorem encode_cfm_length_witness:
  "\<exists>bs cfm'. encode_cfm \<lparr>cfm_type = 1, cfm_seq = 7, cfm_rdi = False, cfm_md_level = 3, cfm_md_name_format = 4,
     cfm_md_name_len = 40, cfm_md_name = Some (replicate 40 65), cfm_ma_id = 1, cfm_ma_name_format = 2,
     cfm_ma_name_len = 20, cfm_ma_name = Some (replicate 20 66)\<rparr> = Some (Inr (bs, cfm')) \<and> length bs = 87"
  using encode_cfm_length [of "\<lparr>cfm_type = 1, cfm_seq = 7, cfm_rdi = False, cfm_md_level = 3, cfm_md_name_format = 4,
     cfm_md_name_len = 40, cfm_md_name = Some (replicate 40 65), cfm_ma_id = 1, cfm_ma_name_format = 2,
     cfm_ma_name_len = 20, cfm_ma_name = Some (replicate 20 66)\<rparr>" "replicate 20 66" "replicate 40 65"] by auto

end
