(* ===== verification/Access_Line.thy ===== *)
theory Access_Line
  imports Wire
begin

text \<open>
  Access line attributes and PPPoE discovery of
  \<^verbatim>\<open>code/bngblaster/src/bbl_protocols.c\<close>: the vendor tag of the Broadband Forum with its
  one-byte sub-options, and the encoder and decoder of discovery packets. A C string is the list of
  its bytes; a decoded string is copied to the scratchpad and closed by a zero byte, so that the
  decoder only needs the room that is left there, \<open>sp_len\<close>.
\<close>

section \<open>Structures\<close>

record bbl_access_line_profile =
  alp_access_line_profile_id :: u16
  alp_pon_access_line_version :: u8
  alp_act_up :: u32
  alp_act_down :: u32
  alp_min_up :: u32
  alp_min_down :: u32
  alp_att_up :: u32
  alp_att_down :: u32
  alp_max_up :: u32
  alp_max_down :: u32
  alp_min_up_low :: u32
  alp_min_down_low :: u32
  alp_max_interl_delay_up :: u32
  alp_act_interl_delay_up :: u32
  alp_max_interl_delay_down :: u32
  alp_act_interl_delay_down :: u32
  alp_data_link_encaps :: u32
  alp_dsl_type :: u32
  alp_pon_type :: u32
  alp_etr_up :: u32
  alp_etr_down :: u32
  alp_attetr_up :: u32
  alp_attetr_down :: u32
  alp_gdr_up :: u32
  alp_gdr_down :: u32
  alp_attgdr_up :: u32
  alp_attgdr_down :: u32
  alp_ont_onu_avg_down :: u32
  alp_ont_onu_peak_down :: u32
  alp_ont_onu_max_up :: u32
  alp_ont_onu_ass_up :: u32
  alp_pon_max_up :: u32
  alp_pon_max_down :: u32

record access_line =
  al_aci :: "u8 list option"
  al_ari :: "u8 list option"
  al_aaci :: "u8 list option"
  al_up :: u32
  al_down :: u32
  al_dsl_type :: u32
  al_profile :: "bbl_access_line_profile option"

record bbl_pppoe_discovery =
  pppoe_code :: u8
  pppoe_session_id :: u16
  pppoe_service_name :: "u8 list option"
  pppoe_service_name_len :: u16
  pppoe_ac_name :: "u8 list option"
  pppoe_ac_name_len :: u16
  pppoe_ac_cookie :: "u8 list option"
  pppoe_ac_cookie_len :: u16
  pppoe_host_uniq :: "u8 list option"
  pppoe_host_uniq_len :: u16
  pppoe_max_payload :: u16
  pppoe_access_line :: "access_line option"

definition zero_access_line :: access_line where
  "zero_access_line = \<lparr>al_aci = None, al_ari = None, al_aaci = None, al_up = 0, al_down = 0, al_dsl_type = 0, al_profile = None\<rparr>"

definition zero_pppoe_discovery :: bbl_pppoe_discovery where
  "zero_pppoe_discovery = \<lparr>pppoe_code = 0, pppoe_session_id = 0, pppoe_service_name = None, pppoe_service_name_len = 0,
     pppoe_ac_name = None, pppoe_ac_name_len = 0, pppoe_ac_cookie = None, pppoe_ac_cookie_len = 0,
     pppoe_host_uniq = None, pppoe_host_uniq_len = 0, pppoe_max_payload = 0, pppoe_access_line = None\<rparr>"

section \<open>Encoding\<close>

definition strnlen :: "u8 list \<Rightarrow> nat \<Rightarrow> nat" where
  "strnlen s n = min (length (takeWhile (\<lambda>b. b \<noteq> 0) s)) n"

definition string_sub :: "u8 \<Rightarrow> nat \<Rightarrow> u8 list option \<Rightarrow> u8 list" where
  "string_sub t n ptr =
     (case ptr of None \<Rightarrow> [] | Some s \<Rightarrow> let str_len = strnlen s n in [t, of_nat str_len] @ take str_len s)"

definition rate_sub :: "u8 \<Rightarrow> u32 \<Rightarrow> u8 list" where
  "rate_sub t v = (if v \<noteq> 0 then [t, 4] @ w_be32 v else [])"

definition rate_subs :: "(u8 \<times> u32) list \<Rightarrow> u8 list" where
  "rate_subs l = concat (map (\<lambda>(t, v). rate_sub t v) l)"

text \<open>The data link encapsulation has three bytes: its length overwrites the first of four.\<close>

definition encaps_sub :: "u32 \<Rightarrow> u8 list" where
  "encaps_sub v = (if v \<noteq> 0 then [0x90] @ (w_be32 v) [0 := 3] else [])"

definition profile_dsl_subs :: "bbl_access_line_profile \<Rightarrow> u8 list" where
  "profile_dsl_subs p =
     rate_subs [(0x83, alp_min_up p), (0x84, alp_min_down p), (0x85, alp_att_up p), (0x86, alp_att_down p),
       (0x87, alp_max_up p), (0x88, alp_max_down p), (0x89, alp_min_up_low p), (0x8a, alp_min_down_low p),
       (0x8b, alp_max_interl_delay_up p), (0x8c, alp_act_interl_delay_up p),
       (0x8d, alp_max_interl_delay_down p), (0x8e, alp_act_interl_delay_down p)] @
     encaps_sub (alp_data_link_encaps p) @
     rate_subs [(0x91, alp_dsl_type p)]"

definition profile_pon_subs :: "bbl_access_line_profile \<Rightarrow> u8 list" where
  "profile_pon_subs p =
     (let pon = (\<lambda>t0 t. if alp_pon_access_line_version p = 0 then t0 else t)
      in rate_subs [(pon 0x92 0x97, alp_pon_type p),
           (0x9b, alp_etr_up p), (0x9c, alp_etr_down p), (0x9d, alp_attetr_up p), (0x9e, alp_attetr_down p),
           (0x9f, alp_gdr_up p), (0xa0, alp_gdr_down p), (0xa1, alp_attgdr_up p), (0xa2, alp_attgdr_down p),
           (pon 0x93 0xb0, alp_ont_onu_avg_down p), (pon 0x94 0xb1, alp_ont_onu_peak_down p),
           (pon 0x95 0xb2, alp_ont_onu_max_up p), (pon 0x96 0xb3, alp_ont_onu_ass_up p),
           (pon 0x97 0xb4, alp_pon_max_up p), (pon 0x98 0xb5, alp_pon_max_down p)])"

definition access_line_subs :: "access_line \<Rightarrow> u8 list" where
  "access_line_subs al =
     string_sub 1 128 (al_aci al) @ string_sub 2 128 (al_ari al) @ string_sub 3 128 (al_aaci al) @
     rate_sub 0x81 (al_up al) @ rate_sub 0x82 (al_down al) @ rate_sub 0x91 (al_dsl_type al) @
     (case al_profile al of None \<Rightarrow> [] | Some p \<Rightarrow> profile_dsl_subs p @ profile_pon_subs p)"

definition vendor_tag :: "access_line \<Rightarrow> u8 list" where
  "vendor_tag al =
     (let body = w_be32 3561 @ access_line_subs al
      in w_be16 0x0105 @ w_be16 (of_nat (length body)) @ body)"

definition data_tag :: "u16 \<Rightarrow> u8 list option \<Rightarrow> u16 \<Rightarrow> u8 list option" where
  "data_tag t ptr n =
     do { data \<leftarrow> (if n = 0 then Some [] else case ptr of None \<Rightarrow> None | Some bs \<Rightarrow> ld_range bs 0 (unat n));
          Some (w_be16 t @ w_be16 n @ data) }"

definition pppoe_tags :: "bbl_pppoe_discovery \<Rightarrow> u8 list option" where
  "pppoe_tags pppoe =
     do { service \<leftarrow> data_tag 0x0101 (pppoe_service_name pppoe) (pppoe_service_name_len pppoe);
          uniq \<leftarrow> (if pppoe_host_uniq_len pppoe \<noteq> 0
                   then data_tag 0x0103 (pppoe_host_uniq pppoe) (pppoe_host_uniq_len pppoe) else Some []);
          cookie \<leftarrow> (if pppoe_ac_cookie pppoe \<noteq> None
                   then data_tag 0x0104 (pppoe_ac_cookie pppoe) (pppoe_ac_cookie_len pppoe) else Some []);
          Some (service @ uniq @
            (if pppoe_max_payload pppoe \<noteq> 0 then w_be16 0x0120 @ w_be16 2 @ w_be16 (pppoe_max_payload pppoe) else []) @
            cookie @
            (case pppoe_access_line pppoe of None \<Rightarrow> [] | Some al \<Rightarrow> vendor_tag al)) }"

definition encode_pppoe_discovery :: "bbl_pppoe_discovery \<Rightarrow> u8 list option" where
  "encode_pppoe_discovery pppoe =
     do { tags \<leftarrow> (if pppoe_code pppoe \<noteq> 0xa7 then pppoe_tags pppoe else Some []);
          Some ([17, pppoe_code pppoe] @ w_be16 (pppoe_session_id pppoe) @ w_be16 (of_nat (length tags)) @ tags) }"

section \<open>Decoding\<close>

definition vendor_sub :: "u8 \<Rightarrow> u8 \<Rightarrow> u8 list \<Rightarrow> access_line \<times> u16 \<Rightarrow> (access_line \<times> u16) decoded" where
  "vendor_sub tlv_type tlv_length buf state =
     (case state of (access_line, sp_len) \<Rightarrow>
        if tlv_type = 1 then
          if sp_len > ucast tlv_length
          then do { s \<leftarrow> ld_range buf 0 (unat tlv_length);
                    Some (Inr (access_line\<lparr>al_aci := Some s\<rparr>, sp_len - (ucast tlv_length + 1))) }
          else Some (Inl DECODE_ERROR)
        else if tlv_type = 2 then
          if sp_len > ucast tlv_length
          then do { s \<leftarrow> ld_range buf 0 (unat tlv_length);
                    Some (Inr (access_line\<lparr>al_ari := Some s\<rparr>, sp_len - (ucast tlv_length + 1))) }
          else Some (Inl DECODE_ERROR)
        else if tlv_type = 0x81 then
          if tlv_length = 4
          then do { v \<leftarrow> rd_be32 buf; Some (Inr (access_line\<lparr>al_up := v\<rparr>, sp_len)) }
          else Some (Inl DECODE_ERROR)
        else if tlv_type = 0x82 then
          if tlv_length = 4
          then do { v \<leftarrow> rd_be32 buf; Some (Inr (access_line\<lparr>al_down := v\<rparr>, sp_len)) }
          else Some (Inl DECODE_ERROR)
        else Some (Inr (access_line, sp_len)))"

definition decode_pppoe_vendor :: "u8 list \<Rightarrow> u16 \<Rightarrow> u16 \<Rightarrow> bbl_pppoe_discovery \<Rightarrow> bbl_pppoe_discovery decoded" where
  "decode_pppoe_vendor buf len sp_len pppoe =
     (if len < 4 then Some (Inl DECODE_ERROR)
      else do {
        vendor \<leftarrow> rd_be32 buf;
        let buf = drop 4 buf; let len = len - 4;
        if vendor \<noteq> 3561 then Some (Inr pppoe)
        else if sp_len < 48 then Some (Inl DECODE_ERROR)
        else do {
          r \<leftarrow> sub_loop vendor_sub buf len (zero_access_line, sp_len - 48);
          case r of Inl e \<Rightarrow> Some (Inl e)
            | Inr (access_line, _) \<Rightarrow> Some (Inr (pppoe\<lparr>pppoe_access_line := Some access_line\<rparr>)) } })"

definition pppoe_tag :: "u16 \<Rightarrow> u16 \<Rightarrow> u16 \<Rightarrow> u8 list \<Rightarrow> bbl_pppoe_discovery \<Rightarrow> bbl_pppoe_discovery decoded" where
  "pppoe_tag sp_len pppoe_tag_type pppoe_tag_len buf pppoe =
     (if pppoe_tag_type = 0x0101 then
        do { d \<leftarrow> ld_range buf 0 (unat pppoe_tag_len);
             Some (Inr (pppoe\<lparr>pppoe_service_name := Some d, pppoe_service_name_len := pppoe_tag_len\<rparr>)) }
      else if pppoe_tag_type = 0x0103 then
        do { d \<leftarrow> ld_range buf 0 (unat pppoe_tag_len);
             Some (Inr (pppoe\<lparr>pppoe_host_uniq := Some d, pppoe_host_uniq_len := pppoe_tag_len\<rparr>)) }
      else if pppoe_tag_type = 0x0104 then
        do { d \<leftarrow> ld_range buf 0 (unat pppoe_tag_len);
             Some (Inr (pppoe\<lparr>pppoe_ac_cookie := Some d, pppoe_ac_cookie_len := pppoe_tag_len\<rparr>)) }
      else if pppoe_tag_type = 0x0105 then
        do { r \<leftarrow> decode_pppoe_vendor buf pppoe_tag_len sp_len pppoe;
             case r of Inl _ \<Rightarrow> Some (Inl DECODE_ERROR) | Inr pppoe \<Rightarrow> Some (Inr pppoe) }
      else Some (Inr pppoe))"

definition decode_pppoe_discovery :: "u8 list \<Rightarrow> u16 \<Rightarrow> u16 \<Rightarrow> bbl_pppoe_discovery decoded" where
  "decode_pppoe_discovery buf len sp_len =
     (if len < 6 \<or> sp_len < 80 then Some (Inl DECODE_ERROR)
      else do {
        let sp_len = sp_len - 80;
        version_type \<leftarrow> rd8 buf;
        if version_type \<noteq> 17 then Some (Inl DECODE_ERROR)
        else do {
          let buf = drop 1 buf; let len = len - 1;
          code \<leftarrow> rd8 buf;
          let buf = drop 1 buf; let len = len - 1;
          session_id \<leftarrow> rd_be16 buf;
          let buf = drop 2 buf; let len = len - 2;
          pppoe_len \<leftarrow> rd_be16 buf;
          let buf = drop 2 buf; let len = len - 2;
          if pppoe_len > len then Some (Inl DECODE_ERROR)
          else tlv_loop (pppoe_tag sp_len) buf pppoe_len
                 (zero_pppoe_discovery\<lparr>pppoe_code := code, pppoe_session_id := session_id\<rparr>) } })"

section \<open>Round trip\<close>

lemma strnlen_le: "strnlen s n \<le> n" "strnlen s n \<le> length s"
  using length_takeWhile_le [of "\<lambda>b. b \<noteq> 0" s] by (auto simp: strnlen_def min_def)

lemma length_string_sub: "length (string_sub t n ptr) \<le> n + 2"
  using strnlen_le by (auto simp: string_sub_def Let_def split: option.split)

lemma length_rate_sub: "length (rate_sub t v) \<le> 6"
  by (simp add: rate_sub_def)

lemma length_rate_subs: "length (rate_subs l) \<le> 6 * length l"
proof (induction l)
  case (Cons x l)
  then show ?case using length_rate_sub [of "fst x" "snd x"] by (cases x) (simp add: rate_subs_def)
qed (simp add: rate_subs_def)

lemma length_access_line_subs: "length (access_line_subs al) \<le> 1000"
proof -
  have "length (profile_dsl_subs p) \<le> 90" for p
    using length_rate_subs [of "[(0x83, alp_min_up p), (0x84, alp_min_down p), (0x85, alp_att_up p), (0x86, alp_att_down p),
       (0x87, alp_max_up p), (0x88, alp_max_down p), (0x89, alp_min_up_low p), (0x8a, alp_min_down_low p),
       (0x8b, alp_max_interl_delay_up p), (0x8c, alp_act_interl_delay_up p),
       (0x8d, alp_max_interl_delay_down p), (0x8e, alp_act_interl_delay_down p)]"]
      length_rate_subs [of "[(0x91, alp_dsl_type p)]"]
    by (simp add: profile_dsl_subs_def encaps_sub_def)
  moreover have "length (profile_pon_subs p) \<le> 90" for p
    unfolding profile_pon_subs_def Let_def by (rule order_trans [OF length_rate_subs]) simp
  ultimately have "length (case al_profile al of None \<Rightarrow> [] | Some p \<Rightarrow> profile_dsl_subs p @ profile_pon_subs p) \<le> 180"
    using add_mono [of _ 90 _ 90] by (fastforce split: option.split)
  then show ?thesis
    using length_string_sub [of 1 128 "al_aci al"] length_string_sub [of 2 128 "al_ari al"] length_string_sub [of 3 128 "al_aaci al"]
      length_rate_sub [of "0x81" "al_up al"] length_rate_sub [of "0x82" "al_down al"] length_rate_sub [of "0x91" "al_dsl_type al"]
    by (simp add: access_line_subs_def)
qed

text \<open>The sub-options the decoder knows, and those it skips.\<close>

lemma sub_run_string:
  assumes "N \<le> 255" "0 < strnlen s N" "length rest < 60000"
  shows "sub_run h pad (string_sub t N (Some s) @ rest) x =
    (case h t (of_nat (strnlen s N)) (take (strnlen s N) s @ rest @ pad) x of
       None \<Rightarrow> None | Some (Inl e) \<Rightarrow> Some (Inl e) | Some (Inr x) \<Rightarrow> sub_run h pad rest x)"
    and "unat (of_nat (strnlen s N) :: u8) = strnlen s N"
    and "(ucast (of_nat (strnlen s N) :: u8) :: u16) = of_nat (strnlen s N)"
proof -
  define n where "n = strnlen s N"
  have n: "n \<le> 255" "n \<le> length s" "0 < n" using strnlen_le(1) [of s N] strnlen_le(2) [of s N] assms(1,2) by (simp_all add: n_def)
  then have u: "unat (of_nat n :: u8) = n" by (intro unat_of_nat_small) simp
  then show "unat (of_nat (strnlen s N) :: u8) = strnlen s N" by (simp add: n_def)
  show "(ucast (of_nat (strnlen s N) :: u8) :: u16) = of_nat (strnlen s N)" using u by (metis n_def of_nat_unat)
  have d: "length (take n s) = n" using n by simp
  have "sub_run h pad (t # of_nat n # take n s @ rest) x =
    (case h t (of_nat n) (take n s @ rest @ pad) x of
       None \<Rightarrow> None | Some (Inl e) \<Rightarrow> Some (Inl e) | Some (Inr x) \<Rightarrow> sub_run h pad rest x)"
    using n assms(3) u d by (intro sub_run_option) auto
  then show "sub_run h pad (string_sub t N (Some s) @ rest) x =
    (case h t (of_nat (strnlen s N)) (take (strnlen s N) s @ rest @ pad) x of
       None \<Rightarrow> None | Some (Inl e) \<Rightarrow> Some (Inl e) | Some (Inr x) \<Rightarrow> sub_run h pad rest x)"
    by (simp add: string_sub_def n_def Let_def)
qed

lemma vendor_string:
  assumes "t \<in> {1, 2}" "0 < strnlen s 128" "length rest < 60000" "of_nat (strnlen s 128) < sp"
  shows "sub_run vendor_sub pad (string_sub t 128 (Some s) @ rest) (al, sp) =
    sub_run vendor_sub pad rest
      (if t = 1 then al\<lparr>al_aci := Some (take (strnlen s 128) s)\<rparr> else al\<lparr>al_ari := Some (take (strnlen s 128) s)\<rparr>,
       sp - (of_nat (strnlen s 128) + 1))"
  using assms sub_run_string(1) [of 128 s rest vendor_sub pad t "(al, sp)"] sub_run_string(2,3) [of 128 s rest] strnlen_le(2) [of s 128]
  by (auto simp: vendor_sub_def ld_range_def)

lemma w_be32_not_Nil [simp]: "w_be32 v \<noteq> []"
  by (simp add: w_be32_def w_be16_def)

lemma vendor_rate:
  assumes "length rest < 60000"
  shows "sub_run vendor_sub pad (rate_sub 0x81 v @ rest) (al, sp) =
      sub_run vendor_sub pad rest (if v = 0 then al else al\<lparr>al_up := v\<rparr>, sp)"
    "sub_run vendor_sub pad (rate_sub 0x82 v @ rest) (al, sp) =
      sub_run vendor_sub pad rest (if v = 0 then al else al\<lparr>al_down := v\<rparr>, sp)"
  using assms sub_run_option [of "w_be32 v" rest 4 vendor_sub pad "0x81" "(al, sp)"]
    sub_run_option [of "w_be32 v" rest 4 vendor_sub pad "0x82" "(al, sp)"]
  by (auto simp: rate_sub_def vendor_sub_def)

lemma vendor_skip:
  assumes "t \<notin> {1, 2, 0x81, 0x82}" "unat n = length data" "0 < length data" "length data < 256" "length rest < 60000"
  shows "sub_run vendor_sub pad (t # n # data @ rest) x = sub_run vendor_sub pad rest x"
  using assms by (subst sub_run_option) (auto simp: vendor_sub_def split: prod.split)

lemma vendor_skip_rates:
  assumes "\<forall>(t, v) \<in> set l. t \<notin> {1, 2, 0x81, 0x82}" "6 * length l + length rest < 60000"
  shows "sub_run vendor_sub pad (rate_subs l @ rest) x = sub_run vendor_sub pad rest x"
  using assms
proof (induction l)
  case (Cons tv l)
  obtain t v where tv: "tv = (t, v)" by (cases tv)
  have "length (rate_subs l @ rest) < 60000" using Cons.prems(2) length_rate_subs [of l] by simp
  then have "sub_run vendor_sub pad (rate_sub t v @ rate_subs l @ rest) x = sub_run vendor_sub pad (rate_subs l @ rest) x"
    using Cons.prems(1) vendor_skip [of t 4 "w_be32 v" "rate_subs l @ rest" pad x] by (auto simp: rate_sub_def tv)
  with Cons show ?case by (simp add: rate_subs_def tv)
qed (simp add: rate_subs_def)

lemma vendor_skip_string: "length rest < 60000 \<Longrightarrow> (\<And>s. ptr = Some s \<Longrightarrow> 0 < strnlen s 128) \<Longrightarrow>
  sub_run vendor_sub pad (string_sub 3 128 ptr @ rest) x = sub_run vendor_sub pad rest x"
proof (cases ptr)
  case (Some s)
  assume rest: "length rest < 60000" and ne: "\<And>s. ptr = Some s \<Longrightarrow> 0 < strnlen s 128"
  define n where "n = strnlen s 128"
  have n: "n \<le> 128" "n \<le> length s" "0 < n" using strnlen_le ne Some by (simp_all add: n_def)
  then have "unat (of_nat n :: u8) = n" by (intro unat_of_nat_small) simp
  then show ?thesis
    using vendor_skip [of 3 "of_nat n" "take n s" rest pad x] n rest
    by (simp add: string_sub_def Some n_def [symmetric])
qed (simp add: string_sub_def)

lemma vendor_skip_profile:
  assumes "length rest < 50000"
  shows "sub_run vendor_sub pad (profile_dsl_subs p @ profile_pon_subs p @ rest) x = sub_run vendor_sub pad rest x"
proof -
  have pon: "sub_run vendor_sub pad (profile_pon_subs p @ rest) x = sub_run vendor_sub pad rest x"
    unfolding profile_pon_subs_def Let_def using assms by (intro vendor_skip_rates) auto
  have "length (profile_pon_subs p) \<le> 90"
    unfolding profile_pon_subs_def Let_def by (rule order_trans [OF length_rate_subs]) simp
  then have l: "length (profile_pon_subs p @ rest) < 55000" using assms by simp
  then have dsl: "sub_run vendor_sub pad (rate_subs [(0x91, alp_dsl_type p)] @ profile_pon_subs p @ rest) x = sub_run vendor_sub pad rest x"
    unfolding pon [symmetric] by (intro vendor_skip_rates) auto
  define R where "R = rate_subs [(0x91, alp_dsl_type p)] @ profile_pon_subs p @ rest"
  have R: "length R < 56000" using l length_rate_subs [of "[(0x91, alp_dsl_type p)]"] by (simp add: R_def)
  have enc: "sub_run vendor_sub pad (encaps_sub v @ R) x = sub_run vendor_sub pad R x" for v
  proof (cases "v = 0")
    case False
    have "(w_be32 v) [0 := 3] = 3 # drop 1 (w_be32 v)" "length (drop 1 (w_be32 v)) = 3"
      by (simp_all add: w_be32_def w_be16_def)
    then show ?thesis
      using vendor_skip [of "0x90" 3 "drop 1 (w_be32 v)" R pad x] R False by (simp add: encaps_sub_def)
  qed (simp add: encaps_sub_def)
  have "length (encaps_sub (alp_data_link_encaps p) @ R) < 57000" using R by (simp add: encaps_sub_def)
  then have "sub_run vendor_sub pad (profile_dsl_subs p @ profile_pon_subs p @ rest) x =
    sub_run vendor_sub pad (encaps_sub (alp_data_link_encaps p) @ R) x"
    unfolding profile_dsl_subs_def append_assoc R_def [symmetric]
    by (intro vendor_skip_rates) auto
  then show ?thesis using enc dsl by (simp add: R_def)
qed

definition wire_string :: "u8 list option \<Rightarrow> u8 list option" where
  "wire_string = map_option (\<lambda>s. take (strnlen s 128) s)"

definition wire_access_line :: "access_line \<Rightarrow> access_line" where
  "wire_access_line al = zero_access_line\<lparr>al_aci := wire_string (al_aci al), al_ari := wire_string (al_ari al),
     al_up := al_up al, al_down := al_down al\<rparr>"

definition wf_string :: "u8 list option \<Rightarrow> bool" where
  "wf_string ptr \<longleftrightarrow> (case ptr of None \<Rightarrow> True | Some s \<Rightarrow> 0 < strnlen s 128)"

lemma vendor_string_opt:
  assumes "wf_string ptr" "length rest < 60000" "129 \<le> unat sp"
  shows "al_aci al = None \<Longrightarrow> \<exists>sp'. unat sp \<le> unat sp' + 129 \<and> sub_run vendor_sub pad (string_sub 1 128 ptr @ rest) (al, sp) =
      sub_run vendor_sub pad rest (al\<lparr>al_aci := wire_string ptr\<rparr>, sp')"
    and "al_ari al = None \<Longrightarrow> \<exists>sp'. unat sp \<le> unat sp' + 129 \<and> sub_run vendor_sub pad (string_sub 2 128 ptr @ rest) (al, sp) =
      sub_run vendor_sub pad rest (al\<lparr>al_ari := wire_string ptr\<rparr>, sp')"
proof -
  have sp: "of_nat (strnlen s 128) < sp" "unat sp \<le> unat (sp - (of_nat (strnlen s 128) + 1)) + 129" for s
  proof -
    have le: "strnlen s 128 \<le> 128" by (rule strnlen_le)
    then have n: "unat (of_nat (strnlen s 128 + 1) :: u16) = strnlen s 128 + 1" "unat (of_nat (strnlen s 128) :: u16) = strnlen s 128"
      by (intro unat_of_nat_small; simp)+
    then show "of_nat (strnlen s 128) < sp" using assms(3) le by (simp add: word_less_nat_alt)
    have "unat (sp - (of_nat (strnlen s 128) + 1)) = unat sp - (strnlen s 128 + 1)"
      using n(1) assms(3) le by (subst unat_sub_le) (simp_all add: word_le_nat_alt add.commute)
    then show "unat sp \<le> unat (sp - (of_nat (strnlen s 128) + 1)) + 129" using le by simp
  qed
  show "\<exists>sp'. unat sp \<le> unat sp' + 129 \<and> sub_run vendor_sub pad (string_sub 1 128 ptr @ rest) (al, sp) =
      sub_run vendor_sub pad rest (al\<lparr>al_aci := wire_string ptr\<rparr>, sp')" if "al_aci al = None"
  proof (cases ptr)
    case None
    have "al\<lparr>al_aci := None\<rparr> = al" using that by (cases al) simp
    then show ?thesis using None by (intro exI [of _ sp]) (simp add: string_sub_def wire_string_def)
  next
    case (Some s)
    then show ?thesis
      using vendor_string [of 1 s rest sp pad al] assms sp [of s] by (auto simp: wf_string_def wire_string_def)
  qed
  show "\<exists>sp'. unat sp \<le> unat sp' + 129 \<and> sub_run vendor_sub pad (string_sub 2 128 ptr @ rest) (al, sp) =
      sub_run vendor_sub pad rest (al\<lparr>al_ari := wire_string ptr\<rparr>, sp')" if "al_ari al = None"
  proof (cases ptr)
    case None
    have "al\<lparr>al_ari := None\<rparr> = al" using that by (cases al) simp
    then show ?thesis using None by (intro exI [of _ sp]) (simp add: string_sub_def wire_string_def)
  next
    case (Some s)
    then show ?thesis
      using vendor_string [of 2 s rest sp pad al] assms sp [of s] by (auto simp: wf_string_def wire_string_def)
  qed
qed

lemma access_line_run:
  assumes "wf_string (al_aci al)" "wf_string (al_ari al)" "wf_string (al_aaci al)" "258 \<le> unat sp"
  shows "\<exists>sp'. sub_run vendor_sub pad (access_line_subs al) (zero_access_line, sp) = Some (Inr (wire_access_line al, sp'))"
proof -
  define P where "P = (case al_profile al of None \<Rightarrow> [] | Some p \<Rightarrow> profile_dsl_subs p @ profile_pon_subs p)"
  define D where "D = rate_sub 0x91 (al_dsl_type al) @ P"
  define C where "C = rate_sub 0x82 (al_down al) @ D"
  define U where "U = rate_sub 0x81 (al_up al) @ C"
  define A where "A = string_sub 3 128 (al_aaci al) @ U"
  define R where "R = string_sub 2 128 (al_ari al) @ A"
  have subs: "access_line_subs al = string_sub 1 128 (al_aci al) @ R"
    by (simp add: access_line_subs_def P_def D_def C_def U_def A_def R_def)
  have "length R \<le> 1000" using length_access_line_subs [of al] by (simp add: subs)
  then have l: "length R < 60000" "length A < 60000" "length U < 60000" "length C < 60000" "length D < 60000" "length P < 60000"
    by (simp_all add: R_def A_def U_def C_def D_def)
  have P: "sub_run vendor_sub pad P x = Some (Inr x)" for x
    using vendor_skip_profile [of "[]" pad _ x] by (auto simp: P_def split: option.split)
  have D: "sub_run vendor_sub pad D x = Some (Inr x)" for x
    using vendor_skip_rates [of "[(0x91, al_dsl_type al)]" P pad x] l(6) P \<open>length R \<le> 1000\<close>
    by (simp add: D_def rate_subs_def R_def A_def U_def C_def)
  have A: "sub_run vendor_sub pad A x = sub_run vendor_sub pad U x" for x
    unfolding A_def using l(3) assms(3) by (intro vendor_skip_string) (auto simp: wf_string_def)
  have U: "sub_run vendor_sub pad U (a, s) = Some (Inr (a\<lparr>al_up := al_up al, al_down := al_down al\<rparr>, s))"
    if "al_up a = 0" "al_down a = 0" for a s
  proof -
    have "(if al_up al = 0 then a else a\<lparr>al_up := al_up al\<rparr>) = a\<lparr>al_up := al_up al\<rparr>"
      using that(1) by (cases a) simp
    then have "sub_run vendor_sub pad U (a, s) = sub_run vendor_sub pad C (a\<lparr>al_up := al_up al\<rparr>, s)"
      using vendor_rate(1) [OF l(4), of pad "al_up al" a s] by (simp add: U_def)
    moreover have "(if al_down al = 0 then b else b\<lparr>al_down := al_down al\<rparr>) = b\<lparr>al_down := al_down al\<rparr>" if "al_down b = 0" for b
      using that by (cases b) simp
    then have "sub_run vendor_sub pad C (b, s) = Some (Inr (b\<lparr>al_down := al_down al\<rparr>, s))" if "al_down b = 0" for b
      using vendor_rate(2) [OF l(5), of pad "al_down al" b s] that by (simp add: C_def D)
    ultimately show ?thesis using that(2) by simp
  qed
  obtain sp1 where sp1: "unat sp \<le> unat sp1 + 129" "sub_run vendor_sub pad (access_line_subs al) (zero_access_line, sp) =
      sub_run vendor_sub pad R (zero_access_line\<lparr>al_aci := wire_string (al_aci al)\<rparr>, sp1)"
    unfolding subs using vendor_string_opt(1) [OF assms(1) l(1), of sp zero_access_line pad] assms(4)
    by (auto simp: zero_access_line_def)
  obtain sp2 where "sub_run vendor_sub pad R (zero_access_line\<lparr>al_aci := wire_string (al_aci al)\<rparr>, sp1) =
      sub_run vendor_sub pad A (zero_access_line\<lparr>al_aci := wire_string (al_aci al), al_ari := wire_string (al_ari al)\<rparr>, sp2)"
    unfolding R_def using vendor_string_opt(2) [OF assms(2) l(2), of sp1 "zero_access_line\<lparr>al_aci := wire_string (al_aci al)\<rparr>" pad]
      sp1(1) assms(4) by (auto simp: zero_access_line_def)
  with sp1(2) show ?thesis
    by (simp add: A U wire_access_line_def zero_access_line_def)
qed

text \<open>The tags of a discovery packet.\<close>

lemma pppoe_data_tag:
  assumes "unat n = length d" "length d + length rest < 65000"
  shows "tlv_run (pppoe_tag sp) pad (w_be16 0x0101 @ w_be16 n @ d @ rest) x =
      tlv_run (pppoe_tag sp) pad rest (x\<lparr>pppoe_service_name := Some d, pppoe_service_name_len := n\<rparr>)"
    "tlv_run (pppoe_tag sp) pad (w_be16 0x0103 @ w_be16 n @ d @ rest) x =
      tlv_run (pppoe_tag sp) pad rest (x\<lparr>pppoe_host_uniq := Some d, pppoe_host_uniq_len := n\<rparr>)"
    "tlv_run (pppoe_tag sp) pad (w_be16 0x0104 @ w_be16 n @ d @ rest) x =
      tlv_run (pppoe_tag sp) pad rest (x\<lparr>pppoe_ac_cookie := Some d, pppoe_ac_cookie_len := n\<rparr>)"
    "tlv_run (pppoe_tag sp) pad (w_be16 0x0120 @ w_be16 n @ d @ rest) x = tlv_run (pppoe_tag sp) pad rest x"
  using assms by (simp_all add: tlv_run_tlv pppoe_tag_def ld_range_def)

lemma pppoe_vendor_tag:
  assumes "wf_string (al_aci al)" "wf_string (al_ari al)" "wf_string (al_aaci al)" "306 \<le> unat sp" "length rest < 60000"
  shows "tlv_run (pppoe_tag sp) pad (vendor_tag al @ rest) x =
    tlv_run (pppoe_tag sp) pad rest (x\<lparr>pppoe_access_line := Some (wire_access_line al)\<rparr>)"
proof -
  define body where "body = w_be32 3561 @ access_line_subs al"
  have lb: "length body = length (access_line_subs al) + 4" "length (access_line_subs al) \<le> 1000"
    using length_access_line_subs by (simp_all add: body_def)
  define n :: u16 where "n = of_nat (length body)"
  have n: "unat n = length body" unfolding n_def using lb by (intro unat_of_nat_small) simp
  have n4: "n - 4 = of_nat (length (access_line_subs al))" by (simp add: n_def lb(1))
  have "258 \<le> unat (sp - 48)" using assms(4) by (simp add: unat_sub_le word_le_nat_alt)
  then obtain sp' where "sub_run vendor_sub (rest @ pad) (access_line_subs al) (zero_access_line, sp - 48) = Some (Inr (wire_access_line al, sp'))"
    using access_line_run [OF assms(1-3)] by blast
  then have "decode_pppoe_vendor (body @ rest @ pad) n sp x = Some (Inr (x\<lparr>pppoe_access_line := Some (wire_access_line al)\<rparr>))"
    using n lb assms(4) by (simp add: decode_pppoe_vendor_def body_def n4 sub_run_def word_less_nat_alt)
  moreover have "vendor_tag al = w_be16 0x0105 @ w_be16 n @ body" by (simp add: vendor_tag_def body_def n_def)
  ultimately show ?thesis
    using tlv_run_tlv [of body rest n "pppoe_tag sp" pad "0x0105" x] n lb assms(5) by (simp add: pppoe_tag_def)
qed

text \<open>
  Packets that can be sent: pointers and lengths agree, and strings are not empty. The name of the
  access concentrator is never encoded, and the decoder skips the maximum payload.
\<close>

definition wf_pointer :: "u8 list option \<Rightarrow> u16 \<Rightarrow> bool" where
  "wf_pointer ptr n \<longleftrightarrow> (case ptr of None \<Rightarrow> n = 0 | Some d \<Rightarrow> unat n = length d \<and> length d \<le> 10000)"

definition wf_access_line :: "access_line \<Rightarrow> bool" where
  "wf_access_line al \<longleftrightarrow> wf_string (al_aci al) \<and> wf_string (al_ari al) \<and> wf_string (al_aaci al)"

definition wf_pppoe_discovery :: "bbl_pppoe_discovery \<Rightarrow> bool" where
  "wf_pppoe_discovery p \<longleftrightarrow> pppoe_code p \<noteq> 0xa7 \<and> pppoe_service_name p \<noteq> None \<and>
     wf_pointer (pppoe_service_name p) (pppoe_service_name_len p) \<and>
     wf_pointer (pppoe_host_uniq p) (pppoe_host_uniq_len p) \<and> pppoe_host_uniq p \<noteq> Some [] \<and>
     wf_pointer (pppoe_ac_cookie p) (pppoe_ac_cookie_len p) \<and>
     (case pppoe_access_line p of None \<Rightarrow> True | Some al \<Rightarrow> wf_access_line al)"

definition wire_pppoe_discovery :: "bbl_pppoe_discovery \<Rightarrow> bbl_pppoe_discovery" where
  "wire_pppoe_discovery p = p\<lparr>pppoe_ac_name := None, pppoe_ac_name_len := 0, pppoe_max_payload := 0,
     pppoe_access_line := map_option wire_access_line (pppoe_access_line p)\<rparr>"

lemma wf_pointer_data_tag:
  "wf_pointer (Some d) n \<Longrightarrow> data_tag t (Some d) n = Some (w_be16 t @ w_be16 n @ d)"
  by (auto simp: wf_pointer_def data_tag_def ld_range_def)

lemma length_vendor_tag: "length (vendor_tag al) \<le> 1008"
  using length_access_line_subs [of al] by (simp add: vendor_tag_def Let_def)

lemma pppoe_tags_run:
  assumes "wf_pppoe_discovery p" "306 \<le> unat sp"
  shows "\<exists>tags. pppoe_tags p = Some tags \<and> length tags < 40000 \<and>
    tlv_run (pppoe_tag sp) pad tags (zero_pppoe_discovery\<lparr>pppoe_code := pppoe_code p, pppoe_session_id := pppoe_session_id p\<rparr>) =
      Some (Inr (wire_pppoe_discovery p))"
proof -
  obtain sn where sn: "pppoe_service_name p = Some sn" using assms(1) by (auto simp: wf_pppoe_discovery_def)
  note wf = assms(1) [unfolded wf_pppoe_discovery_def]
  define V where "V = (case pppoe_access_line p of None \<Rightarrow> [] | Some al \<Rightarrow> vendor_tag al)"
  have V: "length V \<le> 1008" using length_vendor_tag by (auto simp: V_def split: option.split)
  have Vr: "tlv_run (pppoe_tag sp) pad V x = Some (Inr (x\<lparr>pppoe_access_line := map_option wire_access_line (pppoe_access_line p)\<rparr>))"
    if "pppoe_access_line x = None" for x
  proof (cases "pppoe_access_line p")
    case None
    have "x\<lparr>pppoe_access_line := None\<rparr> = x" using that by (cases x) simp
    then show ?thesis using None by (simp add: V_def)
  next
    case (Some al)
    then show ?thesis
      using pppoe_vendor_tag [of al sp "[]" pad x] wf assms(2) by (simp add: V_def wf_access_line_def)
  qed
  define C where "C = (case pppoe_ac_cookie p of None \<Rightarrow> [] | Some d \<Rightarrow> w_be16 0x0104 @ w_be16 (pppoe_ac_cookie_len p) @ d) @ V"
  have C: "length C \<le> 11012" using V wf by (auto simp: C_def wf_pointer_def split: option.splits)
  have Cr: "tlv_run (pppoe_tag sp) pad C x =
      Some (Inr (x\<lparr>pppoe_ac_cookie := pppoe_ac_cookie p, pppoe_ac_cookie_len := pppoe_ac_cookie_len p,
        pppoe_access_line := map_option wire_access_line (pppoe_access_line p)\<rparr>))"
    if "pppoe_access_line x = None" "pppoe_ac_cookie x = None" "pppoe_ac_cookie_len x = 0" for x
  proof (cases "pppoe_ac_cookie p")
    case None
    have "x\<lparr>pppoe_ac_cookie := None, pppoe_ac_cookie_len := 0\<rparr> = x" using that by (cases x) simp
    then show ?thesis using None Vr [OF that(1)] wf by (simp add: C_def wf_pointer_def)
  next
    case (Some d)
    then have "unat (pppoe_ac_cookie_len p) = length d" "length d \<le> 10000" using wf by (auto simp: wf_pointer_def)
    then show ?thesis
      using Some pppoe_data_tag(3) [of "pppoe_ac_cookie_len p" d V sp pad x] V Vr that(1) by (simp add: C_def)
  qed
  define M where "M = (if pppoe_max_payload p \<noteq> 0 then w_be16 0x0120 @ w_be16 2 @ w_be16 (pppoe_max_payload p) else []) @ C"
  have M: "length M \<le> 11018" using C by (simp add: M_def)
  have Mr: "tlv_run (pppoe_tag sp) pad M x = tlv_run (pppoe_tag sp) pad C x" for x
    using pppoe_data_tag(4) [of 2 "w_be16 (pppoe_max_payload p)" C sp pad x] C by (simp add: M_def)
  define H where "H = (case pppoe_host_uniq p of None \<Rightarrow> [] | Some d \<Rightarrow> w_be16 0x0103 @ w_be16 (pppoe_host_uniq_len p) @ d) @ M"
  have H: "length H \<le> 21022" using M wf by (auto simp: H_def wf_pointer_def split: option.splits)
  have Hr: "tlv_run (pppoe_tag sp) pad H x =
      tlv_run (pppoe_tag sp) pad M (x\<lparr>pppoe_host_uniq := pppoe_host_uniq p, pppoe_host_uniq_len := pppoe_host_uniq_len p\<rparr>)"
    if "pppoe_host_uniq x = None" "pppoe_host_uniq_len x = 0" for x
  proof (cases "pppoe_host_uniq p")
    case None
    have "x\<lparr>pppoe_host_uniq := None, pppoe_host_uniq_len := 0\<rparr> = x" using that by (cases x) simp
    then show ?thesis using None wf by (simp add: H_def wf_pointer_def)
  next
    case (Some d)
    then have "unat (pppoe_host_uniq_len p) = length d" "length d \<le> 10000" using wf by (auto simp: wf_pointer_def)
    then show ?thesis
      using Some pppoe_data_tag(2) [of "pppoe_host_uniq_len p" d M sp pad x] M by (simp add: H_def)
  qed
  have sn': "unat (pppoe_service_name_len p) = length sn" "length sn \<le> 10000" using wf sn by (auto simp: wf_pointer_def)
  define tags where "tags = w_be16 0x0101 @ w_be16 (pppoe_service_name_len p) @ sn @ H"
  have "pppoe_tags p = Some tags"
    using wf sn by (cases "pppoe_host_uniq p"; cases "pppoe_ac_cookie p")
      (auto simp: pppoe_tags_def wf_pointer_data_tag tags_def H_def M_def C_def V_def wf_pointer_def unat_eq_0)
  moreover have "length tags < 40000" using H sn' by (simp add: tags_def)
  moreover have "tlv_run (pppoe_tag sp) pad tags (zero_pppoe_discovery\<lparr>pppoe_code := pppoe_code p, pppoe_session_id := pppoe_session_id p\<rparr>) =
      Some (Inr (wire_pppoe_discovery p))"
    using pppoe_data_tag(1) [OF sn'(1), of H sp pad] H sn' sn
    by (simp add: tags_def Hr Mr Cr zero_pppoe_discovery_def wire_pppoe_discovery_def)
  ultimately show ?thesis by blast
qed

text \<open>
  C32. Every PPPoE discovery packet with a service name is encoded, and decoding it, whatever follows
  it in the buffer, gives code, session, service name, host-uniq, cookie and the access line back:
  the circuit and remote identifier up to 128 bytes and the two rates. The rest of the access line
  and its profile, the maximum payload and the access concentrator name are skipped by the decoder.
\<close>

theorem pppoe_discovery_round_trip:
  assumes "wf_pppoe_discovery p" "386 \<le> unat sp_len"
  shows "\<exists>bs. encode_pppoe_discovery p = Some bs \<and> length bs < 40006 \<and>
    (\<forall>pad len. length bs \<le> unat len \<longrightarrow>
       decode_pppoe_discovery (bs @ pad) len sp_len = Some (Inr (wire_pppoe_discovery p)))"
proof -
  have "306 \<le> unat (sp_len - 80)" using assms(2) by (simp add: unat_sub_le word_le_nat_alt)
  then obtain tags where t: "pppoe_tags p = Some tags" "length tags < 40000"
    and run: "\<And>pad. tlv_run (pppoe_tag (sp_len - 80)) pad tags
      (zero_pppoe_discovery\<lparr>pppoe_code := pppoe_code p, pppoe_session_id := pppoe_session_id p\<rparr>) = Some (Inr (wire_pppoe_discovery p))"
    using pppoe_tags_run [OF assms(1)] by (metis option.inject)
  define n :: u16 where "n = of_nat (length tags)"
  have n: "unat n = length tags" unfolding n_def using t(2) by (intro unat_of_nat_small) simp
  define bs where "bs = [17, pppoe_code p] @ w_be16 (pppoe_session_id p) @ w_be16 n @ tags"
  have e: "encode_pppoe_discovery p = Some bs"
    using assms(1) t(1) by (simp add: encode_pppoe_discovery_def bs_def n_def wf_pppoe_discovery_def)
  have "decode_pppoe_discovery (bs @ pad) len sp_len = Some (Inr (wire_pppoe_discovery p))" if "length bs \<le> unat len" for pad len
  proof -
    have l: "length tags + 6 \<le> unat len" using that by (simp add: bs_def)
    then have "unat (len - 6) = unat len - 6" by (simp add: unat_sub_le word_le_nat_alt)
    then have "\<not> len < 6" "\<not> n > len - 6" using l n by (simp_all add: word_less_nat_alt)
    moreover have "\<not> sp_len < 80" using assms(2) by (simp add: word_less_nat_alt)
    ultimately show ?thesis
      using run [of pad] by (simp add: decode_pppoe_discovery_def bs_def tlv_run_def n_def)
  qed
  then show ?thesis using e t(2) by (auto simp: bs_def)
qed

definition example_padr :: bbl_pppoe_discovery where
  "example_padr = zero_pppoe_discovery\<lparr>pppoe_code := 0x19, pppoe_service_name := Some [105, 112], pppoe_service_name_len := 2,
     pppoe_ac_cookie := Some [1, 2, 3], pppoe_ac_cookie_len := 3,
     pppoe_access_line := Some (zero_access_line\<lparr>al_aci := Some [97, 49, 0], al_up := 1024, al_dsl_type := 5\<rparr>)\<rparr>"

theorem pppoe_discovery_round_trip_witness:
  "\<exists>bs. encode_pppoe_discovery example_padr = Some bs \<and>
     decode_pppoe_discovery bs (of_nat (length bs)) 4096 = Some (Inr (example_padr\<lparr>pppoe_access_line :=
       Some (zero_access_line\<lparr>al_aci := Some [97, 49], al_up := 1024\<rparr>)\<rparr>))"
proof -
  have "wf_pppoe_discovery example_padr"
    by (simp add: wf_pppoe_discovery_def example_padr_def zero_pppoe_discovery_def zero_access_line_def wf_pointer_def
        wf_access_line_def wf_string_def strnlen_def)
  from pppoe_discovery_round_trip [OF this, of 4096] obtain bs where
    b: "encode_pppoe_discovery example_padr = Some bs" "length bs < 40006"
      "\<And>pad len. length bs \<le> unat len \<Longrightarrow> decode_pppoe_discovery (bs @ pad) len 4096 = Some (Inr (wire_pppoe_discovery example_padr))"
    by auto
  moreover have "unat (of_nat (length bs) :: u16) = length bs" using b(2) by (intro unat_of_nat_small) simp
  moreover have "wire_pppoe_discovery example_padr = example_padr\<lparr>pppoe_access_line :=
       Some (zero_access_line\<lparr>al_aci := Some [97, 49], al_up := 1024\<rparr>)\<rparr>"
    by (simp add: wire_pppoe_discovery_def example_padr_def zero_pppoe_discovery_def wire_access_line_def wire_string_def
        zero_access_line_def strnlen_def)
  ultimately show ?thesis using b(3) [of "of_nat (length bs)" "[]"] by simp
qed

end
