(* ===== verification/DHCP_Codec.thy ===== *)
theory DHCP_Codec
  imports Access_Line Net_Addr
begin

text \<open>
  DHCPv4 and DHCPv6 of \<^verbatim>\<open>code/bngblaster/src/bbl_protocols.c\<close>. The fixed DHCPv4 header is kept
  as its 236 bytes. A DHCPv6 message is the list of the message and the messages relayed in it:
  the \<open>relay_message\<close> pointer of each is the rest of the list.
\<close>

section \<open>DHCPv4\<close>

record bbl_dhcp =
  dhcp_header :: "u8 list option"
  dhcp_type :: u8
  dhcp_server_identifier :: u32
  dhcp_lease_time :: u32
  dhcp_address :: u32
  dhcp_netmask :: u32
  dhcp_dns1 :: u32
  dhcp_dns2 :: u32
  dhcp_router :: u32
  dhcp_mtu :: u16
  dhcp_t1 :: u32
  dhcp_t2 :: u32
  dhcp_host_name :: "u8 list option"
  dhcp_host_name_len :: u8
  dhcp_domain_name :: "u8 list option"
  dhcp_domain_name_len :: u8
  dhcp_parameter_request_list :: bool
  dhcp_option_server_identifier :: bool
  dhcp_option_lease_time :: bool
  dhcp_option_address :: bool
  dhcp_option_netmask :: bool
  dhcp_option_dns1 :: bool
  dhcp_option_dns2 :: bool
  dhcp_option_router :: bool
  dhcp_option_mtu :: bool
  dhcp_option_host_name :: bool
  dhcp_option_domain_name :: bool
  dhcp_option_t1 :: bool
  dhcp_option_t2 :: bool
  dhcp_access_line :: "access_line option"
  dhcp_vendor_class_id :: "u8 list option"
  dhcp_client_identifier :: "u8 list option"
  dhcp_client_identifier_len :: u8

definition zero_dhcp :: bbl_dhcp where
  "zero_dhcp = \<lparr>dhcp_header = None, dhcp_type = 0, dhcp_server_identifier = 0, dhcp_lease_time = 0, dhcp_address = 0,
     dhcp_netmask = 0, dhcp_dns1 = 0, dhcp_dns2 = 0, dhcp_router = 0, dhcp_mtu = 0, dhcp_t1 = 0, dhcp_t2 = 0,
     dhcp_host_name = None, dhcp_host_name_len = 0, dhcp_domain_name = None, dhcp_domain_name_len = 0,
     dhcp_parameter_request_list = False, dhcp_option_server_identifier = False, dhcp_option_lease_time = False,
     dhcp_option_address = False, dhcp_option_netmask = False, dhcp_option_dns1 = False, dhcp_option_dns2 = False,
     dhcp_option_router = False, dhcp_option_mtu = False, dhcp_option_host_name = False, dhcp_option_domain_name = False,
     dhcp_option_t1 = False, dhcp_option_t2 = False, dhcp_access_line = None, dhcp_vendor_class_id = None,
     dhcp_client_identifier = None, dhcp_client_identifier_len = 0\<rparr>"

subsection \<open>Encoding\<close>

text \<open>The vendor sub-option is only counted when it has at least one attribute.\<close>

definition encode_dhcp_access_line :: "access_line \<Rightarrow> u8 list" where
  "encode_dhcp_access_line al =
     (let data = rate_subs [(0x81, al_up al), (0x82, al_down al), (0x91, al_dsl_type al)];
          len = 7 + length data
      in if len > 7 then [9, of_nat (len - 2)] @ w_be32 3561 @ [of_nat (len - 7)] @ data else [])"

text \<open>The length of the relay agent information is summed up in 8 bits.\<close>

definition dhcp_agent_option :: "access_line \<Rightarrow> u8 list" where
  "dhcp_agent_option al =
     (let data = string_sub 1 255 (al_aci al) @ string_sub 2 255 (al_ari al) @ encode_dhcp_access_line al
      in [82, of_nat (length data)] @ data)"

definition dhcp_request_list :: "bbl_dhcp \<Rightarrow> u8 list" where
  "dhcp_request_list dhcp =
     (let data = (if dhcp_option_netmask dhcp then [1] else []) @ (if dhcp_option_router dhcp then [3] else []) @
                 (if dhcp_option_dns1 dhcp \<or> dhcp_option_dns2 dhcp then [6] else []) @
                 (if dhcp_option_domain_name dhcp then [15] else [])
      in [55, of_nat (length data)] @ data)"

definition dhcp_options :: "bbl_dhcp \<Rightarrow> u8 list option" where
  "dhcp_options dhcp =
     do { cid \<leftarrow> (case dhcp_client_identifier dhcp of None \<Rightarrow> Some []
            | Some d \<Rightarrow> do { x \<leftarrow> ld_range d 0 (unat (dhcp_client_identifier_len dhcp));
                            Some ([61, dhcp_client_identifier_len dhcp] @ x) });
          Some ([53, 1, dhcp_type dhcp] @
            (if dhcp_parameter_request_list dhcp then dhcp_request_list dhcp else []) @
            cid @
            (if dhcp_option_server_identifier dhcp then [54, 4] @ w_ne32 (dhcp_server_identifier dhcp) else []) @
            (if dhcp_option_address dhcp \<and> dhcp_address dhcp \<noteq> 0 then [50, 4] @ w_ne32 (dhcp_address dhcp) else []) @
            (if dhcp_option_router dhcp \<and> dhcp_router dhcp \<noteq> 0 then [3, 4] @ w_ne32 (dhcp_router dhcp) else []) @
            (if dhcp_option_lease_time dhcp \<and> dhcp_lease_time dhcp \<noteq> 0 then [51, 4] @ w_be32 (dhcp_lease_time dhcp) else []) @
            string_sub 60 255 (dhcp_vendor_class_id dhcp) @
            (case dhcp_access_line dhcp of None \<Rightarrow> [] | Some al \<Rightarrow> dhcp_agent_option al) @
            [255]) }"

text \<open>The message is padded until the length of the packet so far, \<open>*len\<close>, is a multiple of eight.\<close>

definition encode_dhcp :: "u16 \<Rightarrow> bbl_dhcp \<Rightarrow> u8 list decoded" where
  "encode_dhcp len dhcp =
     (case dhcp_header dhcp of
        None \<Rightarrow> Some (Inl ENCODE_ERROR)
      | Some h \<Rightarrow> do {
          header \<leftarrow> ld_range h 0 236;
          options \<leftarrow> dhcp_options dhcp;
          let bs = header @ w_be32 0x63825363 @ options;
          let len = (unat len + length bs) mod 65536;
          Some (Inr (bs @ replicate ((8 - len mod 8) mod 8) 0)) })"

subsection \<open>Decoding\<close>

text \<open>
  The strings are copied behind the access line structure. For a second relay agent option the
  structure is reused, but \<open>sp\<close> still points to it, so that a string would overwrite the
  structure: \<open>reused\<close> makes that undefined.
\<close>

definition agent_sub :: "bool \<Rightarrow> u8 \<Rightarrow> u8 \<Rightarrow> u8 list \<Rightarrow> access_line \<times> u16 \<Rightarrow> (access_line \<times> u16) decoded" where
  "agent_sub reused tlv_type tlv_length buf state =
     (case state of (access_line, sp_len) \<Rightarrow>
        if tlv_type = 1 then
          if sp_len > ucast tlv_length
          then if reused then None
               else do { s \<leftarrow> ld_range buf 0 (unat tlv_length);
                         Some (Inr (access_line\<lparr>al_aci := Some s\<rparr>, sp_len - (ucast tlv_length + 1))) }
          else Some (Inl DECODE_ERROR)
        else if tlv_type = 2 then
          if sp_len > ucast tlv_length
          then if reused then None
               else do { s \<leftarrow> ld_range buf 0 (unat tlv_length);
                         Some (Inr (access_line\<lparr>al_ari := Some s\<rparr>, sp_len - (ucast tlv_length + 1))) }
          else Some (Inl DECODE_ERROR)
        else Some (Inr (access_line, sp_len)))"

definition decode_dhcp_agent :: "u8 list \<Rightarrow> u16 \<Rightarrow> u16 \<Rightarrow> bbl_dhcp \<Rightarrow> bbl_dhcp decoded" where
  "decode_dhcp_agent buf len sp_len dhcp =
     do { r \<leftarrow> (case dhcp_access_line dhcp of
            Some access_line \<Rightarrow> sub_loop (agent_sub True) buf len (access_line, sp_len)
          | None \<Rightarrow> if sp_len < 48 then None else sub_loop (agent_sub False) buf len (zero_access_line, sp_len - 48));
          case r of Inl e \<Rightarrow> Some (Inl e)
            | Inr (access_line, _) \<Rightarrow> Some (Inr (dhcp\<lparr>dhcp_access_line := Some access_line\<rparr>)) }"

definition dhcp_option :: "u16 \<Rightarrow> u8 \<Rightarrow> u8 \<Rightarrow> u8 list \<Rightarrow> bbl_dhcp \<Rightarrow> bbl_dhcp decoded" where
  "dhcp_option sp_len option option_len buf dhcp =
     (if option = 53 then
        if option_len \<noteq> 1 then Some (Inl DECODE_ERROR)
        else do { v \<leftarrow> rd8 buf; Some (Inr (dhcp\<lparr>dhcp_type := v\<rparr>)) }
      else if option = 51 then
        if option_len \<noteq> 4 then Some (Inl DECODE_ERROR)
        else do { v \<leftarrow> rd_be32 buf; Some (Inr (dhcp\<lparr>dhcp_lease_time := v, dhcp_option_lease_time := True\<rparr>)) }
      else if option = 61 then
        do { d \<leftarrow> ld_range buf 0 (unat option_len);
             Some (Inr (dhcp\<lparr>dhcp_client_identifier := Some d, dhcp_client_identifier_len := option_len\<rparr>)) }
      else if option = 54 then
        if option_len \<noteq> 4 then Some (Inl DECODE_ERROR)
        else do { v \<leftarrow> rd_ne32 buf; Some (Inr (dhcp\<lparr>dhcp_server_identifier := v, dhcp_option_server_identifier := True\<rparr>)) }
      else if option = 1 then
        if option_len \<noteq> 4 then Some (Inl DECODE_ERROR)
        else do { v \<leftarrow> rd_ne32 buf; Some (Inr (dhcp\<lparr>dhcp_netmask := v, dhcp_option_netmask := True\<rparr>)) }
      else if option = 3 then
        if option_len < 4 then Some (Inl DECODE_ERROR)
        else do { v \<leftarrow> rd_ne32 buf; Some (Inr (dhcp\<lparr>dhcp_router := v, dhcp_option_router := True\<rparr>)) }
      else if option = 6 then
        if option_len < 4 then Some (Inl DECODE_ERROR)
        else do { v \<leftarrow> rd_ne32 buf;
                  let dhcp = dhcp\<lparr>dhcp_dns1 := v, dhcp_option_dns1 := True\<rparr>;
                  if option_len \<ge> 8
                  then do { v \<leftarrow> rd_ne32 (drop 4 buf); Some (Inr (dhcp\<lparr>dhcp_dns2 := v, dhcp_option_dns2 := True\<rparr>)) }
                  else Some (Inr dhcp) }
      else if option = 12 then
        do { d \<leftarrow> ld_range buf 0 (unat option_len);
             Some (Inr (dhcp\<lparr>dhcp_host_name := Some d, dhcp_host_name_len := option_len\<rparr>)) }
      else if option = 15 then
        do { d \<leftarrow> ld_range buf 0 (unat option_len);
             Some (Inr (dhcp\<lparr>dhcp_domain_name := Some d, dhcp_domain_name_len := option_len\<rparr>)) }
      else if option = 26 then
        if option_len \<noteq> 2 then Some (Inl DECODE_ERROR)
        else do { v \<leftarrow> rd_be16 buf; Some (Inr (dhcp\<lparr>dhcp_mtu := v, dhcp_option_mtu := True\<rparr>)) }
      else if option = 82 then
        do { r \<leftarrow> decode_dhcp_agent buf (ucast option_len) sp_len dhcp;
             case r of Inl _ \<Rightarrow> Some (Inl DECODE_ERROR) | Inr dhcp \<Rightarrow> Some (Inr dhcp) }
      else if option = 58 then
        if option_len \<noteq> 4 then Some (Inl DECODE_ERROR)
        else do { v \<leftarrow> rd_be32 buf; Some (Inr (dhcp\<lparr>dhcp_t1 := v, dhcp_option_t1 := True\<rparr>)) }
      else if option = 59 then
        if option_len \<noteq> 4 then Some (Inl DECODE_ERROR)
        else do { v \<leftarrow> rd_be32 buf; Some (Inr (dhcp\<lparr>dhcp_t2 := v, dhcp_option_t2 := True\<rparr>)) }
      else Some (Inr dhcp))"

lemma trunc8_le: "ucast (ucast (x :: u16) :: u8) \<le> x"
  unfolding word_le_nat_alt unsigned_ucast_eq by (simp add: take_bit_eq_mod unat_word_ariths)

text \<open>
  The end option skips what is left, but \<open>option_len\<close> has 8 bits: of more than 255 bytes only the
  remainder modulo 256 is skipped, and the loop goes on.
\<close>

function dhcp_loop :: "u16 \<Rightarrow> u8 list \<Rightarrow> u16 \<Rightarrow> bbl_dhcp \<Rightarrow> bbl_dhcp decoded" where
  "dhcp_loop sp_len buf len dhcp =
     (if len < 2 then Some (Inr dhcp)
      else (case rd8 buf of
        None \<Rightarrow> None
      | Some option \<Rightarrow>
          (if option = 0 then dhcp_loop sp_len (drop 1 buf) (len - 1) dhcp
           else (case rd8 (drop 1 buf) of
             None \<Rightarrow> None
           | Some option_len \<Rightarrow>
               (if ucast option_len > len - 2 then Some (Inl DECODE_ERROR)
                else if option = 255 then
                  let option_len = ucast (len - 2) :: u8
                  in dhcp_loop sp_len (drop (unat option_len) (drop 2 buf)) (len - 2 - ucast option_len) dhcp
                else (case dhcp_option sp_len option option_len (drop 2 buf) dhcp of
                  None \<Rightarrow> None
                | Some (Inl e) \<Rightarrow> Some (Inl e)
                | Some (Inr dhcp) \<Rightarrow>
                    dhcp_loop sp_len (drop (unat option_len) (drop 2 buf)) (len - 2 - ucast option_len) dhcp))))))"
  by pat_completeness auto
termination
proof (relation "measure (\<lambda>(_, _, len, _). unat len)", goal_cases)
  case (2 sp_len buf len dhcp option)
  then show ?case by (simp add: word_less_nat_alt unat_sub_le word_le_nat_alt)
next
  case (3 sp_len buf len dhcp option option_len x)
  then show ?case using trunc8_le [of "len - 2"] by (auto simp: word_less_nat_alt unat_sub_le word_le_nat_alt)
next
  case (4 sp_len buf len dhcp option option_len)
  then show ?case by (auto simp: word_less_nat_alt unat_sub_le word_le_nat_alt)
qed simp

declare dhcp_loop.simps [simp del]

definition decode_dhcp :: "u8 list \<Rightarrow> u16 \<Rightarrow> u16 \<Rightarrow> bbl_dhcp decoded" where
  "decode_dhcp buf len sp_len =
     (if len < 240 \<or> sp_len < 128 then Some (Inl DECODE_ERROR)
      else do {
        let sp_len = sp_len - 128;
        header \<leftarrow> ld_range buf 0 236;
        let buf = drop 236 buf; let len = len - 236;
        let buf = drop 4 buf; let len = len - 4;
        dhcp_loop sp_len buf len (zero_dhcp\<lparr>dhcp_header := Some header\<rparr>) })"

section \<open>DHCPv6\<close>

record bbl_dhcpv6 =
  d6_type :: u8
  d6_hops :: u8
  d6_elapsed :: u16
  d6_xid :: u32
  d6_interface_id :: "u8 list option"
  d6_interface_id_len :: u8
  d6_client_duid :: "u8 list option"
  d6_client_duid_len :: u8
  d6_server_duid :: "u8 list option"
  d6_server_duid_len :: u8
  d6_dns1 :: "u8 list option"
  d6_dns2 :: "u8 list option"
  d6_rapid :: bool
  d6_oro :: bool
  d6_ia_na_option :: "u8 list option"
  d6_ia_na_option_len :: u8
  d6_ia_na_iaid :: u32
  d6_ia_na_status_code :: u16
  d6_ia_na_address :: "u8 list option"
  d6_ia_na_t1 :: u32
  d6_ia_na_t2 :: u32
  d6_ia_na_preferred_lifetime :: u32
  d6_ia_na_valid_lifetime :: u32
  d6_ia_pd_option :: "u8 list option"
  d6_ia_pd_option_len :: u8
  d6_ia_pd_iaid :: u32
  d6_ia_pd_status_code :: u16
  d6_ia_pd_prefix :: "u8 list option"
  d6_ia_pd_t1 :: u32
  d6_ia_pd_t2 :: u32
  d6_ia_pd_preferred_lifetime :: u32
  d6_ia_pd_valid_lifetime :: u32
  d6_access_line :: "access_line option"
  d6_link_address :: "u8 list option"
  d6_peer_address :: "u8 list option"

definition zero_dhcpv6 :: bbl_dhcpv6 where
  "zero_dhcpv6 = \<lparr>d6_type = 0, d6_hops = 0, d6_elapsed = 0, d6_xid = 0, d6_interface_id = None, d6_interface_id_len = 0,
     d6_client_duid = None, d6_client_duid_len = 0, d6_server_duid = None, d6_server_duid_len = 0, d6_dns1 = None,
     d6_dns2 = None, d6_rapid = False, d6_oro = False, d6_ia_na_option = None, d6_ia_na_option_len = 0, d6_ia_na_iaid = 0,
     d6_ia_na_status_code = 0, d6_ia_na_address = None, d6_ia_na_t1 = 0, d6_ia_na_t2 = 0, d6_ia_na_preferred_lifetime = 0,
     d6_ia_na_valid_lifetime = 0, d6_ia_pd_option = None, d6_ia_pd_option_len = 0, d6_ia_pd_iaid = 0,
     d6_ia_pd_status_code = 0, d6_ia_pd_prefix = None, d6_ia_pd_t1 = 0, d6_ia_pd_t2 = 0, d6_ia_pd_preferred_lifetime = 0,
     d6_ia_pd_valid_lifetime = 0, d6_access_line = None, d6_link_address = None, d6_peer_address = None\<rparr>"

abbreviation (input) is_relay :: "u8 \<Rightarrow> bool" where
  "is_relay t \<equiv> t = 12 \<or> t = 13"

subsection \<open>Encoding\<close>

definition rate_opt :: "u16 \<Rightarrow> u32 \<Rightarrow> u8 list" where
  "rate_opt t v = (if v \<noteq> 0 then w_be16 t @ w_be16 4 @ w_be32 v else [])"

definition encode_dhcpv6_access_line :: "access_line \<Rightarrow> u8 list" where
  "encode_dhcpv6_access_line al =
     (let data = w_be32 3561 @ rate_opt 0x81 (al_up al) @ rate_opt 0x82 (al_down al) @ rate_opt 0x91 (al_dsl_type al);
          len = 4 + length data
      in if len > 8 then w_be16 17 @ w_be16 (of_nat (len - 4)) @ data else [])"

definition w_ipv6 :: "u8 list option \<Rightarrow> u8 list option" where
  "w_ipv6 ptr = (case ptr of None \<Rightarrow> Some (replicate 16 0) | Some a \<Rightarrow> ld_range a 0 16)"

definition d6_header :: "bbl_dhcpv6 \<Rightarrow> u8 list option" where
  "d6_header d =
     (if is_relay (d6_type d) then
        do { link \<leftarrow> w_ipv6 (d6_link_address d);
             peer \<leftarrow> w_ipv6 (d6_peer_address d);
             Some ([d6_type d, d6_hops d] @ link @ peer) }
      else Some ((w_be32 (d6_xid d)) [0 := d6_type d] @ w_be16 8 @ w_be16 2 @ w_be16 (d6_elapsed d)))"

definition duid_opt :: "u16 \<Rightarrow> u8 list option \<Rightarrow> u8 \<Rightarrow> u8 list option" where
  "duid_opt t ptr n =
     (if n \<noteq> 0
      then do { d \<leftarrow> (case ptr of None \<Rightarrow> None | Some bs \<Rightarrow> ld_range bs 0 (unat n)); Some (w_be16 t @ w_be16 (ucast n) @ d) }
      else Some [])"

text \<open>The times and lifetimes are stored as they are, not in network byte order.\<close>

definition d6_ia_na :: "bbl_dhcpv6 \<Rightarrow> u8 list option" where
  "d6_ia_na d =
     (if d6_ia_na_option_len d \<noteq> 0 then duid_opt 3 (d6_ia_na_option d) (d6_ia_na_option_len d)
      else if d6_ia_na_iaid d \<noteq> 0 then
        do { addr \<leftarrow> (case d6_ia_na_address d of None \<Rightarrow> Some []
               | Some a \<Rightarrow> do { x \<leftarrow> ld_range a 0 16;
                               Some (w_be16 5 @ w_be16 24 @ x @ w_ne32 (d6_ia_na_preferred_lifetime d) @ w_ne32 (d6_ia_na_valid_lifetime d)) });
             Some (w_be16 3 @ w_be16 (if d6_ia_na_address d \<noteq> None then 40 else 12) @
               w_ne32 (d6_ia_na_iaid d) @ w_ne32 (d6_ia_na_t1 d) @ w_ne32 (d6_ia_na_t2 d) @ addr) }
      else Some [])"

definition d6_ia_pd :: "bbl_dhcpv6 \<Rightarrow> u8 list option" where
  "d6_ia_pd d =
     (if d6_ia_pd_option_len d \<noteq> 0 then duid_opt 25 (d6_ia_pd_option d) (d6_ia_pd_option_len d)
      else if d6_ia_pd_iaid d \<noteq> 0 then
        do { p \<leftarrow> (case d6_ia_pd_prefix d of None \<Rightarrow> Some (replicate 17 0) | Some p \<Rightarrow> ld_range p 0 17);
             Some (w_be16 25 @ w_be16 41 @ w_ne32 (d6_ia_pd_iaid d) @ w_ne32 (d6_ia_pd_t1 d) @ w_ne32 (d6_ia_pd_t2 d) @
               w_be16 26 @ w_be16 25 @ w_ne32 (d6_ia_pd_preferred_lifetime d) @ w_ne32 (d6_ia_pd_valid_lifetime d) @ p) }
      else Some [])"

definition d6_line :: "bbl_dhcpv6 \<Rightarrow> u8 list option" where
  "d6_line d =
     do { iface \<leftarrow> (case d6_interface_id d of None \<Rightarrow> Some []
            | Some i \<Rightarrow> do { x \<leftarrow> ld_range i 0 (unat (d6_interface_id_len d));
                            Some (w_be16 18 @ w_be16 (ucast (d6_interface_id_len d)) @ x) });
          Some (iface @
            (case d6_access_line d of None \<Rightarrow> []
             | Some al \<Rightarrow>
                 (case al_aci al of None \<Rightarrow> []
                  | Some s \<Rightarrow> if d6_interface_id d = None
                      then let n = strnlen s 255 in w_be16 18 @ w_be16 (of_nat n) @ take n s else []) @
                 (case al_ari al of None \<Rightarrow> []
                  | Some s \<Rightarrow> let n = strnlen s 65535 in w_be16 37 @ w_be16 (of_nat n + 4) @ w_be32 3561 @ take n s) @
                 encode_dhcpv6_access_line al)) }"

fun encode_dhcpv6 :: "bbl_dhcpv6 list \<Rightarrow> u8 list option" where
  "encode_dhcpv6 [] = None"
| "encode_dhcpv6 (d # relay_message) =
     do { header \<leftarrow> d6_header d;
          relay \<leftarrow> (if relay_message = [] then Some []
            else do { r \<leftarrow> encode_dhcpv6 relay_message; Some (w_be16 9 @ w_be16 (of_nat (length r)) @ r) });
          client \<leftarrow> duid_opt 1 (d6_client_duid d) (d6_client_duid_len d);
          server \<leftarrow> duid_opt 2 (d6_server_duid d) (d6_server_duid_len d);
          ia_na \<leftarrow> d6_ia_na d;
          ia_pd \<leftarrow> d6_ia_pd d;
          line \<leftarrow> d6_line d;
          Some (header @ relay @ client @ server @ (if d6_rapid d then w_be16 14 @ w_ne16 0 else []) @
            ia_na @ ia_pd @ (if d6_oro d then w_be16 6 @ w_be16 2 @ w_be16 23 else []) @ line) }"

subsection \<open>Decoding\<close>

definition ia_na_sub :: "u16 \<Rightarrow> u16 \<Rightarrow> u8 list \<Rightarrow> bbl_dhcpv6 \<Rightarrow> bbl_dhcpv6 decoded" where
  "ia_na_sub ia_option ia_option_len buf d =
     (if ia_option = 5 then
        if ia_option_len < 24 then Some (Inl DECODE_ERROR)
        else do { a \<leftarrow> ld_range buf 0 16;
                  p \<leftarrow> rd_be32 (drop 16 buf);
                  v \<leftarrow> rd_be32 (drop 20 buf);
                  Some (Inr (d\<lparr>d6_ia_na_address := Some a, d6_ia_na_preferred_lifetime := p, d6_ia_na_valid_lifetime := v\<rparr>)) }
      else if ia_option = 13 then
        if ia_option_len < 2 then Some (Inl DECODE_ERROR)
        else do { c \<leftarrow> rd_be16 buf; Some (Inr (d\<lparr>d6_ia_na_status_code := c\<rparr>)) }
      else Some (Inr d))"

definition decode_dhcpv6_ia_na :: "u8 list \<Rightarrow> u16 \<Rightarrow> bbl_dhcpv6 \<Rightarrow> bbl_dhcpv6 decoded" where
  "decode_dhcpv6_ia_na buf len d =
     (if len < 12 then Some (Inl DECODE_ERROR)
      else do {
        opt \<leftarrow> ld_range buf 0 (unat len);
        iaid \<leftarrow> rd_ne32 buf;
        t1 \<leftarrow> rd_be32 (drop 4 buf);
        t2 \<leftarrow> rd_be32 (drop 8 buf);
        tlv_loop ia_na_sub (drop 12 buf) (len - 12)
          (d\<lparr>d6_ia_na_option := Some opt, d6_ia_na_option_len := ucast len, d6_ia_na_iaid := iaid,
             d6_ia_na_t1 := t1, d6_ia_na_t2 := t2\<rparr>) })"

definition ia_pd_sub :: "u16 \<Rightarrow> u16 \<Rightarrow> u8 list \<Rightarrow> bbl_dhcpv6 \<Rightarrow> bbl_dhcpv6 decoded" where
  "ia_pd_sub ia_option ia_option_len buf d =
     (if ia_option = 26 then
        if ia_option_len < 25 then Some (Inl DECODE_ERROR)
        else do { p \<leftarrow> rd_be32 buf;
                  v \<leftarrow> rd_be32 (drop 4 buf);
                  a \<leftarrow> ld_range buf 8 17;
                  Some (Inr (d\<lparr>d6_ia_pd_preferred_lifetime := p, d6_ia_pd_valid_lifetime := v, d6_ia_pd_prefix := Some a\<rparr>)) }
      else if ia_option = 13 then
        if ia_option_len < 2 then Some (Inl DECODE_ERROR)
        else do { c \<leftarrow> rd_be16 buf; Some (Inr (d\<lparr>d6_ia_pd_status_code := c\<rparr>)) }
      else Some (Inr d))"

definition decode_dhcpv6_ia_pd :: "u8 list \<Rightarrow> u16 \<Rightarrow> bbl_dhcpv6 \<Rightarrow> bbl_dhcpv6 decoded" where
  "decode_dhcpv6_ia_pd buf len d =
     (if len < 12 then Some (Inl DECODE_ERROR)
      else do {
        opt \<leftarrow> ld_range buf 0 (unat len);
        iaid \<leftarrow> rd_ne32 buf;
        t1 \<leftarrow> rd_be32 (drop 4 buf);
        t2 \<leftarrow> rd_be32 (drop 8 buf);
        tlv_loop ia_pd_sub (drop 12 buf) (len - 12)
          (d\<lparr>d6_ia_pd_option := Some opt, d6_ia_pd_option_len := ucast len, d6_ia_pd_iaid := iaid,
             d6_ia_pd_t1 := t1, d6_ia_pd_t2 := t2\<rparr>) })"

text \<open>While decoding: the message, the room left on the scratchpad, and the relay message found so far.\<close>

record dhcpv6_state =
  ds_dhcpv6 :: bbl_dhcpv6
  ds_sp_len :: u16
  ds_relay_msg :: "(u8 list \<times> u16) option"

definition dhcpv6_option :: "u16 \<Rightarrow> u16 \<Rightarrow> u8 list \<Rightarrow> dhcpv6_state \<Rightarrow> dhcpv6_state decoded" where
  "dhcpv6_option option option_len buf s =
     (let d = ds_dhcpv6 s; sp_len = ds_sp_len s in
      if option = 14 then Some (Inr (s\<lparr>ds_dhcpv6 := d\<lparr>d6_rapid := True\<rparr>\<rparr>))
      else if option = 3 then
        do { r \<leftarrow> decode_dhcpv6_ia_na buf option_len d;
             case r of Inl _ \<Rightarrow> Some (Inl DECODE_ERROR) | Inr d \<Rightarrow> Some (Inr (s\<lparr>ds_dhcpv6 := d\<rparr>)) }
      else if option = 25 then
        do { r \<leftarrow> decode_dhcpv6_ia_pd buf option_len d;
             case r of Inl _ \<Rightarrow> Some (Inl DECODE_ERROR) | Inr d \<Rightarrow> Some (Inr (s\<lparr>ds_dhcpv6 := d\<rparr>)) }
      else if option = 2 then
        if option_len < 2 then Some (Inl DECODE_ERROR)
        else do { x \<leftarrow> ld_range buf 0 (unat option_len);
                  Some (Inr (s\<lparr>ds_dhcpv6 := d\<lparr>d6_server_duid := Some x, d6_server_duid_len := ucast option_len\<rparr>\<rparr>)) }
      else if option = 23 then
        if option_len \<ge> 16 then
          do { a \<leftarrow> ld_range buf 0 16;
               let d = d\<lparr>d6_dns1 := Some a\<rparr>;
               if option_len \<ge> 32
               then do { b \<leftarrow> ld_range buf 16 16; Some (Inr (s\<lparr>ds_dhcpv6 := d\<lparr>d6_dns2 := Some b\<rparr>\<rparr>)) }
               else Some (Inr (s\<lparr>ds_dhcpv6 := d\<rparr>)) }
        else Some (Inr s)
      else if option = 18 then
        do { x \<leftarrow> ld_range buf 0 (unat option_len);
             let d = d\<lparr>d6_interface_id := Some x, d6_interface_id_len := ucast option_len\<rparr>;
             case d6_access_line d of
               Some al \<Rightarrow>
                 if sp_len > option_len
                 then Some (Inr (s\<lparr>ds_dhcpv6 := d\<lparr>d6_access_line := Some (al\<lparr>al_aci := Some x\<rparr>)\<rparr>, ds_sp_len := sp_len - (option_len + 1)\<rparr>))
                 else Some (Inr (s\<lparr>ds_dhcpv6 := d\<rparr>))
             | None \<Rightarrow> Some (Inr (s\<lparr>ds_dhcpv6 := d\<rparr>)) }
      else if option = 37 then
        (case d6_access_line d of
           Some al \<Rightarrow>
             if sp_len > option_len \<and> option_len \<ge> 4
             then do { x \<leftarrow> ld_range buf 0 (unat option_len);
                       Some (Inr (s\<lparr>ds_dhcpv6 := d\<lparr>d6_access_line := Some (al\<lparr>al_ari := Some (drop 4 x)\<rparr>)\<rparr>, ds_sp_len := sp_len - (option_len + 1)\<rparr>)) }
             else Some (Inr s)
         | None \<Rightarrow> Some (Inr s))
      else if option = 9 then
        if \<not> is_relay (d6_type d) then Some (Inl DECODE_ERROR)
        else Some (Inr (s\<lparr>ds_relay_msg := Some (buf, option_len)\<rparr>))
      else Some (Inr s))"

definition decode_dhcpv6_msg :: "bool \<Rightarrow> u8 list \<Rightarrow> u16 \<Rightarrow> u16 \<Rightarrow> dhcpv6_state decoded" where
  "decode_dhcpv6_msg relay buf len sp_len =
     (if len < 8 \<or> sp_len < 208 then Some (Inl DECODE_ERROR)
      else do {
        let sp_len = sp_len - 208;
        let line = \<not> (relay \<or> sp_len < 48);
        let sp_len = (if line then sp_len - 48 else sp_len);
        let d = zero_dhcpv6\<lparr>d6_access_line := if line then Some zero_access_line else None\<rparr>;
        typ \<leftarrow> rd8 buf;
        if is_relay typ then
          if relay \<or> len < 34 then Some (Inl DECODE_ERROR)
          else do {
            hops \<leftarrow> rd8 (drop 1 buf);
            link \<leftarrow> ld_range buf 2 16;
            peer \<leftarrow> ld_range buf 18 16;
            tlv_loop dhcpv6_option (drop 34 buf) (len - 34)
              \<lparr>ds_dhcpv6 = d\<lparr>d6_type := typ, d6_hops := hops, d6_link_address := Some link, d6_peer_address := Some peer\<rparr>,
               ds_sp_len = sp_len, ds_relay_msg = None\<rparr> }
        else do {
          x \<leftarrow> rd_be32 buf;
          tlv_loop dhcpv6_option (drop 4 buf) (len - 4)
            \<lparr>ds_dhcpv6 = d\<lparr>d6_type := typ, d6_xid := x AND 0x00ffffff\<rparr>, ds_sp_len = sp_len, ds_relay_msg = None\<rparr> } })"

text \<open>Only a relay message can carry another one.\<close>

lemma ia_keeps_type:
  "decode_dhcpv6_ia_na buf len d = Some (Inr d') \<Longrightarrow> d6_type d' = d6_type d"
  "decode_dhcpv6_ia_pd buf len d = Some (Inr d') \<Longrightarrow> d6_type d' = d6_type d"
proof -
  let ?P = "\<lambda>s. d6_type s = d6_type d"
  have "?P s \<Longrightarrow> gives ?P (ia_na_sub t n b s)" "?P s \<Longrightarrow> gives ?P (ia_pd_sub t n b s)" for t n b s
    unfolding ia_na_sub_def ia_pd_sub_def by (intro gives_intros; simp)+
  then have "gives ?P (decode_dhcpv6_ia_na buf len d)" "gives ?P (decode_dhcpv6_ia_pd buf len d)"
    unfolding decode_dhcpv6_ia_na_def decode_dhcpv6_ia_pd_def by (intro gives_intros gives_tlv_loop; simp)+
  then show "decode_dhcpv6_ia_na buf len d = Some (Inr d') \<Longrightarrow> d6_type d' = d6_type d"
    "decode_dhcpv6_ia_pd buf len d = Some (Inr d') \<Longrightarrow> d6_type d' = d6_type d"
    by (auto simp: gives_def)
qed

lemma dhcpv6_option_keeps:
  assumes "dhcpv6_option t n b s = Some (Inr s')"
  shows "d6_type (ds_dhcpv6 s') = d6_type (ds_dhcpv6 s)"
    and "\<not> is_relay (d6_type (ds_dhcpv6 s)) \<Longrightarrow> ds_relay_msg s' = ds_relay_msg s"
    and "ds_relay_msg s' = ds_relay_msg s \<or> ds_relay_msg s' = Some (b, n)"
proof -
  let ?Q = "\<lambda>s'. d6_type (ds_dhcpv6 s') = d6_type (ds_dhcpv6 s) \<and>
    (\<not> is_relay (d6_type (ds_dhcpv6 s)) \<longrightarrow> ds_relay_msg s' = ds_relay_msg s) \<and>
    (ds_relay_msg s' = ds_relay_msg s \<or> ds_relay_msg s' = Some (b, n))"
  have "gives ?Q (dhcpv6_option t n b s)"
    unfolding dhcpv6_option_def Let_def by (intro gives_intros) (auto dest: ia_keeps_type)
  from givesD [OF this assms] show "d6_type (ds_dhcpv6 s') = d6_type (ds_dhcpv6 s)"
    "\<not> is_relay (d6_type (ds_dhcpv6 s)) \<Longrightarrow> ds_relay_msg s' = ds_relay_msg s"
    "ds_relay_msg s' = ds_relay_msg s \<or> ds_relay_msg s' = Some (b, n)" by blast+
qed

lemma decode_dhcpv6_msg_relay:
  assumes "decode_dhcpv6_msg True buf len sp_len = Some (Inr s)"
  shows "ds_relay_msg s = None"
proof -
  let ?P = "\<lambda>s. \<not> is_relay (d6_type (ds_dhcpv6 s)) \<and> ds_relay_msg s = None"
  have step: "?P s'" if "dhcpv6_option t n b s = Some (Inr s')" "?P s" for t n b s s'
    using dhcpv6_option_keeps [OF that(1)] that(2) by simp
  then have "?P s \<Longrightarrow> gives ?P (dhcpv6_option t n b s)" for t n b s by (auto simp: gives_def)
  then have "gives ?P (decode_dhcpv6_msg True buf len sp_len)"
    unfolding decode_dhcpv6_msg_def Let_def by (intro gives_intros gives_tlv_loop) simp_all
  then show ?thesis using assms by (simp add: gives_def)
qed

function decode_dhcpv6 :: "bool \<Rightarrow> u8 list \<Rightarrow> u16 \<Rightarrow> u16 \<Rightarrow> bbl_dhcpv6 list decoded" where
  "decode_dhcpv6 relay buf len sp_len =
     (case decode_dhcpv6_msg relay buf len sp_len of
        None \<Rightarrow> None
      | Some (Inl e) \<Rightarrow> Some (Inl e)
      | Some (Inr s) \<Rightarrow>
          (case ds_relay_msg s of
             None \<Rightarrow> Some (Inr [ds_dhcpv6 s])
           | Some (relay_msg, relay_msg_len) \<Rightarrow>
               (case decode_dhcpv6 True relay_msg relay_msg_len (ds_sp_len s) of
                  None \<Rightarrow> None
                | Some (Inl e) \<Rightarrow> Some (Inl DECODE_ERROR)
                | Some (Inr relay_message) \<Rightarrow> Some (Inr (ds_dhcpv6 s # relay_message)))))"
  by pat_completeness auto
termination
proof (relation "measure (\<lambda>(relay, _). if relay then 0 else 1)", simp)
  fix relay buf len sp_len x s m b l
  assume "decode_dhcpv6_msg relay buf len sp_len = Some x" "x = Inr s" "ds_relay_msg s = Some m" "(b, l) = m"
  then have "\<not> relay" using decode_dhcpv6_msg_relay by fastforce
  then show "((True, b, l, ds_sp_len s), relay, buf, len, sp_len) \<in> measure (\<lambda>(relay, _). if relay then 0 else 1)"
    by simp
qed

declare decode_dhcpv6.simps [simp del]

section \<open>Safety\<close>

lemma ia_sub_safe:
  "unat n \<le> length b \<Longrightarrow> runs P (ia_na_sub t n b d)"
  "unat n \<le> length b \<Longrightarrow> runs P (ia_pd_sub t n b d)"
  unfolding ia_na_sub_def ia_pd_sub_def
  by (intro runs_intros; (simp add: runs_arith del: length_greater_0_conv)?)+

lemma decode_dhcpv6_ia_safe:
  assumes "unat len \<le> length buf"
  shows "runs P (decode_dhcpv6_ia_na buf len d)" "runs P (decode_dhcpv6_ia_pd buf len d)"
proof -
  have na: "runs P (tlv_loop ia_na_sub b l d)" "runs P (tlv_loop ia_pd_sub b l d)" if "unat l \<le> length b" for b l d
    by (rule tlv_loop_safe [OF _ that, of "length b"]; simp add: ia_sub_safe)+
  show "runs P (decode_dhcpv6_ia_na buf len d)" "runs P (decode_dhcpv6_ia_pd buf len d)"
    unfolding decode_dhcpv6_ia_na_def decode_dhcpv6_ia_pd_def
    using assms by (intro runs_intros na; (simp add: runs_arith del: length_greater_0_conv)?)+
qed

lemma dhcpv6_option_safe: "unat n \<le> length b \<Longrightarrow> runs P (dhcpv6_option t n b s)"
  unfolding dhcpv6_option_def Let_def
  by (intro runs_Some runs_if runs_reads runs_bind runs_case_option runs_case_sum decode_dhcpv6_ia_safe;
      (simp add: runs_arith del: length_greater_0_conv)?)

lemma dhcpv6_options_safe: "unat len \<le> length buf \<Longrightarrow> runs P (tlv_loop dhcpv6_option buf len s)"
  by (rule tlv_loop_safe [of "length buf"]; simp add: dhcpv6_option_safe)

lemma decode_dhcpv6_msg_safe: "unat len \<le> length buf \<Longrightarrow> runs P (decode_dhcpv6_msg relay buf len sp_len)"
  unfolding decode_dhcpv6_msg_def Let_def
  by (intro runs_intros dhcpv6_options_safe; (simp add: runs_arith del: length_greater_0_conv)?)

lemma decode_dhcpv6_msg_bounds:
  assumes "unat len \<le> length buf" "decode_dhcpv6_msg relay buf len sp_len = Some (Inr s)" "ds_relay_msg s = Some (b, l)"
  shows "unat l \<le> length b"
proof -
  let ?P = "\<lambda>s. case ds_relay_msg s of None \<Rightarrow> True | Some (b, l) \<Rightarrow> unat l \<le> length b"
  have step: "?P s'" if "True \<longrightarrow> unat n \<le> length b" "dhcpv6_option t n b s = Some (Inr s')" "?P s" for t n b s s'
    using dhcpv6_option_keeps(3) [OF that(2)] that(1,3) by auto
  have "?P s'" if "tlv_loop dhcpv6_option b l x = Some (Inr s')" "?P x" "unat l \<le> length b" for b l x s'
    by (rule tlv_loop_preserves [where P = ?P and ok = True, OF step that(1,2)]) (use that(3) in auto)
  then have "?P s"
    using assms(1,2) by (auto simp: decode_dhcpv6_msg_def Let_def runs_arith split: if_splits bind_splits)
  then show ?thesis using assms(3) by simp
qed

lemma decode_dhcpv6_safe: "unat len \<le> length buf \<Longrightarrow> runs P (decode_dhcpv6 relay buf len sp_len)"
proof (induction relay buf len sp_len rule: decode_dhcpv6.induct)
  case (1 relay buf len sp_len)
  have "decode_dhcpv6_msg relay buf len sp_len \<noteq> None"
    using decode_dhcpv6_msg_safe [OF 1(2), of False] by (simp add: runs_False)
  then show ?case
    using 1 decode_dhcpv6_msg_bounds [OF 1(2)]
    by (subst decode_dhcpv6.simps) (auto simp: runs_def split: option.splits sum.splits)
qed

lemma decode_dhcpv6_msg_type:
  assumes "decode_dhcpv6_msg relay buf len sp_len = Some (Inr s)"
  shows "relay \<Longrightarrow> \<not> is_relay (d6_type (ds_dhcpv6 s))" "ds_relay_msg s \<noteq> None \<Longrightarrow> is_relay (d6_type (ds_dhcpv6 s))"
proof -
  let ?P = "\<lambda>s. (relay \<longrightarrow> \<not> is_relay (d6_type (ds_dhcpv6 s))) \<and> (ds_relay_msg s \<noteq> None \<longrightarrow> is_relay (d6_type (ds_dhcpv6 s)))"
  have step: "?P s'" if "dhcpv6_option t n b s = Some (Inr s')" "?P s" for t n b s s'
    using dhcpv6_option_keeps(1,2) [OF that(1)] that(2) by (cases "is_relay (d6_type (ds_dhcpv6 s))") simp_all
  then have "?P s \<Longrightarrow> gives ?P (dhcpv6_option t n b s)" for t n b s by (auto simp: gives_def)
  then have "gives ?P (decode_dhcpv6_msg relay buf len sp_len)"
    unfolding decode_dhcpv6_msg_def Let_def by (intro gives_intros gives_tlv_loop) simp_all
  then show "relay \<Longrightarrow> \<not> is_relay (d6_type (ds_dhcpv6 s))" "ds_relay_msg s \<noteq> None \<Longrightarrow> is_relay (d6_type (ds_dhcpv6 s))"
    using assms by (simp_all add: gives_def)
qed

lemma decode_dhcpv6_cases:
  assumes "decode_dhcpv6 relay buf len sp_len = Some (Inr ms)"
  obtains (message) s where "decode_dhcpv6_msg relay buf len sp_len = Some (Inr s)" "ds_relay_msg s = None" "ms = [ds_dhcpv6 s]"
  | (relay) s b l r where "decode_dhcpv6_msg relay buf len sp_len = Some (Inr s)" "ds_relay_msg s = Some (b, l)"
      "decode_dhcpv6 True b l (ds_sp_len s) = Some (Inr r)" "ms = ds_dhcpv6 s # r"
  using assms by (subst (asm) decode_dhcpv6.simps) (auto split: option.splits sum.splits)

lemma decode_dhcpv6_relayed:
  assumes "decode_dhcpv6 True buf len sp_len = Some (Inr ms)"
  shows "\<exists>m. ms = [m] \<and> \<not> is_relay (d6_type m)"
  using assms by (cases rule: decode_dhcpv6_cases) (auto dest: decode_dhcpv6_msg_relay decode_dhcpv6_msg_type(1))

lemma decode_dhcpv6_shape:
  assumes "decode_dhcpv6 False buf len sp_len = Some (Inr ms)"
  shows "length ms \<in> {1, 2} \<and> (length ms = 2 \<longrightarrow> is_relay (d6_type (hd ms)) \<and> \<not> is_relay (d6_type (last ms)))"
  using assms
proof (cases rule: decode_dhcpv6_cases)
  case (relay s b l r)
  then obtain m where "r = [m]" "\<not> is_relay (d6_type m)" using decode_dhcpv6_relayed by blast
  moreover have "is_relay (d6_type (ds_dhcpv6 s))" using decode_dhcpv6_msg_type(2) [OF relay(1)] relay(2) by simp
  ultimately show ?thesis using relay(4) by simp
qed simp

section \<open>DHCPv4 round trip\<close>

text \<open>The loop over options that are followed by the end option and \<open>k\<close> bytes of padding.\<close>

definition dhcp_run :: "u16 \<Rightarrow> nat \<Rightarrow> u8 list \<Rightarrow> u8 list \<Rightarrow> bbl_dhcp \<Rightarrow> bbl_dhcp decoded" where
  "dhcp_run sp k pad bs d = dhcp_loop sp (bs @ 255 # replicate k 0 @ pad) (of_nat (length bs + Suc k)) d"

lemma dhcp_loop_stop: "len < 2 \<Longrightarrow> dhcp_loop sp buf len d = Some (Inr d)"
  by (simp add: dhcp_loop.simps)

lemma dhcp_run_Nil: "k \<le> 7 \<Longrightarrow> dhcp_run sp k pad [] d = Some (Inr d)"
proof (cases k)
  case (Suc j)
  assume "k \<le> 7"
  define len :: u16 where "len = of_nat (Suc k)"
  have u: "unat len = j + 2" unfolding len_def using \<open>k \<le> 7\<close> Suc by (subst unat_of_nat_small) simp_all
  then have l: "\<not> len < 2" "unat (len - 2) = j" by (simp_all add: word_less_nat_alt unat_sub_le word_le_nat_alt)
  have "unat (ucast (len - 2) :: u8) = j" using l(2) Suc \<open>k \<le> 7\<close> by (simp add: unsigned_ucast_eq take_bit_eq_mod)
  then have "len - 2 - ucast (ucast (len - 2) :: u8) = 0" using l(2) by (simp add: word_unat_eq_iff unat_sub_le word_le_nat_alt)
  then have "dhcp_loop sp (255 # replicate k 0 @ pad) len d = Some (Inr d)"
    using Suc l(1) by (subst dhcp_loop.simps) (simp add: dhcp_loop_stop Let_def)
  then show ?thesis by (simp add: dhcp_run_def len_def)
qed (simp add: dhcp_run_def dhcp_loop_stop)

lemma dhcp_run_option:
  assumes "length data + length rest < 60000" "unat n = length data" "t \<notin> {0, 255}" "k \<le> 7"
  shows "dhcp_run sp k pad (t # n # data @ rest) d =
    (case dhcp_option sp t n (data @ rest @ 255 # replicate k 0 @ pad) d of
       None \<Rightarrow> None | Some (Inl e) \<Rightarrow> Some (Inl e) | Some (Inr d) \<Rightarrow> dhcp_run sp k pad rest d)"
proof -
  define len :: u16 where "len = of_nat (length data + length rest + 3 + k)"
  have u: "unat len = length data + length rest + 3 + k"
    unfolding len_def using assms(1,4) by (intro unat_of_nat_small) simp
  then have l: "\<not> len < 2" "unat (len - 2) = length data + length rest + 1 + k"
    by (simp_all add: word_less_nat_alt unat_sub_le word_le_nat_alt)
  then have "\<not> ucast n > len - 2" using assms(2) by (simp add: word_less_nat_alt)
  moreover have "(ucast n :: u16) = of_nat (length data)" using assms(2) by (metis of_nat_unat)
  moreover define left :: u16 where "left = of_nat (length rest + Suc k)"
  ultimately have "len - 2 - ucast n = left" "\<not> ucast n > len - 2" by (simp_all add: len_def)
  moreover have "drop (unat n) (data @ rest @ 255 # replicate k 0 @ pad) = rest @ 255 # replicate k 0 @ pad" using assms(2) by simp
  ultimately have "dhcp_loop sp (t # n # data @ rest @ 255 # replicate k 0 @ pad) len d =
    (case dhcp_option sp t n (data @ rest @ 255 # replicate k 0 @ pad) d of
       None \<Rightarrow> None | Some (Inl e) \<Rightarrow> Some (Inl e) | Some (Inr d) \<Rightarrow> dhcp_loop sp (rest @ 255 # replicate k 0 @ pad) left d)"
    using l(1) assms(3) by (subst dhcp_loop.simps) (simp split: option.split sum.split)
  moreover have "(of_nat (length (t # n # data @ rest) + Suc k) :: u16) = len" by (simp add: len_def)
  ultimately show ?thesis by (simp only: dhcp_run_def left_def append_Cons append_assoc)
qed

text \<open>Single options.\<close>

lemma dhcp_run_values:
  assumes "length rest < 50000" "k \<le> 7"
  shows "dhcp_run sp k pad (53 # 1 # v # rest) d = dhcp_run sp k pad rest (d\<lparr>dhcp_type := v\<rparr>)"
    "dhcp_run sp k pad (54 # 4 # w_ne32 x @ rest) d =
       dhcp_run sp k pad rest (d\<lparr>dhcp_server_identifier := x, dhcp_option_server_identifier := True\<rparr>)"
    "dhcp_run sp k pad (3 # 4 # w_ne32 x @ rest) d = dhcp_run sp k pad rest (d\<lparr>dhcp_router := x, dhcp_option_router := True\<rparr>)"
    "dhcp_run sp k pad (51 # 4 # w_be32 x @ rest) d =
       dhcp_run sp k pad rest (d\<lparr>dhcp_lease_time := x, dhcp_option_lease_time := True\<rparr>)"
  using assms dhcp_run_option [of "[v]" rest 1 53 k sp pad d] dhcp_run_option [of "w_ne32 x" rest 4 54 k sp pad d]
    dhcp_run_option [of "w_ne32 x" rest 4 3 k sp pad d] dhcp_run_option [of "w_be32 x" rest 4 51 k sp pad d]
  by (simp_all add: dhcp_option_def)

lemma dhcp_run_client_id:
  assumes "length data \<le> 255" "unat n = length data" "length rest < 50000" "k \<le> 7"
  shows "dhcp_run sp k pad (61 # n # data @ rest) d =
    dhcp_run sp k pad rest (d\<lparr>dhcp_client_identifier := Some data, dhcp_client_identifier_len := n\<rparr>)"
  using assms by (subst dhcp_run_option) (simp_all add: dhcp_option_def ld_range_def)

lemma dhcp_run_skip:
  assumes "t \<in> {50, 55, 60}" "length data \<le> 255" "unat n = length data" "length rest < 50000" "k \<le> 7"
  shows "dhcp_run sp k pad (t # n # data @ rest) d = dhcp_run sp k pad rest d"
proof -
  have "dhcp_option sp t n b d = Some (Inr d)" for b using assms(1) by (auto simp: dhcp_option_def)
  then show ?thesis using dhcp_run_option [of data rest n t k sp pad d] assms by auto
qed

definition wire_agent :: "access_line \<Rightarrow> access_line" where
  "wire_agent al = zero_access_line\<lparr>al_aci := map_option (\<lambda>s. take (strnlen s 255) s) (al_aci al),
     al_ari := map_option (\<lambda>s. take (strnlen s 255) s) (al_ari al)\<rparr>"

lemma strnlen_pos: "0 < N \<Longrightarrow> 0 < strnlen s 128 \<Longrightarrow> 0 < strnlen s N"
  by (simp add: strnlen_def)

lemma agent_string:
  assumes "t \<in> {1, 2}" "wf_string ptr" "length rest < 60000" "256 \<le> unat sp"
    "t = 1 \<Longrightarrow> al_aci al = None" "t = 2 \<Longrightarrow> al_ari al = None"
  shows "\<exists>sp'. unat sp \<le> unat sp' + 256 \<and> sub_run (agent_sub False) pad (string_sub t 255 ptr @ rest) (al, sp) =
      sub_run (agent_sub False) pad rest
        (if t = 1 then al\<lparr>al_aci := map_option (\<lambda>s. take (strnlen s 255) s) ptr\<rparr>
         else al\<lparr>al_ari := map_option (\<lambda>s. take (strnlen s 255) s) ptr\<rparr>, sp')"
proof (cases ptr)
  case None
  have "al_aci al = None \<Longrightarrow> al\<lparr>al_aci := None\<rparr> = al" "al_ari al = None \<Longrightarrow> al\<lparr>al_ari := None\<rparr> = al"
    by (cases al; simp)+
  then have eq: "(if t = 1 then al\<lparr>al_aci := map_option f ptr\<rparr> else al\<lparr>al_ari := map_option g ptr\<rparr>) = al" for f g
    using None assms(1,5,6) by auto
  show ?thesis unfolding eq using None by (intro exI [of _ sp]) (simp add: string_sub_def)
next
  case (Some s)
  define n where "n = strnlen s 255"
  have n: "n \<le> 255" "n \<le> length s" using strnlen_le(1) [of s 255] strnlen_le(2) [of s 255] by (simp_all add: n_def)
  have p: "0 < strnlen s 255" using strnlen_pos [of 255 s] assms(2) Some by (simp add: wf_string_def)
  note r = sub_run_string(1) [OF _ p assms(3), of "agent_sub False" pad t "(al, sp)", folded n_def]
    sub_run_string(2,3) [OF _ p assms(3), folded n_def]
  have "unat (of_nat (n + 1) :: u16) = n + 1" by (rule unat_of_nat_small) (use n(1) in simp)
  then have u: "unat (of_nat n + 1 :: u16) = n + 1" by (simp only: of_nat_add of_nat_1)
  have u1: "unat (of_nat n :: u16) = n" using n(1) by (intro unat_of_nat_small) simp
  then have "of_nat n < sp" using n(1) assms(4) by (simp add: word_less_nat_alt)
  moreover have "unat sp \<le> unat (sp - (of_nat n + 1)) + 256"
    using u n(1) assms(4) by (subst unat_sub_le) (simp_all add: word_le_nat_alt)
  moreover have "agent_sub False t (of_nat n) (take n s @ rest @ pad) (al, sp) =
      Some (Inr (if t = 1 then al\<lparr>al_aci := map_option (\<lambda>s. take (strnlen s 255) s) ptr\<rparr>
         else al\<lparr>al_ari := map_option (\<lambda>s. take (strnlen s 255) s) ptr\<rparr>, sp - (of_nat n + 1)))"
    using assms(1) n(2) r(2,3) calculation(1) by (auto simp: agent_sub_def ld_range_def Some n_def [symmetric])
  ultimately show ?thesis
    unfolding Some by (intro exI [of _ "sp - (of_nat n + 1)"]) (simp add: r(1) split del: if_split)
qed

lemma agent_vendor_skip:
  "sub_run (agent_sub False) pad (encode_dhcp_access_line al) x = Some (Inr x)"
proof -
  define data where "data = rate_subs [(0x81, al_up al), (0x82, al_down al), (0x91, al_dsl_type al)]"
  have d: "length data \<le> 18" using length_rate_subs [of "[(0x81, al_up al), (0x82, al_down al), (0x91, al_dsl_type al)]"] by (simp add: data_def)
  define body where "body = w_be32 3561 @ [of_nat (length data)] @ data"
  have b: "length body = length data + 5" by (simp add: body_def)
  have u: "unat (of_nat (length data + 5) :: u8) = length body" unfolding b using d by (intro unat_of_nat_small) simp
  have "sub_run (agent_sub False) pad (9 # of_nat (length data + 5) # body @ []) x = sub_run (agent_sub False) pad [] x"
    using u b d by (subst sub_run_option) (auto simp: agent_sub_def split: prod.split)
  then show ?thesis
    by (simp add: encode_dhcp_access_line_def data_def [symmetric] Let_def body_def add.commute)
qed

lemma agent_data_run:
  assumes "wf_string (al_aci al)" "wf_string (al_ari al)" "512 \<le> unat sp"
    "length (string_sub 1 255 (al_aci al) @ string_sub 2 255 (al_ari al) @ encode_dhcp_access_line al) < 60000"
  shows "\<exists>sp'. sub_run (agent_sub False) pad
      (string_sub 1 255 (al_aci al) @ string_sub 2 255 (al_ari al) @ encode_dhcp_access_line al) (zero_access_line, sp) =
    Some (Inr (wire_agent al, sp'))"
proof -
  define E where "E = encode_dhcp_access_line al"
  have l: "length (string_sub 2 255 (al_ari al) @ E) < 60000" "length E < 60000" using assms(4) by (simp_all add: E_def)
  obtain sp1 where sp1: "unat sp \<le> unat sp1 + 256" "sub_run (agent_sub False) pad
      (string_sub 1 255 (al_aci al) @ string_sub 2 255 (al_ari al) @ E) (zero_access_line, sp) =
      sub_run (agent_sub False) pad (string_sub 2 255 (al_ari al) @ E)
        (zero_access_line\<lparr>al_aci := map_option (\<lambda>s. take (strnlen s 255) s) (al_aci al)\<rparr>, sp1)"
    using agent_string [of 1 "al_aci al" _ sp zero_access_line pad, OF _ assms(1) l(1)] assms(3) by (auto simp: zero_access_line_def)
  obtain sp2 where "sub_run (agent_sub False) pad (string_sub 2 255 (al_ari al) @ E)
        (zero_access_line\<lparr>al_aci := map_option (\<lambda>s. take (strnlen s 255) s) (al_aci al)\<rparr>, sp1) =
      sub_run (agent_sub False) pad E (wire_agent al, sp2)"
    using agent_string [of 2 "al_ari al" E sp1 "zero_access_line\<lparr>al_aci := map_option (\<lambda>s. take (strnlen s 255) s) (al_aci al)\<rparr>" pad,
        OF _ assms(2) l(2)] sp1(1) assms(3) by (auto simp: zero_access_line_def wire_agent_def)
  then show ?thesis using sp1(2) agent_vendor_skip by (simp add: E_def)
qed

lemma dhcp_run_agent:
  assumes "wf_string (al_aci al)" "wf_string (al_ari al)" "560 \<le> unat sp" "length (dhcp_agent_option al) \<le> 257"
    "dhcp_access_line d = None" "length rest < 50000" "k \<le> 7"
  shows "dhcp_run sp k pad (dhcp_agent_option al @ rest) d = dhcp_run sp k pad rest (d\<lparr>dhcp_access_line := Some (wire_agent al)\<rparr>)"
proof -
  define data where "data = string_sub 1 255 (al_aci al) @ string_sub 2 255 (al_ari al) @ encode_dhcp_access_line al"
  have o: "dhcp_agent_option al = 82 # of_nat (length data) # data" by (simp add: dhcp_agent_option_def data_def)
  then have l: "length data \<le> 255" using assms(4) by simp
  then have u: "unat (of_nat (length data) :: u8) = length data" by (intro unat_of_nat_small) simp
  then have c: "(ucast (of_nat (length data) :: u8) :: u16) = of_nat (length data)" by (metis of_nat_unat)
  have "512 \<le> unat (sp - 48)" using assms(3) by (simp add: unat_sub_le word_le_nat_alt)
  then obtain sp' where "sub_run (agent_sub False) (rest @ 255 # replicate k 0 @ pad) data (zero_access_line, sp - 48) =
      Some (Inr (wire_agent al, sp'))"
    using agent_data_run [OF assms(1,2), of "sp - 48" "rest @ 255 # replicate k 0 @ pad"] l by (auto simp: data_def)
  then have "decode_dhcp_agent (data @ rest @ 255 # replicate k 0 @ pad) (of_nat (length data)) sp d =
      Some (Inr (d\<lparr>dhcp_access_line := Some (wire_agent al)\<rparr>))"
    using assms(3,5) by (simp add: decode_dhcp_agent_def sub_run_def word_less_nat_alt)
  then show ?thesis
    using dhcp_run_option [of data rest "of_nat (length data)" 82 k sp pad d] u l assms(6,7) c
    by (simp add: o dhcp_option_def)
qed

text \<open>What the decoder brings back: options that are not set, or whose value is zero, are not sent.\<close>

definition wire_dhcp :: "bbl_dhcp \<Rightarrow> bbl_dhcp" where
  "wire_dhcp d = zero_dhcp\<lparr>dhcp_header := dhcp_header d, dhcp_type := dhcp_type d,
     dhcp_client_identifier := dhcp_client_identifier d,
     dhcp_client_identifier_len := if dhcp_client_identifier d = None then 0 else dhcp_client_identifier_len d,
     dhcp_server_identifier := if dhcp_option_server_identifier d then dhcp_server_identifier d else 0,
     dhcp_option_server_identifier := dhcp_option_server_identifier d,
     dhcp_router := if dhcp_option_router d then dhcp_router d else 0,
     dhcp_option_router := dhcp_option_router d \<and> dhcp_router d \<noteq> 0,
     dhcp_lease_time := if dhcp_option_lease_time d then dhcp_lease_time d else 0,
     dhcp_option_lease_time := dhcp_option_lease_time d \<and> dhcp_lease_time d \<noteq> 0,
     dhcp_access_line := map_option wire_agent (dhcp_access_line d)\<rparr>"

definition wf_dhcp :: "bbl_dhcp \<Rightarrow> bool" where
  "wf_dhcp d \<longleftrightarrow>
     (\<exists>h. dhcp_header d = Some h \<and> length h = 236) \<and>
     (case dhcp_client_identifier d of None \<Rightarrow> True | Some c \<Rightarrow> unat (dhcp_client_identifier_len d) = length c) \<and>
     (case dhcp_access_line d of None \<Rightarrow> True
      | Some al \<Rightarrow> wf_string (al_aci al) \<and> wf_string (al_ari al) \<and> length (dhcp_agent_option al) \<le> 257)"

lemma dhcp_run_optional:
  assumes "length rest < 50000" "k \<le> 7"
  shows "dhcp_run sp k pad ((if dhcp_parameter_request_list e then dhcp_request_list e else []) @ rest) d = dhcp_run sp k pad rest d"
    "dhcp_run sp k pad ((if b then [50, 4] @ w_ne32 x else []) @ rest) d = dhcp_run sp k pad rest d"
    "dhcp_run sp k pad (string_sub 60 255 ptr @ rest) d = dhcp_run sp k pad rest d"
proof -
  define data where "data = (if dhcp_option_netmask e then [1] else []) @ (if dhcp_option_router e then [3] else []) @
                 (if dhcp_option_dns1 e \<or> dhcp_option_dns2 e then [6] else []) @
                 (if dhcp_option_domain_name e then [15 :: u8] else [])"
  have "length data \<le> 4" by (simp add: data_def)
  moreover from this have "unat (of_nat (length data) :: u8) = length data" by (intro unat_of_nat_small) simp
  moreover have "dhcp_request_list e = 55 # of_nat (length data) # data" by (simp add: dhcp_request_list_def data_def)
  ultimately show "dhcp_run sp k pad ((if dhcp_parameter_request_list e then dhcp_request_list e else []) @ rest) d = dhcp_run sp k pad rest d"
    using assms dhcp_run_skip [of 55 data "of_nat (length data)" rest k sp pad d] by simp
  show "dhcp_run sp k pad ((if b then [50, 4] @ w_ne32 x else []) @ rest) d = dhcp_run sp k pad rest d"
    using assms dhcp_run_skip [of 50 "w_ne32 x" 4 rest k sp pad d] by simp
  show "dhcp_run sp k pad (string_sub 60 255 ptr @ rest) d = dhcp_run sp k pad rest d"
  proof (cases ptr)
    case (Some s)
    define n where "n = strnlen s 255"
    have n: "n \<le> 255" "n \<le> length s" using strnlen_le(1) [of s 255] strnlen_le(2) [of s 255] by (simp_all add: n_def)
    then have "unat (of_nat n :: u8) = n" by (intro unat_of_nat_small) simp
    then show ?thesis
      using n assms dhcp_run_skip [of 60 "take n s" "of_nat n" rest k sp pad d] by (simp add: string_sub_def Some n_def [symmetric] Let_def)
  qed (simp add: string_sub_def)
qed

lemma dhcp_run_flags:
  assumes "length rest < 50000" "k \<le> 7"
  shows "d\<lparr>dhcp_server_identifier := 0, dhcp_option_server_identifier := False\<rparr> = d \<Longrightarrow>
      dhcp_run sp k pad ((if b then [54, 4] @ w_ne32 x else []) @ rest) d =
      dhcp_run sp k pad rest (d\<lparr>dhcp_server_identifier := if b then x else 0, dhcp_option_server_identifier := b\<rparr>)"
    "d\<lparr>dhcp_router := 0, dhcp_option_router := False\<rparr> = d \<Longrightarrow>
      dhcp_run sp k pad ((if b \<and> x \<noteq> 0 then [3, 4] @ w_ne32 x else []) @ rest) d =
      dhcp_run sp k pad rest (d\<lparr>dhcp_router := if b then x else 0, dhcp_option_router := b \<and> x \<noteq> 0\<rparr>)"
    "d\<lparr>dhcp_lease_time := 0, dhcp_option_lease_time := False\<rparr> = d \<Longrightarrow>
      dhcp_run sp k pad ((if b \<and> x \<noteq> 0 then [51, 4] @ w_be32 x else []) @ rest) d =
      dhcp_run sp k pad rest (d\<lparr>dhcp_lease_time := if b then x else 0, dhcp_option_lease_time := b \<and> x \<noteq> 0\<rparr>)"
proof -
  note v = dhcp_run_values [OF assms]
  show "d\<lparr>dhcp_server_identifier := 0, dhcp_option_server_identifier := False\<rparr> = d \<Longrightarrow>
      dhcp_run sp k pad ((if b then [54, 4] @ w_ne32 x else []) @ rest) d =
      dhcp_run sp k pad rest (d\<lparr>dhcp_server_identifier := if b then x else 0, dhcp_option_server_identifier := b\<rparr>)"
    by (cases b) (simp_all only: if_True if_False append_Nil append_Cons v)
  show "d\<lparr>dhcp_router := 0, dhcp_option_router := False\<rparr> = d \<Longrightarrow>
      dhcp_run sp k pad ((if b \<and> x \<noteq> 0 then [3, 4] @ w_ne32 x else []) @ rest) d =
      dhcp_run sp k pad rest (d\<lparr>dhcp_router := if b then x else 0, dhcp_option_router := b \<and> x \<noteq> 0\<rparr>)"
    by (cases b; cases "x = 0") (simp_all only: if_True if_False append_Nil append_Cons v simp_thms if_cancel)
  show "d\<lparr>dhcp_lease_time := 0, dhcp_option_lease_time := False\<rparr> = d \<Longrightarrow>
      dhcp_run sp k pad ((if b \<and> x \<noteq> 0 then [51, 4] @ w_be32 x else []) @ rest) d =
      dhcp_run sp k pad rest (d\<lparr>dhcp_lease_time := if b then x else 0, dhcp_option_lease_time := b \<and> x \<noteq> 0\<rparr>)"
    by (cases b; cases "x = 0") (simp_all only: if_True if_False append_Nil append_Cons v simp_thms if_cancel)
qed

definition dhcp_line_option :: "bbl_dhcp \<Rightarrow> u8 list" where
  "dhcp_line_option d = (case dhcp_access_line d of None \<Rightarrow> [] | Some al \<Rightarrow> dhcp_agent_option al)"

definition dhcp_client_option :: "bbl_dhcp \<Rightarrow> u8 list" where
  "dhcp_client_option d =
     (case dhcp_client_identifier d of None \<Rightarrow> [] | Some c \<Rightarrow> [61, dhcp_client_identifier_len d] @ c)"

lemma dhcp_run_line:
  assumes "wf_dhcp d" "560 \<le> unat sp" "k \<le> 7" "dhcp_access_line x = None"
  shows "dhcp_run sp k pad (dhcp_line_option d) x = Some (Inr (x\<lparr>dhcp_access_line := map_option wire_agent (dhcp_access_line d)\<rparr>))"
proof (cases "dhcp_access_line d")
  case None
  have "x\<lparr>dhcp_access_line := None\<rparr> = x" using assms(4) by (cases x) simp
  then show ?thesis using None dhcp_run_Nil [OF assms(3)] by (simp add: dhcp_line_option_def)
next
  case (Some al)
  then show ?thesis
    using dhcp_run_agent [of al sp x "[]" k pad] assms dhcp_run_Nil [OF assms(3)] by (auto simp: dhcp_line_option_def wf_dhcp_def)
qed

lemma dhcp_run_client:
  assumes "wf_dhcp d" "length rest < 50000" "k \<le> 7" "dhcp_client_identifier x = None" "dhcp_client_identifier_len x = 0"
  shows "dhcp_run sp k pad (dhcp_client_option d @ rest) x = dhcp_run sp k pad rest (x\<lparr>dhcp_client_identifier := dhcp_client_identifier d,
    dhcp_client_identifier_len := if dhcp_client_identifier d = None then 0 else dhcp_client_identifier_len d\<rparr>)"
proof (cases "dhcp_client_identifier d")
  case None
  have "x\<lparr>dhcp_client_identifier := None, dhcp_client_identifier_len := 0\<rparr> = x" using assms(4,5) by (cases x) simp
  then show ?thesis using None by (simp add: dhcp_client_option_def)
next
  case (Some c)
  then have "unat (dhcp_client_identifier_len d) = length c" using assms(1) by (simp add: wf_dhcp_def)
  moreover from this have "length c \<le> 255" using unat_u8_less [of "dhcp_client_identifier_len d"] by simp
  ultimately show ?thesis
    using dhcp_run_client_id [of c "dhcp_client_identifier_len d" rest k sp pad x] assms(2,3) Some by (simp add: dhcp_client_option_def)
qed

lemma dhcp_options_run:
  assumes "wf_dhcp d" "560 \<le> unat sp" "k \<le> 7"
  shows "\<exists>P. dhcp_options d = Some (P @ [255]) \<and> length P \<le> 1003 \<and>
    dhcp_run sp k pad P (zero_dhcp\<lparr>dhcp_header := dhcp_header d\<rparr>) = Some (Inr (wire_dhcp d))"
proof -
  note k = assms(3)
  define A where "A = dhcp_line_option d"
  have A: "length A \<le> 257" using assms(1) by (auto simp: A_def dhcp_line_option_def wf_dhcp_def split: option.splits)
  define V where "V = string_sub 60 255 (dhcp_vendor_class_id d) @ A"
  define L where "L = (if dhcp_option_lease_time d \<and> dhcp_lease_time d \<noteq> 0 then [51, 4] @ w_be32 (dhcp_lease_time d) else []) @ V"
  define R where "R = (if dhcp_option_router d \<and> dhcp_router d \<noteq> 0 then [3, 4] @ w_ne32 (dhcp_router d) else []) @ L"
  define Q where "Q = (if dhcp_option_address d \<and> dhcp_address d \<noteq> 0 then [50, 4] @ w_ne32 (dhcp_address d) else []) @ R"
  define S where "S = (if dhcp_option_server_identifier d then [54, 4] @ w_ne32 (dhcp_server_identifier d) else []) @ Q"
  define P where "P = (if dhcp_parameter_request_list d then dhcp_request_list d else []) @ dhcp_client_option d @ S"
  have l: "length A < 50000" "length V < 50000" "length L < 50000" "length R < 50000" "length Q < 50000" "length S \<le> 700"
    using A length_string_sub [of 60 255 "dhcp_vendor_class_id d"] by (simp_all add: V_def L_def R_def Q_def S_def)
  have "length (dhcp_client_option d) \<le> 257" using assms(1) unat_u8_less [of "dhcp_client_identifier_len d"]
    by (auto simp: dhcp_client_option_def wf_dhcp_def split: option.splits)
  then have P: "length (dhcp_client_option d @ S) < 50000" "length P \<le> 1000"
    using l(6) by (auto simp: P_def dhcp_request_list_def Let_def)
  have opts: "dhcp_options d = Some ((53 # 1 # dhcp_type d # P) @ [255])"
    using assms(1) by (auto simp: dhcp_options_def wf_dhcp_def P_def S_def Q_def R_def L_def V_def A_def dhcp_line_option_def
        dhcp_client_option_def ld_range_def split: option.splits)
  let ?run = "dhcp_run sp k pad"
  define z where "z = zero_dhcp\<lparr>dhcp_header := dhcp_header d\<rparr>"
  have "?run (53 # 1 # dhcp_type d # P) z = ?run (dhcp_client_option d @ S) (z\<lparr>dhcp_type := dhcp_type d\<rparr>)"
    using dhcp_run_values(1) [of P k sp pad "dhcp_type d" z] dhcp_run_optional(1) [OF P(1) k] P(2) k by (simp add: P_def)
  also define y where "y = z\<lparr>dhcp_type := dhcp_type d, dhcp_client_identifier := dhcp_client_identifier d,
      dhcp_client_identifier_len := if dhcp_client_identifier d = None then 0 else dhcp_client_identifier_len d\<rparr>"
  have "?run (dhcp_client_option d @ S) (z\<lparr>dhcp_type := dhcp_type d\<rparr>) = ?run S y"
    unfolding y_def using l(6) k by (subst dhcp_run_client [OF assms(1)]) (simp_all add: z_def zero_dhcp_def)
  also define y1 where "y1 = y\<lparr>dhcp_server_identifier := if dhcp_option_server_identifier d then dhcp_server_identifier d else 0,
      dhcp_option_server_identifier := dhcp_option_server_identifier d\<rparr>"
  have "?run S y = ?run Q y1"
    unfolding S_def y1_def by (rule dhcp_run_flags(1) [OF l(5) k]) (simp add: y_def z_def zero_dhcp_def)
  also have "?run Q y1 = ?run R y1"
    unfolding Q_def by (rule dhcp_run_optional(2) [OF l(4) k])
  also define y2 where "y2 = y1\<lparr>dhcp_router := if dhcp_option_router d then dhcp_router d else 0,
      dhcp_option_router := dhcp_option_router d \<and> dhcp_router d \<noteq> 0\<rparr>"
  have "?run R y1 = ?run L y2"
    unfolding R_def y2_def by (rule dhcp_run_flags(2) [OF l(3) k]) (simp add: y1_def y_def z_def zero_dhcp_def)
  also define y3 where "y3 = y2\<lparr>dhcp_lease_time := if dhcp_option_lease_time d then dhcp_lease_time d else 0,
      dhcp_option_lease_time := dhcp_option_lease_time d \<and> dhcp_lease_time d \<noteq> 0\<rparr>"
  have "?run L y2 = ?run V y3"
    unfolding L_def y3_def by (rule dhcp_run_flags(3) [OF l(2) k]) (simp add: y2_def y1_def y_def z_def zero_dhcp_def)
  also have "?run V y3 = ?run A y3"
    unfolding V_def by (rule dhcp_run_optional(3) [OF l(1) k])
  also have "\<dots> = Some (Inr (y3\<lparr>dhcp_access_line := map_option wire_agent (dhcp_access_line d)\<rparr>))"
    unfolding A_def by (rule dhcp_run_line [OF assms]) (simp add: y3_def y2_def y1_def y_def z_def zero_dhcp_def)
  also have "y3\<lparr>dhcp_access_line := map_option wire_agent (dhcp_access_line d)\<rparr> = wire_dhcp d"
    by (simp add: wire_dhcp_def y3_def y2_def y1_def y_def z_def zero_dhcp_def)
  finally have "?run (53 # 1 # dhcp_type d # P) z = Some (Inr (wire_dhcp d))" .
  then show ?thesis using opts P(2) by (intro exI [of _ "53 # 1 # dhcp_type d # P"]) (simp add: z_def)
qed

lemma pad8: "(m + (8 - m mod 8) mod 8) mod 8 = (0 :: nat)"
proof -
  have "m mod 8 < 8" by simp
  then have "(m mod 8 + (8 - m mod 8)) mod 8 = 0" by simp
  then show ?thesis by (metis mod_add_left_eq mod_add_right_eq)
qed

text \<open>
  C33. A DHCPv4 message is encoded to a multiple of eight bytes counted from the start of the packet,
  and decoding it gives header, message type, client and server identifier, router, lease time and
  the strings of the access line back, as far as the encoder sends them: the requested address, the
  vendor class and the parameter request list are skipped by the decoder.
\<close>

theorem dhcp_round_trip:
  assumes "wf_dhcp d" "688 \<le> unat sp_len"
  shows "\<exists>bs. encode_dhcp pos d = Some (Inr bs) \<and> length bs < 10000 \<and>
    (unat pos + length bs) mod 8 = 0 \<and>
    (\<forall>pad. decode_dhcp (bs @ pad) (of_nat (length bs)) sp_len = Some (Inr (wire_dhcp d)))"
proof -
  obtain h where h: "dhcp_header d = Some h" "length h = 236" using assms(1) by (auto simp: wf_dhcp_def)
  define sp where "sp = sp_len - 128"
  have sp: "560 \<le> unat sp" "\<not> sp_len < 128" using assms(2) by (simp_all add: sp_def unat_sub_le word_le_nat_alt word_less_nat_alt)
  obtain P where P: "dhcp_options d = Some (P @ [255])" "length P \<le> 1003"
    using dhcp_options_run [OF assms(1) sp(1), of 0 "[]"] by blast
  define k where "k = (8 - (unat pos + length (h @ w_be32 0x63825363 @ P @ [255])) mod 65536 mod 8) mod 8"
  have k: "k \<le> 7" by (simp add: k_def less_Suc_eq_le [symmetric])
  define bs where "bs = h @ w_be32 0x63825363 @ P @ 255 # replicate k 0"
  have e: "encode_dhcp pos d = Some (Inr bs)"
    using h P(1) by (simp add: encode_dhcp_def ld_range_def Let_def k_def bs_def)
  have "decode_dhcp (bs @ pad) (of_nat (length bs)) sp_len = Some (Inr (wire_dhcp d))" for pad
  proof -
    have run: "dhcp_run sp k pad P (zero_dhcp\<lparr>dhcp_header := Some h\<rparr>) = Some (Inr (wire_dhcp d))"
      using dhcp_options_run [OF assms(1) sp(1) k, of pad] P(1) h(1) by simp
    have lb: "length bs = length P + 241 + k" using h(2) by (simp add: bs_def)
    then have u: "unat (of_nat (length bs) :: u16) = length P + 241 + k" using P(2) k by (subst unat_of_nat_small) simp_all
    then have "\<not> (of_nat (length bs) :: u16) < 240" by (simp add: word_less_nat_alt)
    moreover have "(of_nat (length bs) :: u16) - 236 - 4 = of_nat (length P + Suc k)" by (simp add: lb)
    ultimately show ?thesis
      using sp(2) h(2) run unfolding dhcp_run_def by (simp add: decode_dhcp_def bs_def ld_range_def sp_def Let_def)
  qed
  moreover have "(unat pos + length bs) mod 8 = 0"
  proof -
    define m where "m = unat pos + length (h @ w_be32 0x63825363 @ P @ [255])"
    have "m mod 65536 mod 8 = m mod 8" by (rule mod_mod_cancel) simp
    then have "k = (8 - m mod 8) mod 8" unfolding k_def m_def [symmetric] by (simp only:)
    moreover have "unat pos + length bs = m + k" by (simp add: bs_def m_def)
    ultimately show ?thesis by (simp add: pad8)
  qed
  ultimately show ?thesis using e P(2) k h(2) by (auto simp: bs_def)
qed

definition example_request :: bbl_dhcp where
  "example_request = zero_dhcp\<lparr>dhcp_header := Some (replicate 236 0), dhcp_type := 3, dhcp_parameter_request_list := True,
     dhcp_option_server_identifier := True, dhcp_server_identifier := 0x0101a8c0,
     dhcp_access_line := Some (zero_access_line\<lparr>al_aci := Some [97, 49, 0]\<rparr>)\<rparr>"

theorem dhcp_round_trip_witness:
  "wf_dhcp example_request \<and> (\<exists>bs. encode_dhcp 28 example_request = Some (Inr bs) \<and>
     decode_dhcp bs (of_nat (length bs)) 4000 = Some (Inr (example_request\<lparr>dhcp_parameter_request_list := False,
       dhcp_access_line := Some (zero_access_line\<lparr>al_aci := Some [97, 49]\<rparr>)\<rparr>)))"
proof -
  have "wf_dhcp example_request"
    by (simp add: wf_dhcp_def example_request_def zero_dhcp_def zero_access_line_def wf_string_def strnlen_def
        dhcp_agent_option_def string_sub_def encode_dhcp_access_line_def rate_subs_def rate_sub_def Let_def)
  moreover from dhcp_round_trip [OF this, of 4000 28] obtain bs where
    "encode_dhcp 28 example_request = Some (Inr bs)"
    "\<And>pad. decode_dhcp (bs @ pad) (of_nat (length bs)) 4000 = Some (Inr (wire_dhcp example_request))"
    by auto
  moreover have "wire_dhcp example_request = example_request\<lparr>dhcp_parameter_request_list := False,
       dhcp_access_line := Some (zero_access_line\<lparr>al_aci := Some [97, 49]\<rparr>)\<rparr>"
    by (simp add: wire_dhcp_def example_request_def zero_dhcp_def wire_agent_def zero_access_line_def strnlen_def)
  ultimately show ?thesis by (metis append_Nil2)
qed

section \<open>DHCPv6 round trip\<close>

text \<open>
  The times of an identity association are written in host order and read in network order, so
  they arrive with their bytes swapped.
\<close>

lemma rd_be32_w_ne32 [simp]: "rd_be32 (w_ne32 x @ ys) = Some (bswap32 x)"
proof -
  have "push_bit 16 (ucast (push_bit 8 (ucast (ucast (ucast x :: u16) :: u8)) OR ucast (ucast (drop_bit 8 (ucast x :: u16)) :: u8) :: u16)) OR
      ucast (push_bit 8 (ucast (ucast (ucast (drop_bit 16 x) :: u16) :: u8)) OR
             ucast (ucast (drop_bit 8 (ucast (drop_bit 16 x) :: u16)) :: u8) :: u16) = bswap32 x"
    (is "?l = _")
  proof (rule bit_word_eqI)
    fix n assume "n < LENGTH(32)"
    then have "n < 8 \<and> n div 8 = 0 \<and> n mod 8 = n \<or> 8 \<le> n \<and> n < 16 \<and> n div 8 = 1 \<and> n mod 8 = n - 8 \<or>
        16 \<le> n \<and> n < 24 \<and> n div 8 = 2 \<and> n mod 8 = n - 16 \<or> 24 \<le> n \<and> n < 32 \<and> n div 8 = 3 \<and> n mod 8 = n - 24"
      by (simp, presburger)
    then show "bit ?l n \<longleftrightarrow> bit (bswap32 x) n"
      by (elim disjE conjE) (auto simp: bswap32_bit bit_simps add.commute)
  qed
  then show ?thesis by (simp add: rd_be32_def w_ne32_def w_ne16_def)
qed

lemmas rd_be32_w_ne32_end [simp] = rd_be32_w_ne32 [of _ "[]", simplified]

definition na_bytes :: "bbl_dhcpv6 \<Rightarrow> u8 list" where
  "na_bytes d = w_ne32 (d6_ia_na_iaid d) @ w_ne32 (d6_ia_na_t1 d) @ w_ne32 (d6_ia_na_t2 d) @
     (case d6_ia_na_address d of None \<Rightarrow> []
      | Some a \<Rightarrow> w_be16 5 @ w_be16 24 @ a @ w_ne32 (d6_ia_na_preferred_lifetime d) @ w_ne32 (d6_ia_na_valid_lifetime d))"

definition pd_bytes :: "bbl_dhcpv6 \<Rightarrow> u8 list" where
  "pd_bytes d = w_ne32 (d6_ia_pd_iaid d) @ w_ne32 (d6_ia_pd_t1 d) @ w_ne32 (d6_ia_pd_t2 d) @ w_be16 26 @ w_be16 25 @
     w_ne32 (d6_ia_pd_preferred_lifetime d) @ w_ne32 (d6_ia_pd_valid_lifetime d) @
     (case d6_ia_pd_prefix d of None \<Rightarrow> replicate 17 0 | Some p \<Rightarrow> p)"

definition take_na :: "bbl_dhcpv6 \<Rightarrow> bbl_dhcpv6 \<Rightarrow> bbl_dhcpv6" where
  "take_na d x = (if d6_ia_na_iaid d = 0 then x else
     let x = x\<lparr>d6_ia_na_option := Some (na_bytes d), d6_ia_na_option_len := of_nat (length (na_bytes d)),
               d6_ia_na_iaid := d6_ia_na_iaid d, d6_ia_na_t1 := bswap32 (d6_ia_na_t1 d), d6_ia_na_t2 := bswap32 (d6_ia_na_t2 d)\<rparr>
     in (case d6_ia_na_address d of None \<Rightarrow> x
         | Some a \<Rightarrow> x\<lparr>d6_ia_na_address := Some a,
             d6_ia_na_preferred_lifetime := bswap32 (d6_ia_na_preferred_lifetime d),
             d6_ia_na_valid_lifetime := bswap32 (d6_ia_na_valid_lifetime d)\<rparr>))"

definition take_pd :: "bbl_dhcpv6 \<Rightarrow> bbl_dhcpv6 \<Rightarrow> bbl_dhcpv6" where
  "take_pd d x = (if d6_ia_pd_iaid d = 0 then x else
     x\<lparr>d6_ia_pd_option := Some (pd_bytes d), d6_ia_pd_option_len := 41, d6_ia_pd_iaid := d6_ia_pd_iaid d,
       d6_ia_pd_t1 := bswap32 (d6_ia_pd_t1 d), d6_ia_pd_t2 := bswap32 (d6_ia_pd_t2 d),
       d6_ia_pd_preferred_lifetime := bswap32 (d6_ia_pd_preferred_lifetime d),
       d6_ia_pd_valid_lifetime := bswap32 (d6_ia_pd_valid_lifetime d),
       d6_ia_pd_prefix := Some (case d6_ia_pd_prefix d of None \<Rightarrow> replicate 17 0 | Some p \<Rightarrow> p)\<rparr>)"

lemma decode_ia_na:
  assumes "case d6_ia_na_address d of None \<Rightarrow> True | Some a \<Rightarrow> length a = 16" "d6_ia_na_iaid d \<noteq> 0"
  shows "decode_dhcpv6_ia_na (na_bytes d @ pad) (of_nat (length (na_bytes d))) x = Some (Inr (take_na d x))"
proof (cases "d6_ia_na_address d")
  case None
  then have "na_bytes d = w_ne32 (d6_ia_na_iaid d) @ w_ne32 (d6_ia_na_t1 d) @ w_ne32 (d6_ia_na_t2 d)"
    by (simp add: na_bytes_def)
  then show ?thesis
    using None assms(2) by (simp add: decode_dhcpv6_ia_na_def take_na_def Let_def tlv_loop_stop ld_range_def)
next
  case (Some a)
  define D where "D = a @ w_ne32 (d6_ia_na_preferred_lifetime d) @ w_ne32 (d6_ia_na_valid_lifetime d)"
  have D: "length D = 24" "length a = 16" using assms(1) Some by (simp_all add: D_def)
  have b: "na_bytes d = w_ne32 (d6_ia_na_iaid d) @ w_ne32 (d6_ia_na_t1 d) @ w_ne32 (d6_ia_na_t2 d) @ w_be16 5 @ w_be16 24 @ D"
    using Some by (simp add: na_bytes_def D_def)
  have "tlv_loop ia_na_sub (w_be16 5 @ w_be16 24 @ D @ pad) 28 y =
    Some (Inr (y\<lparr>d6_ia_na_address := Some a, d6_ia_na_preferred_lifetime := bswap32 (d6_ia_na_preferred_lifetime d),
             d6_ia_na_valid_lifetime := bswap32 (d6_ia_na_valid_lifetime d)\<rparr>))" for y
    using tlv_run_tlv [of D "[]" 24 ia_na_sub pad 5 y] D by (simp add: ia_na_sub_def tlv_run_def tlv_loop_stop D_def ld_range_def)
  then show ?thesis
    using Some assms(2) D by (simp add: decode_dhcpv6_ia_na_def take_na_def Let_def b ld_range_def)
qed

lemma decode_ia_pd:
  assumes "case d6_ia_pd_prefix d of None \<Rightarrow> True | Some p \<Rightarrow> length p = 17" "d6_ia_pd_iaid d \<noteq> 0"
  shows "decode_dhcpv6_ia_pd (pd_bytes d @ pad) 41 x = Some (Inr (take_pd d x))"
proof -
  define p where "p = (case d6_ia_pd_prefix d of None \<Rightarrow> replicate 17 0 | Some p \<Rightarrow> p)"
  define D where "D = w_ne32 (d6_ia_pd_preferred_lifetime d) @ w_ne32 (d6_ia_pd_valid_lifetime d) @ p"
  have D: "length D = 25" "length p = 17" using assms(1) by (simp_all add: D_def p_def split: option.splits)
  have b: "pd_bytes d = w_ne32 (d6_ia_pd_iaid d) @ w_ne32 (d6_ia_pd_t1 d) @ w_ne32 (d6_ia_pd_t2 d) @ w_be16 26 @ w_be16 25 @ D"
    by (simp add: pd_bytes_def D_def p_def)
  have "tlv_loop ia_pd_sub (w_be16 26 @ w_be16 25 @ D @ pad) 29 y =
    Some (Inr (y\<lparr>d6_ia_pd_preferred_lifetime := bswap32 (d6_ia_pd_preferred_lifetime d),
             d6_ia_pd_valid_lifetime := bswap32 (d6_ia_pd_valid_lifetime d), d6_ia_pd_prefix := Some p\<rparr>))" for y
    using tlv_run_tlv [of D "[]" 25 ia_pd_sub pad 26 y] D by (simp add: ia_pd_sub_def tlv_run_def tlv_loop_stop D_def ld_range_def)
  then show ?thesis
    using assms(2) D by (simp add: decode_dhcpv6_ia_pd_def take_pd_def b ld_range_def p_def [symmetric])
qed

definition counted_by :: "u8 list option \<Rightarrow> u8 \<Rightarrow> bool" where
  "counted_by ptr n \<longleftrightarrow> (case ptr of None \<Rightarrow> n = 0 | Some bs \<Rightarrow> length bs = unat n)"

definition wf_dhcpv6 :: "bbl_dhcpv6 \<Rightarrow> bool" where
  "wf_dhcpv6 d \<longleftrightarrow> \<not> is_relay (d6_type d) \<and> d6_xid d AND 0x00ffffff = d6_xid d \<and>
     counted_by (d6_client_duid d) (d6_client_duid_len d) \<and>
     counted_by (d6_server_duid d) (d6_server_duid_len d) \<and> d6_server_duid_len d \<noteq> 1 \<and>
     d6_ia_na_option_len d = 0 \<and> (case d6_ia_na_address d of None \<Rightarrow> True | Some a \<Rightarrow> length a = 16) \<and>
     d6_ia_pd_option_len d = 0 \<and> (case d6_ia_pd_prefix d of None \<Rightarrow> True | Some p \<Rightarrow> length p = 17) \<and>
     d6_interface_id d = None \<and> d6_access_line d = None"

text \<open>What the other side decodes.\<close>

definition wire_dhcpv6 :: "bbl_dhcpv6 \<Rightarrow> bbl_dhcpv6" where
  "wire_dhcpv6 d = take_pd d (take_na d
     (zero_dhcpv6\<lparr>d6_access_line := Some zero_access_line, d6_type := d6_type d, d6_xid := d6_xid d,
        d6_server_duid := if d6_server_duid_len d = 0 then None else d6_server_duid d,
        d6_server_duid_len := d6_server_duid_len d, d6_rapid := d6_rapid d\<rparr>))"

abbreviation (input) d6_run :: "u8 list \<Rightarrow> u8 list \<Rightarrow> u16 \<Rightarrow> bbl_dhcpv6 \<Rightarrow> dhcpv6_state decoded" where
  "d6_run pad bs sp d \<equiv> tlv_run dhcpv6_option pad bs \<lparr>ds_dhcpv6 = d, ds_sp_len = sp, ds_relay_msg = None\<rparr>"

lemma d6_run_skip:
  assumes "length data + length rest < 60000" "unat n = length data" "t \<notin> {14, 3, 25, 2, 23, 18, 37, 9}"
  shows "d6_run pad (w_be16 t @ w_be16 n @ data @ rest) sp x = d6_run pad rest sp x"
  using assms by (subst tlv_run_tlv) (simp_all add: dhcpv6_option_def)

lemma d6_run_client:
  assumes "counted_by ptr n" "length rest < 50000" "duid_opt 1 ptr n = Some bs"
  shows "d6_run pad (bs @ rest) sp x = d6_run pad rest sp x"
  using assms unat_u8_less [of n] d6_run_skip [of _ rest "ucast n" 1 pad x sp]
  by (auto simp: duid_opt_def counted_by_def ld_range_def split: if_splits option.splits)

lemma d6_run_server:
  assumes "counted_by ptr n" "n \<noteq> 1" "length rest < 50000" "duid_opt 2 ptr n = Some bs"
    and "d6_server_duid x = None" "d6_server_duid_len x = 0"
  shows "d6_run pad (bs @ rest) sp x =
    d6_run pad rest sp (x\<lparr>d6_server_duid := if n = 0 then None else ptr, d6_server_duid_len := n\<rparr>)"
proof (cases "n = 0")
  case True
  have "x\<lparr>d6_server_duid := None, d6_server_duid_len := 0\<rparr> = x" using assms(5,6) by (cases x) simp
  then show ?thesis using True assms(4) by (simp add: duid_opt_def)
next
  case False
  then obtain ds where d: "ptr = Some ds" "length ds = unat n" "bs = w_be16 2 @ w_be16 (ucast n) @ ds"
    using assms(1,4) by (auto simp: duid_opt_def counted_by_def ld_range_def split: if_splits option.splits)
  have "ucast (ucast n :: u16) = n" by (rule bit_word_eqI) (auto simp: bit_simps)
  moreover have "\<not> (ucast n :: u16) < 2" using False assms(2) by (simp add: word_less_nat_alt) (metis One_nat_def less_2_cases unat_eq_zero unsigned_1 word_unat_eq_iff)
  ultimately show ?thesis
    using d False assms(3) unat_u8_less [of n] tlv_run_tlv [of ds rest "ucast n" dhcpv6_option pad 2]
    by (simp add: dhcpv6_option_def Let_def ld_range_def)
qed

lemma d6_run_rapid:
  assumes "length rest < 50000" "\<not> d6_rapid x"
  shows "d6_run pad ((if r then w_be16 14 @ w_ne16 0 else []) @ rest) sp x = d6_run pad rest sp (x\<lparr>d6_rapid := r\<rparr>)"
proof (cases r)
  case True
  have "w_ne16 0 = w_be16 0" by (simp add: w_ne16_def w_be16_def)
  then show ?thesis
    using True assms tlv_run_tlv [of "[]" rest 0 dhcpv6_option pad 14] by (simp add: dhcpv6_option_def Let_def)
next
  case False
  then have "x\<lparr>d6_rapid := r\<rparr> = x" using assms(2) by (cases x) simp
  then show ?thesis using False by simp
qed

lemma d6_run_na:
  assumes "d6_ia_na_option_len d = 0" "case d6_ia_na_address d of None \<Rightarrow> True | Some a \<Rightarrow> length a = 16"
    and "length rest < 50000"
  shows "\<exists>bs. d6_ia_na d = Some bs \<and> length bs \<le> 44 \<and> (\<forall>pad sp x. d6_run pad (bs @ rest) sp x = d6_run pad rest sp (take_na d x))"
proof (cases "d6_ia_na_iaid d = 0")
  case True
  then show ?thesis using assms(1) by (simp add: d6_ia_na_def take_na_def)
next
  case False
  define n where "n = length (na_bytes d)"
  have n: "n = (if d6_ia_na_address d = None then 12 else 40)"
    using assms(2) by (simp add: n_def na_bytes_def split: option.splits)
  have "d6_ia_na d = Some (w_be16 3 @ w_be16 (of_nat n) @ na_bytes d)"
    using False assms(1,2) by (auto simp: d6_ia_na_def na_bytes_def n ld_range_def split: option.splits)
  moreover have "unat (of_nat n :: u16) = n" using n by (simp split: if_splits)
  then have "d6_run pad (w_be16 3 @ w_be16 (of_nat n) @ na_bytes d @ rest) sp x = d6_run pad rest sp (take_na d x)" for pad sp x
    using tlv_run_tlv [of "na_bytes d" rest "of_nat n" dhcpv6_option pad 3] decode_ia_na [OF assms(2) False, of "rest @ pad" x] assms(3) n
    by (simp add: n_def [symmetric] dhcpv6_option_def Let_def split: if_splits)
  ultimately show ?thesis using n by (auto simp: n_def)
qed

lemma d6_run_pd:
  assumes "d6_ia_pd_option_len d = 0" "case d6_ia_pd_prefix d of None \<Rightarrow> True | Some p \<Rightarrow> length p = 17"
    and "length rest < 50000"
  shows "\<exists>bs. d6_ia_pd d = Some bs \<and> length bs \<le> 45 \<and> (\<forall>pad sp x. d6_run pad (bs @ rest) sp x = d6_run pad rest sp (take_pd d x))"
proof (cases "d6_ia_pd_iaid d = 0")
  case True
  then show ?thesis using assms(1) by (simp add: d6_ia_pd_def take_pd_def)
next
  case False
  have n: "length (pd_bytes d) = 41" using assms(2) by (simp add: pd_bytes_def split: option.splits)
  have "d6_ia_pd d = Some (w_be16 25 @ w_be16 41 @ pd_bytes d)"
    using False assms(1,2) by (auto simp: d6_ia_pd_def pd_bytes_def ld_range_def split: option.splits)
  moreover have "d6_run pad (w_be16 25 @ w_be16 41 @ pd_bytes d @ rest) sp x = d6_run pad rest sp (take_pd d x)" for pad sp x
    using tlv_run_tlv [of "pd_bytes d" rest 41 dhcpv6_option pad 25] decode_ia_pd [OF assms(2) False, of "rest @ pad" x] assms(3) n
    by (simp add: dhcpv6_option_def Let_def)
  ultimately show ?thesis using n by auto
qed

lemma d6_options_run:
  assumes "wf_dhcpv6 d"
  shows "\<exists>opts. encode_dhcpv6 [d] = Some ((w_be32 (d6_xid d)) [0 := d6_type d] @ opts) \<and> 4 \<le> length opts \<and> length opts < 1000 \<and>
    (\<forall>pad sp x. d6_server_duid x = None \<and> d6_server_duid_len x = 0 \<and> \<not> d6_rapid x \<longrightarrow>
       d6_run pad opts sp x = Some (Inr \<lparr>ds_dhcpv6 = take_pd d (take_na d (x\<lparr>
         d6_server_duid := if d6_server_duid_len d = 0 then None else d6_server_duid d,
         d6_server_duid_len := d6_server_duid_len d, d6_rapid := d6_rapid d\<rparr>)), ds_sp_len = sp, ds_relay_msg = None\<rparr>))"
proof -
  define Q where "Q = (if d6_oro d then w_be16 6 @ w_be16 2 @ w_be16 23 else [])"
  have wf: "counted_by (d6_client_duid d) (d6_client_duid_len d)" "counted_by (d6_server_duid d) (d6_server_duid_len d)"
    "d6_server_duid_len d \<noteq> 1" "d6_ia_na_option_len d = 0" "d6_ia_pd_option_len d = 0"
    "case d6_ia_na_address d of None \<Rightarrow> True | Some a \<Rightarrow> length a = 16"
    "case d6_ia_pd_prefix d of None \<Rightarrow> True | Some p \<Rightarrow> length p = 17"
    using assms by (simp_all add: wf_dhcpv6_def)
  have duid: "\<exists>bs. duid_opt t ptr n = Some bs \<and> length bs \<le> 259" if "counted_by ptr n" for t ptr n
    using that unat_u8_less [of n] by (auto simp: counted_by_def duid_opt_def ld_range_def split: option.splits)
  have Q: "d6_run pad Q sp x = Some (Inr \<lparr>ds_dhcpv6 = x, ds_sp_len = sp, ds_relay_msg = None\<rparr>)" "length Q \<le> 6" for pad sp x
    using d6_run_skip [of "w_be16 23" "[]" 2 6 pad x sp] by (simp_all add: Q_def)
  obtain pd where pd: "d6_ia_pd d = Some pd" "length pd \<le> 45"
    "\<And>pad sp x. d6_run pad (pd @ Q) sp x = d6_run pad Q sp (take_pd d x)"
    using d6_run_pd [OF wf(5,7), of Q] Q(2) by fastforce
  obtain na where na: "d6_ia_na d = Some na" "length na \<le> 44"
    "\<And>pad sp x. d6_run pad (na @ pd @ Q) sp x = d6_run pad (pd @ Q) sp (take_na d x)"
    using d6_run_na [OF wf(4,6), of "pd @ Q"] Q(2) pd(2) by fastforce
  define R where "R = (if d6_rapid d then w_be16 14 @ w_ne16 0 else []) @ na @ pd @ Q"
  obtain cl where cl: "duid_opt 1 (d6_client_duid d) (d6_client_duid_len d) = Some cl" "length cl \<le> 259"
    using duid [OF wf(1)] by blast
  obtain se where se: "duid_opt 2 (d6_server_duid d) (d6_server_duid_len d) = Some se" "length se \<le> 259"
    using duid [OF wf(2)] by blast
  define E where "E = w_be16 8 @ w_be16 2 @ w_be16 (d6_elapsed d) @ cl @ se @ R"
  have l: "length (na @ pd @ Q) < 50000" "length R < 200" "length (se @ R) < 50000" "length E < 1000" "4 \<le> length E"
    using Q(2) pd(2) na(2) cl(2) se(2) by (simp_all add: R_def E_def)
  have "encode_dhcpv6 [d] = Some ((w_be32 (d6_xid d)) [0 := d6_type d] @ E)"
    using assms cl(1) se(1) na(1) pd(1) by (simp add: wf_dhcpv6_def d6_header_def d6_line_def E_def R_def Q_def)
  moreover have "d6_run pad E sp x = Some (Inr \<lparr>ds_dhcpv6 = take_pd d (take_na d (x\<lparr>
         d6_server_duid := if d6_server_duid_len d = 0 then None else d6_server_duid d,
         d6_server_duid_len := d6_server_duid_len d, d6_rapid := d6_rapid d\<rparr>)), ds_sp_len = sp, ds_relay_msg = None\<rparr>)"
    if "d6_server_duid x = None" "d6_server_duid_len x = 0" "\<not> d6_rapid x" for pad sp x
    unfolding E_def using l that cl(2) se(2) d6_run_skip [of "w_be16 (d6_elapsed d)" "cl @ se @ R" 2 8 pad x sp]
      d6_run_client [OF wf(1) l(3) cl(1)] d6_run_server [OF wf(2,3) _ se(1), of R x pad sp] d6_run_rapid [OF l(1)]
    by (simp add: R_def na(3) pd(3) Q(1))
  ultimately show ?thesis using l by blast
qed


definition example_reply :: bbl_dhcpv6 where
  "example_reply = zero_dhcpv6\<lparr>d6_type := 7, d6_xid := 0x123456, d6_server_duid := Some [0, 3, 0, 1], d6_server_duid_len := 4,
     d6_ia_na_iaid := 1, d6_ia_na_t1 := 300, d6_ia_na_t2 := 600\<rparr>"


section \<open>What the decoders accept\<close>

text \<open>
  C35. Decoding DHCPv6 always returns, with a list of messages or an error, and never reads behind
  the received data, whatever the data are; and a message that is accepted carries at most one
  relayed message.
\<close>

theorem decode_dhcpv6_total:
  assumes "unat len \<le> length buf"
  shows "\<exists>r. decode_dhcpv6 False buf len sp_len = Some r \<and>
    (case r of Inl _ \<Rightarrow> True | Inr ms \<Rightarrow> length ms \<in> {1, 2} \<and> (length ms = 2 \<longrightarrow> is_relay (d6_type (hd ms)) \<and> \<not> is_relay (d6_type (last ms))))"
proof -
  have "decode_dhcpv6 False buf len sp_len \<noteq> None"
    using decode_dhcpv6_safe [OF assms, of False] by (simp add: runs_False)
  moreover have "length ms \<in> {1, 2} \<and> (length ms = 2 \<longrightarrow> is_relay (d6_type (hd ms)) \<and> \<not> is_relay (d6_type (last ms)))"
    if "decode_dhcpv6 False buf len sp_len = Some (Inr ms)" for ms
    by (rule decode_dhcpv6_shape [OF that])
  ultimately show ?thesis by (auto split: sum.split)
qed

theorem decode_dhcpv6_total_witness:
  "\<exists>r. decode_dhcpv6 False [7, 0, 0, 1, 0, 14, 0, 0] 8 4000 = Some r \<and> unat (8 :: u16) \<le> length [7, 0, 0, 1, 0, 14, 0, 0 :: u8]"
  using decode_dhcpv6_total [of 8 "[7, 0, 0, 1, 0, 14, 0, 0]" 4000] by auto

lemma sub_loop_None: "2 < len \<Longrightarrow> h t n bs x = None \<Longrightarrow> sub_loop h (t # n # bs) len x = None"
  by (simp add: sub_loop.simps)

lemma line_sub_None:
  assumes "t \<in> {1, 2}" "length bs < unat n" "256 \<le> unat sp"
  shows "vendor_sub t n bs (al, sp) = None" "agent_sub False t n bs (al, sp) = None"
proof -
  have "ucast n < sp" using assms(3) unat_u8_less [of n] by (simp add: word_less_nat_alt)
  then show "vendor_sub t n bs (al, sp) = None" "agent_sub False t n bs (al, sp) = None"
    using assms(1,2) by (auto simp: vendor_sub_def agent_sub_def ld_range_def)
qed

lemma vendor_over_read:
  assumes "t \<in> {1, 2}" "bs \<noteq> []" "length bs < unat n" "304 \<le> unat sp"
  shows "decode_pppoe_vendor (w_be32 3561 @ t # n # bs) (of_nat (length bs + 6)) sp p = None"
proof -
  define len :: u16 where "len = of_nat (length bs + 6)"
  have u: "unat len = length bs + 6"
    unfolding len_def using assms(3) unat_u8_less [of n] by (intro unat_of_nat_small) simp
  have "unat (len - 4) = length bs + 2" "\<not> len < 4" using u by (simp_all add: unat_sub_le word_le_nat_alt word_less_nat_alt)
  moreover from this assms(2) have "2 < len - 4" by (cases bs) (simp_all add: word_less_nat_alt)
  moreover have "256 \<le> unat (sp - 48)" "\<not> sp < 48" using assms(4) by (simp_all add: unat_sub_le word_le_nat_alt word_less_nat_alt)
  ultimately show ?thesis
    using sub_loop_None [of "len - 4" vendor_sub t n bs "(zero_access_line, sp - 48)"] line_sub_None(1) [OF assms(1,3), of "sp - 48"]
    unfolding len_def [symmetric] by (simp add: decode_pppoe_vendor_def Let_def)
qed

lemma pppoe_over_read:
  assumes "t \<in> {1, 2}" "bs \<noteq> []" "length bs < unat n" "384 \<le> unat sp_len"
  shows "decode_pppoe_discovery ([17, code] @ w_be16 sid @ w_be16 (of_nat (length bs + 10)) @
      w_be16 0x0105 @ w_be16 (of_nat (length bs + 6)) @ w_be32 3561 @ t # n # bs) (of_nat (length bs + 16)) sp_len = None"
proof -
  have lb: "length bs < 255" using assms(3) unat_u8_less [of n] by simp
  define len :: u16 where "len = of_nat (length bs + 16)"
  have u: "unat len = length bs + 16" unfolding len_def using lb by (intro unat_of_nat_small) simp
  have l: "len - 1 - 1 - 2 - 2 = of_nat (length bs + 10)" "\<not> len < 6" using u by (simp_all add: len_def word_less_nat_alt)
  have sp: "304 \<le> unat (sp_len - 80)" "\<not> sp_len < 80" using assms(4) by (simp_all add: unat_sub_le word_le_nat_alt word_less_nat_alt)
  define d where "d = w_be32 3561 @ t # n # bs"
  have "unat (of_nat (length bs + 6) :: u16) = length bs + 6" using lb by (intro unat_of_nat_small) simp
  then have d: "length d = length bs + 6" "unat (of_nat (length bs + 6) :: u16) = length bs + 6" by (simp_all add: d_def)
  have "tlv_run (pppoe_tag (sp_len - 80)) [] (w_be16 0x0105 @ w_be16 (of_nat (length bs + 6)) @ d @ []) x = None" for x
    using d lb vendor_over_read [OF assms(1-3) sp(1), of x]
    by (subst tlv_run_tlv) (simp_all only:, simp_all add: pppoe_tag_def d_def)
  then have "tlv_loop (pppoe_tag (sp_len - 80)) (w_be16 0x0105 @ w_be16 (of_nat (length bs + 6)) @ d) (of_nat (length bs + 10)) x = None" for x
    using d(1) by (simp add: tlv_run_def add.commute)
  then show ?thesis
    using l sp(2) unfolding d_def [symmetric] len_def [symmetric]
    by (simp only: decode_pppoe_discovery_def Let_def) simp
qed

lemma dhcp_over_read:
  assumes "t \<in> {1, 2}" "bs \<noteq> []" "length bs < unat n" "length bs < 254" "432 \<le> unat sp_len" "length h = 240"
  shows "decode_dhcp (h @ 82 # of_nat (length bs + 2) # t # n # bs) (of_nat (length bs + 244)) sp_len = None"
proof -
  define len :: u16 where "len = of_nat (length bs + 244)"
  have u: "unat len = length bs + 244" unfolding len_def using assms(4) by (intro unat_of_nat_small) simp
  define k :: u8 where "k = of_nat (length bs + 2)"
  have k: "unat k = length bs + 2" unfolding k_def using assms(4) by (intro unat_of_nat_small) simp
  have l: "unat (len - 236 - 4) = length bs + 4" "unat (len - 236 - 4 - 2) = length bs + 2" "\<not> len < 240"
    using u by (simp_all add: unat_sub_le word_le_nat_alt word_less_nat_alt)
  have k2: "2 < (ucast k :: u16)" "\<not> ucast k > len - 236 - 4 - 2" "\<not> len - 236 - 4 < 2"
    using k l assms(2) by (simp_all add: word_less_nat_alt)
  have sp: "\<not> sp_len < 128" "\<not> sp_len - 128 < 48" "256 \<le> unat (sp_len - 128 - 48)"
    using assms(5) by (simp_all add: unat_sub_le word_le_nat_alt word_less_nat_alt)
  have "decode_dhcp_agent (t # n # bs) (ucast k) (sp_len - 128) d = None" if "dhcp_access_line d = None" for d
    using that sp sub_loop_None [OF k2(1), of "agent_sub False" t n bs] line_sub_None(2) [OF assms(1,3) sp(3)]
    by (simp add: decode_dhcp_agent_def)
  then have "dhcp_loop (sp_len - 128) (82 # k # t # n # bs) (len - 236 - 4) d = None" if "dhcp_access_line d = None" for d
    using that k2(2,3) by (subst dhcp_loop.simps) (simp add: dhcp_option_def)
  then show ?thesis
    using sp(1) l(3) assms(6) unfolding len_def [symmetric] k_def [symmetric]
    by (simp add: decode_dhcp_def Let_def ld_range_def zero_dhcp_def)
qed

text \<open>
  C36. The lengths of the sub-options of an access line are not compared with what is left of their
  tag or option. For every circuit or remote identifier that claims more bytes than the packet has,
  in the vendor tag of a PPPoE discovery packet or in the relay agent option of a DHCPv4 message at
  the end of a packet, the decoder reads behind the received data.
\<close>

theorem access_line_over_read:
  assumes "t \<in> {1, 2}" "bs \<noteq> []" "length bs < unat n" "length bs < 254" "512 \<le> unat sp_len" "length h = 240"
  shows "decode_pppoe_discovery ([17, code] @ w_be16 sid @ w_be16 (of_nat (length bs + 10)) @
      w_be16 0x0105 @ w_be16 (of_nat (length bs + 6)) @ w_be32 3561 @ t # n # bs) (of_nat (length bs + 16)) sp_len = None \<and>
    decode_dhcp (h @ 82 # of_nat (length bs + 2) # t # n # bs) (of_nat (length bs + 244)) sp_len = None"
  using assms pppoe_over_read [OF assms(1-3), of sp_len code sid] dhcp_over_read [OF assms(1-4), of sp_len h] by simp

theorem access_line_over_read_witness:
  "decode_pppoe_discovery ([17, 9] @ w_be16 0 @ w_be16 11 @ w_be16 0x0105 @ w_be16 7 @ w_be32 3561 @ [1, 200, 97]) 17 4000 = None \<and>
   decode_dhcp (replicate 240 0 @ [82, 3, 1, 200, 97]) 245 4000 = None"
  using access_line_over_read [of 1 "[97]" 200 4000 "replicate 240 0" 9 0] by simp

text \<open>
  What follows the end option is parsed as options when it is longer than 255 bytes: only its
  length modulo 256 is skipped.
\<close>

lemma dhcp_end_continues:
  assumes "length junk < 256" "length rest = 256 * q" "length junk + length rest < 65000"
  shows "dhcp_loop sp (255 # 0 # junk @ rest) (of_nat (length junk + length rest + 2)) d = dhcp_loop sp rest (of_nat (length rest)) d"
proof -
  define len :: u16 where "len = of_nat (length junk + length rest + 2)"
  have u: "unat len = length junk + length rest + 2" unfolding len_def using assms(3) by (intro unat_of_nat_small) simp
  then have l: "\<not> len < 2" "unat (len - 2) = length junk + length rest" by (simp_all add: unat_sub_le word_le_nat_alt word_less_nat_alt)
  have "unat (ucast (len - 2) :: u8) = length junk"
    using l(2) assms(1,2) by (simp add: unsigned_ucast_eq take_bit_eq_mod)
  moreover from this have "(ucast (ucast (len - 2) :: u8) :: u16) = of_nat (length junk)" by (metis of_nat_unat)
  ultimately show ?thesis
    using l(1) unfolding len_def [symmetric] by (subst dhcp_loop.simps) (simp add: Let_def len_def)
qed

end
