(* ===== verification/Frame_Header.thy ===== *)
theory Frame_Header
  imports PPP_Codec DHCP_Codec Control_Codec
begin

text \<open>
  The structures of a decoded frame and the headers of the protocols that carry others, of
  \<^verbatim>\<open>code/bngblaster/src/bbl_protocols.c\<close>.

  The structures of a decoded frame are chained through \<open>void *next\<close> pointers. Here a decoded frame
  is the list of its layers, each tagged with the type of its structure; \<open>next\<close> of a layer is the
  layer behind it, and NULL at the end. The decoders of IP and of what it carries also write to the
  Ethernet header, which is therefore passed on and returned, also when they fail: \<open>decode_udp\<close>
  goes on after an unknown protocol. The Ethernet header of a rejected frame is never looked at.

  Members that a decoder leaves as the scratchpad memory had them are \<^term>\<open>None\<close> or left out.
\<close>

section \<open>Structures\<close>

record bbl_bbl =
  bbl_padding :: "u16 option"
  bbl_type :: u8
  bbl_sub_type :: u8
  bbl_direction :: u8
  bbl_tos :: u8
  bbl_session_id :: u32
  bbl_ifindex :: "u32 option"
  bbl_outer_vlan_id :: "u16 option"
  bbl_inner_vlan_id :: "u16 option"
  bbl_mc_source :: "u32 option"
  bbl_mc_group :: "u32 option"
  bbl_flow_id :: u64
  bbl_flow_seq :: u64
  bbl_tv_sec :: u64
  bbl_tv_nsec :: u64

record bbl_mpls =
  mpls_label :: u32
  mpls_exp :: u8
  mpls_ttl :: u8

record bbl_ethernet_header =
  eth_length :: u16
  eth_type :: u16
  eth_vlan_outer :: u16
  eth_vlan_inner :: u16
  eth_vlan_three :: u16
  eth_vlan_outer_priority :: u8
  eth_vlan_inner_priority :: u8
  eth_tos :: u8
  eth_ttl :: u8
  eth_lwip :: bool
  eth_qinq :: bool
  eth_dst :: "u8 list option"
  eth_src :: "u8 list option"
  eth_bbl :: "bbl_bbl option"
  eth_mpls :: "bbl_mpls list"
  eth_raw_len :: u16

record bbl_pppoe_session =
  pses_session_id :: u16
  pses_protocol :: u16
  pses_raw_len :: u16
  pses_lwip :: bool

record bbl_ipv4 =
  ip4_src :: u32
  ip4_dst :: u32
  ip4_tos :: u8
  ip4_ttl :: u8
  ip4_protocol :: u8
  ip4_router_alert_option :: bool
  ip4_id :: u16
  ip4_offset :: u16
  ip4_len :: u16
  ip4_hdr :: "u8 list"
  ip4_payload :: "u8 list"
  ip4_payload_len :: u16

record bbl_ipv6 =
  ip6_src :: "u8 list"
  ip6_dst :: "u8 list"
  ip6_tos :: u8
  ip6_ttl :: u8
  ip6_protocol :: u8
  ip6_len :: u16
  ip6_hdr :: "u8 list"
  ip6_payload :: "u8 list"
  ip6_payload_len :: u16

record bbl_udp =
  udp_src :: u16
  udp_dst :: u16
  udp_payload_len :: u16
  udp_protocol :: u8

record bbl_tcp =
  tcp_src :: u16
  tcp_dst :: u16
  tcp_len :: u16
  tcp_hdr :: "u8 list option"

record bbl_l2tp =
  l2tp_with_length :: bool
  l2tp_with_sequence :: bool
  l2tp_with_offset :: bool
  l2tp_with_priority :: bool
  l2tp_type :: u16
  l2tp_length :: u16
  l2tp_tunnel_id :: u16
  l2tp_session_id :: u16
  l2tp_ns :: u16
  l2tp_nr :: u16
  l2tp_offset :: u16
  l2tp_protocol :: u16
  l2tp_payload :: "u8 list option"
  l2tp_payload_len :: u16

record bbl_qmx_li =
  qmx_header :: u32
  qmx_liid :: u32
  qmx_direction :: u8
  qmx_packet_type :: u8
  qmx_sub_packet_type :: u8
  qmx_payload :: "u8 list"
  qmx_payload_len :: u16

text \<open>
  What a \<open>next\<close> pointer can point to. Frames to send can also carry CFM, the bytes of a packet that is
  already encoded, and the chain of buffers that the TCP/IP stack lwIP hands over.
\<close>

datatype layer =
    L_ethernet bbl_ethernet_header
  | L_pppoe_session bbl_pppoe_session
  | L_pppoe_discovery bbl_pppoe_discovery
  | L_arp bbl_arp
  | L_lacp bbl_lacp
  | L_isis bbl_isis
  | L_ipv4 bbl_ipv4
  | L_ipv6 bbl_ipv6
  | L_icmp bbl_icmp
  | L_icmpv6 bbl_icmpv6
  | L_igmp bbl_igmp
  | L_ospf bbl_ospf
  | L_tcp bbl_tcp
  | L_udp bbl_udp
  | L_bbl bbl_bbl
  | L_dhcp bbl_dhcp
  | L_dhcpv6 "bbl_dhcpv6 list"
  | L_ldp_hello bbl_ldp_hello
  | L_qmx_li bbl_qmx_li
  | L_l2tp bbl_l2tp
  | L_lcp bbl_lcp
  | L_ipcp bbl_ipcp
  | L_ip6cp bbl_ip6cp
  | L_pap bbl_pap
  | L_chap bbl_chap
  | L_cfm bbl_cfm
  | L_raw "u8 list"
  | L_pbuf "u8 list list"

definition zero_ethernet :: bbl_ethernet_header where
  "zero_ethernet = \<lparr>eth_length = 0, eth_type = 0, eth_vlan_outer = 0, eth_vlan_inner = 0, eth_vlan_three = 0,
     eth_vlan_outer_priority = 0, eth_vlan_inner_priority = 0, eth_tos = 0, eth_ttl = 0, eth_lwip = False,
     eth_qinq = False, eth_dst = None, eth_src = None, eth_bbl = None, eth_mpls = [], eth_raw_len = 0\<rparr>"

definition zero_l2tp :: bbl_l2tp where
  "zero_l2tp = \<lparr>l2tp_with_length = False, l2tp_with_sequence = False, l2tp_with_offset = False,
     l2tp_with_priority = False, l2tp_type = 0, l2tp_length = 0, l2tp_tunnel_id = 0, l2tp_session_id = 0,
     l2tp_ns = 0, l2tp_nr = 0, l2tp_offset = 0, l2tp_protocol = 0, l2tp_payload = None, l2tp_payload_len = 0\<rparr>"

section \<open>Blaster header\<close>

text \<open>
  The header stands at the end of the payload; whatever is before it is padding. A header that is
  neither unicast nor multicast is 8 bytes shorter.
\<close>

definition bbl_tail :: "u8 list \<Rightarrow> bbl_bbl \<Rightarrow> bbl_bbl decoded" where
  "bbl_tail buf bbl =
     do { flow_id \<leftarrow> rd_ne64 buf;
          flow_seq \<leftarrow> rd_ne64 (drop 8 buf);
          sec \<leftarrow> rd_ne32 (drop 16 buf);
          nsec \<leftarrow> rd_ne32 (drop 20 buf);
          Some (Inr (bbl\<lparr>bbl_flow_id := flow_id, bbl_flow_seq := flow_seq, bbl_tv_sec := ucast sec, bbl_tv_nsec := ucast nsec\<rparr>)) }"

definition decode_bbl :: "u8 list \<Rightarrow> u16 \<Rightarrow> u16 \<Rightarrow> bbl_bbl decoded" where
  "decode_bbl buf len sp_len =
     (if len < 48 \<or> sp_len < 64 then Some (Inl DECODE_ERROR)
      else do {
        let buf = drop (unat (len - 48)) buf;
        magic \<leftarrow> rd_ne64 buf;
        if magic \<noteq> 0x5274427269636b21 then Some (Inl DECODE_ERROR)
        else do {
          typ \<leftarrow> rd8 (drop 8 buf);
          sub_type \<leftarrow> rd8 (drop 9 buf);
          direction \<leftarrow> rd8 (drop 10 buf);
          tos \<leftarrow> rd8 (drop 11 buf);
          session_id \<leftarrow> rd_ne32 (drop 12 buf);
          let bbl = \<lparr>bbl_padding = None, bbl_type = typ, bbl_sub_type = sub_type, bbl_direction = direction, bbl_tos = tos,
            bbl_session_id = session_id, bbl_ifindex = None, bbl_outer_vlan_id = None, bbl_inner_vlan_id = None,
            bbl_mc_source = None, bbl_mc_group = None, bbl_flow_id = 0, bbl_flow_seq = 0, bbl_tv_sec = 0, bbl_tv_nsec = 0\<rparr>;
          if typ = 1 then do {
            ifindex \<leftarrow> rd_ne32 (drop 16 buf);
            outer \<leftarrow> rd_ne16 (drop 20 buf);
            inner \<leftarrow> rd_ne16 (drop 22 buf);
            bbl_tail (drop 24 buf) (bbl\<lparr>bbl_ifindex := Some ifindex, bbl_outer_vlan_id := Some outer, bbl_inner_vlan_id := Some inner\<rparr>) }
          else if typ = 2 then do {
            src \<leftarrow> rd_ne32 (drop 16 buf);
            group \<leftarrow> rd_ne32 (drop 20 buf);
            bbl_tail (drop 24 buf) (bbl\<lparr>bbl_mc_source := Some src, bbl_mc_group := Some group\<rparr>) }
          else bbl_tail (drop 16 buf) bbl } })"

section \<open>Headers\<close>

text \<open>
  Each header decoder checks and reads the header of one protocol and returns it with the rest of the
  buffer and the length that is left for the protocol it carries.
\<close>

definition udp_header :: "u8 list \<Rightarrow> u16 \<Rightarrow> u16 \<Rightarrow> (bbl_udp \<times> u8 list \<times> u16) decoded" where
  "udp_header buf len sp_len =
     (if len < 8 \<or> sp_len < 24 then Some (Inl DECODE_ERROR)
      else do {
        src \<leftarrow> rd_be16 buf;
        dst \<leftarrow> rd_be16 (drop 2 buf);
        payload_len \<leftarrow> rd_be16 (drop 4 buf);
        let buf = drop 8 buf; let len = len - 8;
        if payload_len < 8 then Some (Inl DECODE_ERROR)
        else do {
          let payload_len = payload_len - 8;
          if payload_len > len then Some (Inl DECODE_ERROR)
          else Some (Inr (\<lparr>udp_src = src, udp_dst = dst, udp_payload_len = payload_len, udp_protocol = 0\<rparr>, buf, payload_len)) } })"

definition decode_tcp :: "u8 list \<Rightarrow> u16 \<Rightarrow> u16 \<Rightarrow> bbl_ethernet_header \<Rightarrow> (bbl_ethernet_header \<times> (protocol_error + layer list)) option" where
  "decode_tcp buf len sp_len eth =
     (if len < 20 \<or> sp_len < 16 then Some (eth, Inl DECODE_ERROR)
      else do {
        src \<leftarrow> rd_be16 buf;
        dst \<leftarrow> rd_be16 (drop 2 buf);
        r \<leftarrow> decode_bbl (drop 20 buf) (len - 20) (sp_len - 16);
        let eth = (case r of Inl _ \<Rightarrow> eth | Inr bbl \<Rightarrow> eth\<lparr>eth_bbl := Some bbl\<rparr>);
        Some (eth, Inr [L_tcp \<lparr>tcp_src = src, tcp_dst = dst, tcp_len = 0, tcp_hdr = None\<rparr>]) })"

definition ipv6_header :: "u8 list \<Rightarrow> u16 \<Rightarrow> u16 \<Rightarrow> bbl_ethernet_header \<Rightarrow>
    (bbl_ethernet_header \<times> (protocol_error + bbl_ipv6 \<times> u8 list \<times> u16)) option" where
  "ipv6_header buf len sp_len eth =
     (if len < 40 \<or> sp_len < 56 then Some (eth, Inl DECODE_ERROR)
      else do {
        b \<leftarrow> rd8 buf;
        if drop_bit 4 b AND 0xf \<noteq> 6 then Some (eth, Inl DECODE_ERROR)
        else do {
          w \<leftarrow> rd_be16 buf;
          let tos = ucast (drop_bit 4 w);
          let eth = (if eth_tos eth = 0 then eth\<lparr>eth_tos := tos\<rparr> else eth);
          payload_len \<leftarrow> rd_be16 (drop 4 buf);
          protocol \<leftarrow> rd8 (drop 6 buf);
          ttl \<leftarrow> rd8 (drop 7 buf);
          let eth = (if eth_ttl eth = 0 then eth\<lparr>eth_ttl := ttl\<rparr> else eth);
          src \<leftarrow> ld_range buf 8 16;
          dst \<leftarrow> ld_range buf 24 16;
          if payload_len > len - 40 then Some (eth, Inl DECODE_ERROR)
          else do {
            hdr \<leftarrow> ld_range buf 0 (40 + unat payload_len);
            Some (eth, Inr (\<lparr>ip6_src = src, ip6_dst = dst, ip6_tos = tos, ip6_ttl = ttl, ip6_protocol = protocol,
              ip6_len = 40 + payload_len, ip6_hdr = hdr, ip6_payload = drop 40 hdr, ip6_payload_len = payload_len\<rparr>,
              drop 40 buf, payload_len)) } } })"

definition ipv4_header :: "u8 list \<Rightarrow> u16 \<Rightarrow> u16 \<Rightarrow> bbl_ethernet_header \<Rightarrow>
    (bbl_ethernet_header \<times> (protocol_error + bbl_ipv4 \<times> u8 list \<times> u16)) option" where
  "ipv4_header buf len sp_len eth =
     (if len < 20 \<or> sp_len < 56 then Some (eth, Inl DECODE_ERROR)
      else do {
        b \<leftarrow> rd8 buf;
        if drop_bit 4 b \<noteq> 4 then Some (eth, Inl DECODE_ERROR)
        else do {
          let header_len = (ucast (b AND 0xf) :: u16) * 4;
          if header_len < 20 then Some (eth, Inl DECODE_ERROR)
          else do {
            tos \<leftarrow> rd8 (drop 1 buf);
            let eth = (if eth_tos eth = 0 then eth\<lparr>eth_tos := tos\<rparr> else eth);
            total \<leftarrow> rd_be16 (drop 2 buf);
            if header_len > total \<or> total > len then Some (eth, Inl DECODE_ERROR)
            else do {
              ident \<leftarrow> rd_be16 (drop 4 buf);
              offset \<leftarrow> rd_be16 (drop 6 buf);
              ttl \<leftarrow> rd8 (drop 8 buf);
              let eth = (if eth_ttl eth = 0 then eth\<lparr>eth_ttl := ttl\<rparr> else eth);
              protocol \<leftarrow> rd8 (drop 9 buf);
              src \<leftarrow> rd_ne32 (drop 12 buf);
              dst \<leftarrow> rd_ne32 (drop 16 buf);
              let payload_len = total - header_len;
              if payload_len > len - header_len then Some (eth, Inl DECODE_ERROR)
              else do {
                hdr \<leftarrow> ld_range buf 0 (unat total);
                Some (eth, Inr (\<lparr>ip4_src = src, ip4_dst = dst, ip4_tos = tos, ip4_ttl = ttl, ip4_protocol = protocol,
                  ip4_router_alert_option = False, ip4_id = ident, ip4_offset = offset, ip4_len = total, ip4_hdr = hdr,
                  ip4_payload = drop (unat header_len) hdr, ip4_payload_len = payload_len\<rparr>,
                  drop (unat header_len) buf, payload_len)) } } } } })"

text \<open>Reassembly is only done for OSPFv2: the protocol of any other fragment is cleared.\<close>

definition ip4_fragment :: "bbl_ipv4 \<Rightarrow> bool" where
  "ip4_fragment ipv4 \<longleftrightarrow> ip4_offset ipv4 AND NOT 0x4000 \<noteq> 0"

definition ip4_clear_protocol :: "bbl_ipv4 \<Rightarrow> bbl_ipv4" where
  "ip4_clear_protocol ipv4 = (if ip4_protocol ipv4 \<noteq> 89 then ipv4\<lparr>ip4_protocol := 0\<rparr> else ipv4)"

definition pppoe_session_header :: "u8 list \<Rightarrow> u16 \<Rightarrow> u16 \<Rightarrow> (bbl_pppoe_session \<times> u8 list \<times> u16) decoded" where
  "pppoe_session_header buf len sp_len =
     (if len < 8 \<or> sp_len < 16 then Some (Inl DECODE_ERROR)
      else do {
        version_type \<leftarrow> rd8 buf;
        if version_type \<noteq> 17 then Some (Inl DECODE_ERROR)
        else do {
          session_id \<leftarrow> rd_be16 (drop 2 buf);
          n \<leftarrow> rd_be16 (drop 4 buf);
          let pppoe_len = n - 2;
          protocol \<leftarrow> rd_be16 (drop 6 buf);
          if pppoe_len > len - 8 then Some (Inl DECODE_ERROR)
          else Some (Inr (\<lparr>pses_session_id = session_id, pses_protocol = protocol, pses_raw_len = 0, pses_lwip = False\<rparr>,
                 drop 8 buf, pppoe_len)) } })"

definition qmx_li_header :: "u8 list \<Rightarrow> u16 \<Rightarrow> u16 \<Rightarrow> (bbl_qmx_li \<times> u8 list \<times> u16) decoded" where
  "qmx_li_header buf len sp_len =
     (if len < 4 \<or> sp_len < 40 then Some (Inl DECODE_ERROR)
      else do {
        header \<leftarrow> rd_ne32 buf;
        w \<leftarrow> rd_be32 buf;
        b \<leftarrow> rd8 buf;
        h \<leftarrow> rd_be16 buf;
        payload \<leftarrow> ld_range buf 4 (unat (len - 4));
        Some (Inr (\<lparr>qmx_header = header, qmx_liid = w AND 0x003fffff, qmx_direction = drop_bit 5 b AND 0x7,
          qmx_packet_type = drop_bit 1 b AND 0xf, qmx_sub_packet_type = ucast (drop_bit 6 h AND 0x07),
          qmx_payload = payload, qmx_payload_len = len - 4\<rparr>, drop 4 buf, len - 4)) })"

definition and_then :: "'a decoded \<Rightarrow> ('a \<Rightarrow> 'b decoded) \<Rightarrow> 'b decoded" where
  "and_then m f = (case m of None \<Rightarrow> None | Some (Inl e) \<Rightarrow> Some (Inl e) | Some (Inr x) \<Rightarrow> f x)"

definition l2tp_length_field :: "bbl_l2tp \<times> u8 list \<times> u16 \<Rightarrow> (bbl_l2tp \<times> u8 list \<times> u16) decoded" where
  "l2tp_length_field = (\<lambda>(l2tp, buf, len).
     if l2tp_with_length l2tp then
       do { n \<leftarrow> rd_be16 buf;
            let l2tp_len = n - 4;
            if l2tp_len > len - 2 then Some (Inl DECODE_ERROR)
            else Some (Inr (l2tp\<lparr>l2tp_length := n\<rparr>, drop 2 buf, l2tp_len)) }
     else if l2tp_type l2tp \<noteq> 0 then Some (Inl DECODE_ERROR)
     else Some (Inr (l2tp, buf, len)))"

definition l2tp_id_fields :: "bbl_l2tp \<times> u8 list \<times> u16 \<Rightarrow> (bbl_l2tp \<times> u8 list \<times> u16) decoded" where
  "l2tp_id_fields = (\<lambda>(l2tp, buf, len).
     if len < 4 then Some (Inl DECODE_ERROR)
     else do { t \<leftarrow> rd_be16 buf;
               i \<leftarrow> rd_be16 (drop 2 buf);
               Some (Inr (l2tp\<lparr>l2tp_tunnel_id := t, l2tp_session_id := i\<rparr>, drop 4 buf, len - 4)) })"

definition l2tp_sequence_fields :: "bbl_l2tp \<times> u8 list \<times> u16 \<Rightarrow> (bbl_l2tp \<times> u8 list \<times> u16) decoded" where
  "l2tp_sequence_fields = (\<lambda>(l2tp, buf, len).
     if l2tp_with_sequence l2tp then
       if len < 4 then Some (Inl DECODE_ERROR)
       else do { ns \<leftarrow> rd_be16 buf;
                 nr \<leftarrow> rd_be16 (drop 2 buf);
                 Some (Inr (l2tp\<lparr>l2tp_ns := ns, l2tp_nr := nr\<rparr>, drop 4 buf, len - 4)) }
     else if l2tp_type l2tp \<noteq> 0 then Some (Inl DECODE_ERROR)
     else Some (Inr (l2tp, buf, len)))"

definition l2tp_offset_field :: "bbl_l2tp \<times> u8 list \<times> u16 \<Rightarrow> (bbl_l2tp \<times> u8 list \<times> u16) decoded" where
  "l2tp_offset_field = (\<lambda>(l2tp, buf, len).
     if l2tp_with_offset l2tp then
       if len < 2 then Some (Inl DECODE_ERROR)
       else do { off \<leftarrow> rd_be16 buf;
                 let l2tp = l2tp\<lparr>l2tp_offset := off\<rparr>; let buf = drop 2 buf; let len = len - 2;
                 if off \<noteq> 0 then if len < off then Some (Inl DECODE_ERROR) else Some (Inr (l2tp, drop (unat off) buf, len - off))
                 else Some (Inr (l2tp, buf, len)) }
     else Some (Inr (l2tp, buf, len)))"

text \<open>The packet type of a control packet, and the PPP protocol with what it carries of a data packet.\<close>

definition l2tp_body :: "bbl_l2tp \<times> u8 list \<times> u16 \<Rightarrow> (bbl_l2tp \<times> (u8 list \<times> u16) option) decoded" where
  "l2tp_body = (\<lambda>(l2tp, buf, len).
     if l2tp_type l2tp \<noteq> 0 then
       if len \<noteq> 0 then
         if len < 8 then Some (Inl DECODE_ERROR)
         else do { z \<leftarrow> rd_ne32 (drop 2 buf);
                   if z \<noteq> 0 then Some (Inl DECODE_ERROR)
                   else do { t \<leftarrow> rd_be16 (drop 6 buf);
                             payload \<leftarrow> ld_range buf 8 (unat (len - 8));
                             let l2tp = l2tp\<lparr>l2tp_type := t\<rparr>;
                             Some (Inr (if len - 8 \<noteq> 0 then l2tp\<lparr>l2tp_payload := Some payload, l2tp_payload_len := len - 8\<rparr> else l2tp, None)) } }
       else Some (Inr (l2tp, None))
     else if len < 4 then Some (Inl DECODE_ERROR)
     else do { payload \<leftarrow> ld_range buf 0 (unat len);
               p \<leftarrow> rd_be16 (drop 2 buf);
               Some (Inr (l2tp\<lparr>l2tp_payload := Some payload, l2tp_payload_len := len, l2tp_protocol := p\<rparr>,
                          Some (drop 4 buf, len - 4))) })"

definition l2tp_flags :: "u8 list \<Rightarrow> u16 \<Rightarrow> u16 \<Rightarrow> (bbl_l2tp \<times> u8 list \<times> u16) decoded" where
  "l2tp_flags buf len sp_len =
     (if len < 8 \<or> sp_len < 48 then Some (Inl DECODE_ERROR)
      else do {
        b \<leftarrow> rd8 buf;
        let l2tp = zero_l2tp\<lparr>l2tp_type := if b AND 0x80 \<noteq> 0 then 32767 else 0, l2tp_with_length := b AND 0x40 \<noteq> 0,
          l2tp_with_sequence := b AND 0x08 \<noteq> 0, l2tp_with_offset := b AND 0x02 \<noteq> 0, l2tp_with_priority := b AND 0x01 \<noteq> 0\<rparr>;
        v \<leftarrow> rd8 (drop 1 buf);
        if v AND 0x0f \<noteq> 2 then Some (Inl DECODE_ERROR) else Some (Inr (l2tp, drop 2 buf, len - 2)) })"

definition l2tp_header :: "u8 list \<Rightarrow> u16 \<Rightarrow> u16 \<Rightarrow> (bbl_l2tp \<times> (u8 list \<times> u16) option) decoded" where
  "l2tp_header buf len sp_len =
     and_then (and_then (and_then (and_then (and_then (l2tp_flags buf len sp_len)
       l2tp_length_field) l2tp_id_fields) l2tp_sequence_fields) l2tp_offset_field) l2tp_body"

text \<open>Up to three VLAN tags; the type is kept in network byte order.\<close>

definition is_vlan :: "u16 \<Rightarrow> bool" where
  "is_vlan t \<longleftrightarrow> t = 0x0081 \<or> t = 0xA888"

definition eth_tag :: "u8 list \<Rightarrow> u16 \<Rightarrow> (u8 \<times> u16 \<times> u16) decoded" where
  "eth_tag buf len =
     (if len < 4 then Some (Inl DECODE_ERROR)
      else do { b \<leftarrow> rd8 buf; v \<leftarrow> rd_be16 buf; t \<leftarrow> rd_ne16 (drop 2 buf);
                Some (Inr (drop_bit 5 b, v AND 4095, t)) })"

definition eth_tags :: "bbl_ethernet_header \<Rightarrow> u8 list \<Rightarrow> u16 \<Rightarrow> (bbl_ethernet_header \<times> u8 list \<times> u16) decoded" where
  "eth_tags eth buf len =
     (if \<not> is_vlan (eth_type eth) then Some (Inr (eth, buf, len))
      else and_then (eth_tag buf len) (\<lambda>(prio, vlan, t).
        let eth = eth\<lparr>eth_qinq := eth_qinq eth \<or> eth_type eth = 0x88A8, eth_vlan_outer_priority := prio,
          eth_vlan_outer := vlan, eth_type := t\<rparr>; buf = drop 4 buf; len = len - 4
        in if \<not> is_vlan t then Some (Inr (eth, buf, len))
           else and_then (eth_tag buf len) (\<lambda>(prio, vlan, t).
             let eth = eth\<lparr>eth_vlan_inner_priority := prio, eth_vlan_inner := vlan, eth_type := t\<rparr>; buf = drop 4 buf; len = len - 4
             in if \<not> is_vlan t then Some (Inr (eth, buf, len))
                else and_then (eth_tag buf len) (\<lambda>(_, vlan, t).
                  Some (Inr (eth\<lparr>eth_vlan_three := vlan, eth_type := t\<rparr>, drop 4 buf, len - 4))))))"

function mpls_loop :: "u8 list \<Rightarrow> u16 \<Rightarrow> u16 \<Rightarrow> (bbl_mpls list \<times> u8 list \<times> u16 \<times> u16) decoded" where
  "mpls_loop buf len sp_len =
     (if len < 5 then Some (Inl DECODE_ERROR)
      else case rd_be32 buf of None \<Rightarrow> None | Some w \<Rightarrow>
        (case rd8 (drop 2 buf) of None \<Rightarrow> None | Some b \<Rightarrow>
          (case rd8 (drop 3 buf) of None \<Rightarrow> None | Some ttl \<Rightarrow>
            (let m = \<lparr>mpls_label = drop_bit 12 w, mpls_exp = drop_bit 1 b AND 7, mpls_ttl = ttl\<rparr>
             in if b AND 1 \<noteq> 0 then Some (Inr ([m], drop 4 buf, len - 4, sp_len))
                else if sp_len < 16 then Some (Inl DECODE_ERROR)
                else (case mpls_loop (drop 4 buf) (len - 4) (sp_len - 16) of
                    None \<Rightarrow> None
                  | Some (Inl e) \<Rightarrow> Some (Inl e)
                  | Some (Inr (ms, rest)) \<Rightarrow> Some (Inr (m # ms, rest)))))))"
  by pat_completeness auto
termination
  by (relation "measure (\<lambda>(_, len, _). unat len)") (simp_all add: word_less_nat_alt unat_sub_le word_le_nat_alt)

declare mpls_loop.simps [simp del]

definition eth_labels :: "bbl_ethernet_header \<Rightarrow> u8 list \<Rightarrow> u16 \<Rightarrow> u16 \<Rightarrow> (bbl_ethernet_header \<times> u8 list \<times> u16 \<times> u16) decoded" where
  "eth_labels eth buf len sp_len =
     (if eth_type eth \<noteq> 0x4788 then Some (Inr (eth, buf, len, sp_len))
      else if sp_len < 16 then Some (Inl DECODE_ERROR)
      else and_then (mpls_loop buf len (sp_len - 16)) (\<lambda>(ms, buf, len, sp_len).
        do { b \<leftarrow> rd8 buf;
             let v = drop_bit 4 b AND 0xf;
             let eth = eth\<lparr>eth_mpls := ms\<rparr>;
             if v = 4 then Some (Inr (eth\<lparr>eth_type := 0x0008\<rparr>, buf, len, sp_len))
             else if v = 6 then Some (Inr (eth\<lparr>eth_type := 0xdd86\<rparr>, buf, len, sp_len))
             else Some (Inl UNKNOWN_PROTOCOL) }))"

definition be16toh :: "u16 \<Rightarrow> u16" where
  "be16toh x = push_bit 8 (x AND 0xff) OR drop_bit 8 x"

definition eth_header :: "u8 list \<Rightarrow> u16 \<Rightarrow> u16 \<Rightarrow> (bbl_ethernet_header \<times> u8 list \<times> u16 \<times> u16) decoded" where
  "eth_header buf len sp_len =
     (if len < 14 \<or> sp_len < 80 then Some (Inl DECODE_ERROR)
      else do {
        dst \<leftarrow> ld_range buf 0 6;
        src \<leftarrow> ld_range buf 6 6;
        t \<leftarrow> rd_ne16 (drop 12 buf);
        and_then (eth_tags (zero_ethernet\<lparr>eth_length := len, eth_dst := Some dst, eth_src := Some src, eth_type := t\<rparr>)
                    (drop 14 buf) (len - 14)) (\<lambda>(eth, buf, len).
          and_then (eth_labels eth buf len (sp_len - 80)) (\<lambda>(eth, buf, len, sp_len).
            Some (Inr (eth\<lparr>eth_type := be16toh (eth_type eth)\<rparr>, buf, len, sp_len)))) })"

section \<open>The decoders\<close>

text \<open>A protocol that carries no other.\<close>

definition leaf :: "('a \<Rightarrow> layer) \<Rightarrow> 'a decoded \<Rightarrow> bbl_ethernet_header \<Rightarrow> (bbl_ethernet_header \<times> (protocol_error + layer list)) option" where
  "leaf L m eth = (case m of None \<Rightarrow> None | Some (Inl e) \<Rightarrow> Some (eth, Inl e) | Some (Inr x) \<Rightarrow> Some (eth, Inr [L x]))"

definition bbl_leaf :: "bbl_bbl decoded \<Rightarrow> bbl_ethernet_header \<Rightarrow> (bbl_ethernet_header \<times> (protocol_error + layer list)) option" where
  "bbl_leaf m eth = (case m of None \<Rightarrow> None | Some (Inl e) \<Rightarrow> Some (eth, Inl e)
     | Some (Inr bbl) \<Rightarrow> Some (eth\<lparr>eth_bbl := Some bbl\<rparr>, Inr [L_bbl bbl]))"

text \<open>The control protocols of PPP, over PPPoE and over L2TP.\<close>

definition decode_ppp :: "u16 \<Rightarrow> u8 list \<Rightarrow> u16 \<Rightarrow> u16 \<Rightarrow> bbl_ethernet_header \<Rightarrow> (bbl_ethernet_header \<times> (protocol_error + layer list)) option" where
  "decode_ppp protocol buf len sp_len eth =
     (if protocol = 0xc021 then leaf L_lcp (decode_ppp_lcp buf len sp_len) eth
      else if protocol = 0x8021 then leaf L_ipcp (decode_ppp_ipcp buf len sp_len) eth
      else if protocol = 0x8057 then leaf L_ip6cp (decode_ppp_ip6cp buf len sp_len) eth
      else if protocol = 0xc023 then leaf L_pap (decode_ppp_pap buf len sp_len) eth
      else if protocol = 0xc223 then leaf L_chap (decode_ppp_chap buf len sp_len) eth
      else Some (eth, Inl UNKNOWN_PROTOCOL))"

text \<open>A type up to 1500 is the length of an IEEE 802.3 frame; of these only IS-IS is decoded.\<close>

definition eth_llc :: "u8 list \<Rightarrow> u16 \<Rightarrow> u16 \<Rightarrow> bbl_ethernet_header \<Rightarrow> (bbl_ethernet_header \<times> (protocol_error + layer list)) option" where
  "eth_llc buf len sp_len eth =
     (if eth_type eth > len \<or> eth_type eth < 3 then Some (eth, Inl DECODE_ERROR)
      else do {
        let buf = drop 3 buf; let len = eth_type eth - 3;
        b \<leftarrow> (if len \<ge> 8 then rd8 buf else Some 0);
        if b = 0x83 then leaf L_isis (decode_isis buf len sp_len) (eth\<lparr>eth_type := 0x83\<rparr>)
        else Some (eth, Inl UNKNOWN_PROTOCOL) })"

text \<open>The structure of a protocol in front of what it carries.\<close>

definition on_top :: "layer \<Rightarrow> (bbl_ethernet_header \<times> (protocol_error + layer list)) option \<Rightarrow>
    (bbl_ethernet_header \<times> (protocol_error + layer list)) option" where
  "on_top l m = (case m of None \<Rightarrow> None | Some (eth, Inl e) \<Rightarrow> Some (eth, Inl e) | Some (eth, Inr ls) \<Rightarrow> Some (eth, Inr (l # ls)))"

definition udp_protocol_of :: "u16 \<Rightarrow> u8" where
  "udp_protocol_of dst =
     (if dst = 546 \<or> dst = 547 then 1 else if dst = 65056 then 2 else if dst = 1701 then 3
      else if dst = 68 \<or> dst = 67 then 5 else if dst = 49152 then 4 else if dst = 646 then 6 else 0)"

text \<open>Any payload is tried as a blaster packet.\<close>

definition udp_try_bbl :: "bbl_udp \<Rightarrow> bbl_bbl decoded \<Rightarrow> bbl_ethernet_header \<Rightarrow>
    (bbl_ethernet_header \<times> (protocol_error + layer list)) option" where
  "udp_try_bbl udp m eth = (case m of None \<Rightarrow> None
     | Some (Inl e) \<Rightarrow> Some (eth, Inr [L_udp (udp\<lparr>udp_protocol := 0\<rparr>)])
     | Some (Inr bbl) \<Rightarrow> Some (eth\<lparr>eth_bbl := Some bbl\<rparr>, Inr [L_udp (udp\<lparr>udp_protocol := 2\<rparr>), L_bbl bbl]))"

text \<open>
  \<open>within k buf len b l\<close>: the \<open>l\<close> bytes at \<open>b\<close> are part of the \<open>len\<close> bytes at \<open>buf\<close>, at least \<open>k\<close> bytes
  behind its start. Each header leaves such a part to the protocol it carries.
\<close>

definition within :: "nat \<Rightarrow> u8 list \<Rightarrow> u16 \<Rightarrow> u8 list \<Rightarrow> u16 \<Rightarrow> bool" where
  "within k buf len b l \<longleftrightarrow> (\<exists>n. k \<le> n \<and> b = drop n buf \<and> n + unat l \<le> unat len)"

lemma within_refl: "within 0 buf len buf len"
  unfolding within_def by (rule exI [of _ 0]) simp

lemma within_drop: "k \<le> n \<Longrightarrow> n + unat l \<le> unat len \<Longrightarrow> within k buf len (drop n buf) l"
  unfolding within_def by (rule exI [of _ n]) simp

lemma within_trans: "within j buf len b l \<Longrightarrow> within k b l b' l' \<Longrightarrow> within (j + k) buf len b' l'"
  unfolding within_def
proof (elim exE conjE)
  fix m n assume "j \<le> n" "b = drop n buf" "n + unat l \<le> unat len" "k \<le> m" "b' = drop m b" "m + unat l' \<le> unat l"
  then show "\<exists>i. j + k \<le> i \<and> b' = drop i buf \<and> i + unat l' \<le> unat len"
    by (intro exI [of _ "n + m"]) (simp add: add.commute)
qed

lemma within_mono: "within k buf len b l \<Longrightarrow> j \<le> k \<Longrightarrow> within j buf len b l"
  unfolding within_def using le_trans by blast

lemma within_less: "within k buf len b l \<Longrightarrow> 0 < k \<Longrightarrow> unat l < unat len"
  by (auto simp: within_def)

lemma within_length: "within k buf len b l \<Longrightarrow> unat len \<le> length buf \<Longrightarrow> unat l \<le> length b"
  by (auto simp: within_def)

text \<open>\<open>yields Q m\<close>: what a decoder returns on success beside the Ethernet header has the property \<open>Q\<close>.\<close>

definition yields :: "('e \<Rightarrow> 'a \<Rightarrow> bool) \<Rightarrow> ('e \<times> (protocol_error + 'a)) option \<Rightarrow> bool" where
  "yields Q m \<longleftrightarrow> (\<forall>e x. m = Some (e, Inr x) \<longrightarrow> Q e x)"

lemma yieldsD: "yields Q m \<Longrightarrow> m = Some (e, Inr x) \<Longrightarrow> Q e x"
  by (simp add: yields_def)

lemma yields_None: "yields Q None"
  by (simp add: yields_def)

lemma yields_Inl: "yields Q (Some (e, Inl x))"
  by (simp add: yields_def)

lemma yields_Inr: "Q e x \<Longrightarrow> yields Q (Some (e, Inr x))"
  by (simp add: yields_def)

lemma yields_if: "(b \<Longrightarrow> yields Q x) \<Longrightarrow> (\<not> b \<Longrightarrow> yields Q y) \<Longrightarrow> yields Q (if b then x else y)"
  by simp

lemma yields_bind: "(\<And>x. m = Some x \<Longrightarrow> yields Q (f x)) \<Longrightarrow> yields Q (m \<bind> f)"
  by (cases m) (simp_all add: yields_def)

lemma yields_Let: "yields Q (f x) \<Longrightarrow> yields Q (Let x f)"
  by simp

lemmas yields_intros = yields_None yields_Inl yields_Inr yields_if yields_bind yields_Let

lemma gives_and_then: "gives P m \<Longrightarrow> (\<And>x. P x \<Longrightarrow> gives Q (f x)) \<Longrightarrow> gives Q (and_then m f)"
  by (auto simp: gives_def and_then_def split: option.splits sum.splits)

lemma gives_prod: "(\<And>x y. p = (x, y) \<Longrightarrow> gives Q (f x y)) \<Longrightarrow> gives Q (case p of (x, y) \<Rightarrow> f x y)"
  by (cases p) simp

lemma udp_header_within: "gives (\<lambda>(_, b, l). within 8 buf len b l) (udp_header buf len sp_len)"
  unfolding udp_header_def by (intro gives_intros) (auto intro!: within_drop simp: runs_arith)

lemma ipv6_header_within: "yields (\<lambda>_ (_, b, l). within 40 buf len b l) (ipv6_header buf len sp_len eth)"
  unfolding ipv6_header_def by (intro yields_intros) (auto intro!: within_drop simp: runs_arith)

lemma ipv4_header_within: "yields (\<lambda>_ (_, b, l). within 20 buf len b l) (ipv4_header buf len sp_len eth)"
  unfolding ipv4_header_def by (intro yields_intros) (auto intro!: within_drop simp: runs_arith)

lemma pppoe_session_header_within: "gives (\<lambda>(_, b, l). within 8 buf len b l) (pppoe_session_header buf len sp_len)"
  unfolding pppoe_session_header_def by (intro gives_intros) (auto intro!: within_drop simp: runs_arith)

lemma qmx_li_header_within: "gives (\<lambda>(_, b, l). within 4 buf len b l) (qmx_li_header buf len sp_len)"
  unfolding qmx_li_header_def by (intro gives_intros) (auto intro!: within_drop simp: runs_arith)

lemma l2tp_flags_within: "gives (\<lambda>(_, b, l). within 2 buf len b l \<and> 2 \<le> unat l) (l2tp_flags buf len sp_len)"
  unfolding l2tp_flags_def by (intro gives_intros) (auto intro!: within_drop simp: runs_arith)

lemma l2tp_fields_within:
  "2 \<le> unat l \<Longrightarrow> gives (\<lambda>(_, b', l'). within 0 b l b' l') (l2tp_length_field (x, b, l))"
  "gives (\<lambda>(_, b', l'). within 0 b l b' l') (l2tp_id_fields (x, b, l))"
  "gives (\<lambda>(_, b', l'). within 0 b l b' l') (l2tp_sequence_fields (x, b, l))"
  "gives (\<lambda>(_, b', l'). within 0 b l b' l') (l2tp_offset_field (x, b, l))"
  "gives (\<lambda>(_, r). case r of None \<Rightarrow> True | Some (b', l') \<Rightarrow> within 0 b l b' l') (l2tp_body (x, b, l))"
proof -
  assume l: "2 \<le> unat l"
  show "gives (\<lambda>(_, b', l'). within 0 b l b' l') (l2tp_length_field (x, b, l))"
    unfolding l2tp_length_field_def prod.case
    by (intro gives_intros) (use l in \<open>auto intro!: within_drop within_refl simp: runs_arith\<close>)
next
  show "gives (\<lambda>(_, b', l'). within 0 b l b' l') (l2tp_id_fields (x, b, l))"
    unfolding l2tp_id_fields_def prod.case by (intro gives_intros) (auto intro!: within_drop simp: runs_arith)
next
  show "gives (\<lambda>(_, b', l'). within 0 b l b' l') (l2tp_sequence_fields (x, b, l))"
    unfolding l2tp_sequence_fields_def prod.case
    by (intro gives_intros) (auto intro!: within_drop within_refl simp: runs_arith)
next
  show "gives (\<lambda>(_, b', l'). within 0 b l b' l') (l2tp_offset_field (x, b, l))"
    unfolding l2tp_offset_field_def prod.case
    by (intro gives_intros) (auto intro!: within_drop within_refl simp: runs_arith)
next
  show "gives (\<lambda>(_, r). case r of None \<Rightarrow> True | Some (b', l') \<Rightarrow> within 0 b l b' l') (l2tp_body (x, b, l))"
    unfolding l2tp_body_def prod.case by (intro gives_intros) (auto intro!: within_drop simp: runs_arith)
qed

lemma l2tp_header_within:
  "gives (\<lambda>(_, r). case r of None \<Rightarrow> True | Some (b, l) \<Rightarrow> within 2 buf len b l) (l2tp_header buf len sp_len)"
proof -
  let ?W = "\<lambda>(_, b, l). within 2 buf len b l"
  have lift: "gives ?W (f (x, b, l))" if "gives (\<lambda>(_, b', l'). within 0 b l b' l') (f (x, b, l))" "within 2 buf len b l" for f x b l
    using that within_trans [OF that(2), of 0] by (auto simp: gives_def)
  have body: "gives (\<lambda>(_, r). case r of None \<Rightarrow> True | Some (b, l) \<Rightarrow> within 2 buf len b l) (l2tp_body (x, b, l))"
    if "within 2 buf len b l" for x b l
    using l2tp_fields_within(5) [of b l x] within_trans [OF that, of 0] by (fastforce simp: gives_def split: option.splits)
  show ?thesis
    unfolding l2tp_header_def
    by (rule gives_and_then gives_and_then [OF l2tp_flags_within] | clarify | rule lift l2tp_fields_within body | assumption)+
qed

lemma mpls_loop_within: "gives (\<lambda>(_, b, l, _). within 4 buf len b l) (mpls_loop buf len sp_len)"
proof (induction buf len sp_len rule: mpls_loop.induct)
  case (1 buf len sp_len)
  show ?case
  proof (subst mpls_loop.simps, unfold Let_def, intro gives_intros gives_prod)
    fix w b ttl r x ms rest
    assume h: "\<not> len < 5" "rd_be32 buf = Some w" "rd8 (drop 2 buf) = Some b" "rd8 (drop 3 buf) = Some ttl"
      "\<not> b AND 1 \<noteq> 0" "\<not> sp_len < 16" "mpls_loop (drop 4 buf) (len - 4) (sp_len - 16) = Some r" "r = Inr x" "x = (ms, rest)"
    have "within 4 buf len (drop 4 buf) (len - 4)" using h(1) by (auto intro!: within_drop simp: runs_arith)
    moreover obtain b' l' sp' where "rest = (b', l', sp')" by (cases rest)
    moreover from this 1 [OF h(1-4) refl h(5,6)] h(7-9) have "within 4 (drop 4 buf) (len - 4) b' l'" by (auto simp: gives_def)
    ultimately show "case (\<lparr>mpls_label = drop_bit 12 w, mpls_exp = drop_bit 1 b AND 7, mpls_ttl = ttl\<rparr> # ms, rest) of
        (_, b, l, _) \<Rightarrow> within 4 buf len b l"
      using within_trans within_mono by fastforce
  qed (auto intro!: within_drop simp: runs_arith)
qed

lemma eth_tags_within: "gives (\<lambda>(_, b, l). within 0 buf len b l) (eth_tags eth buf len)"
proof -
  have tag: "gives (\<lambda>_. within 0 b l (drop 4 b) (l - 4)) (eth_tag b l)" for b l
    unfolding eth_tag_def by (intro gives_intros) (auto intro!: within_drop simp: runs_arith)
  have step: "within 0 buf len b l \<Longrightarrow> within 0 b l b' l' \<Longrightarrow> within 0 buf len b' l'" for b l b' l'
    using within_trans [of 0 buf len b l 0] by simp
  show ?thesis
    unfolding eth_tags_def Let_def
    by (intro gives_intros gives_and_then [OF tag] gives_prod) (simp_all, (blast intro: within_refl step)+)
qed

lemma eth_labels_within: "gives (\<lambda>(_, b, l, _). within 0 buf len b l) (eth_labels eth buf len sp_len)"
  unfolding eth_labels_def Let_def
  by (intro gives_intros gives_and_then [OF mpls_loop_within] gives_prod) (auto simp: within_refl elim: within_mono)

lemma eth_header_within: "gives (\<lambda>(_, b, l, _). within 14 buf len b l) (eth_header buf len sp_len)"
proof -
  have first: "within 14 buf len (drop 14 buf) (len - 14)" if "\<not> len < 14" using that by (auto intro!: within_drop simp: runs_arith)
  have step: "within 14 buf len b l \<Longrightarrow> within 0 b l b' l' \<Longrightarrow> within 14 buf len b' l'" for b l b' l'
    using within_trans [of 14 buf len b l 0] by simp
  show ?thesis
    unfolding eth_header_def
    by (intro gives_intros gives_and_then [OF eth_tags_within] gives_and_then [OF eth_labels_within] gives_prod)
      (auto intro: step [OF step [OF first]])
qed

text \<open>So the recursion ends.\<close>

lemma header_less [termination_simp]:
  "udp_header buf len sp_len = Some (Inr (x, b, l)) \<Longrightarrow> unat l < unat len"
  "ipv6_header buf len sp_len eth = Some (eth', Inr (x6, b, l)) \<Longrightarrow> unat l < unat len"
  "ipv4_header buf len sp_len eth = Some (eth', Inr (x4, b, l)) \<Longrightarrow> unat l < unat len"
  "pppoe_session_header buf len sp_len = Some (Inr (xp, b, l)) \<Longrightarrow> unat l < unat len"
  "qmx_li_header buf len sp_len = Some (Inr (xq, b, l)) \<Longrightarrow> unat l < unat len"
  "l2tp_header buf len sp_len = Some (Inr (xl, Some (b, l))) \<Longrightarrow> unat l < unat len"
  "eth_header buf len sp_len = Some (Inr (xe, b, l, sp)) \<Longrightarrow> unat l < unat len"
  using udp_header_within [of buf len sp_len] ipv6_header_within [of buf len sp_len eth] ipv4_header_within [of buf len sp_len eth]
    pppoe_session_header_within [of buf len sp_len] qmx_li_header_within [of buf len sp_len] l2tp_header_within [of buf len sp_len]
    eth_header_within [of buf len sp_len]
  by (auto simp: gives_def yields_def dest: within_less)

lemma is_measure_unat [measure_function]: "is_measure (unat :: u16 \<Rightarrow> nat)"
  by (rule is_measure_trivial)

end
