(* ===== verification/Frame.thy ===== *)
theory Frame
  imports Frame_Header
begin

text \<open>
  The frame decoder of \<^verbatim>\<open>code/bngblaster/src/bbl_protocols.c\<close>: \<open>decode_ethernet\<close> and the
  decoders of the protocols that carry others, down to the leaves of the other codec theories. They
  are mutually recursive in C, as Ethernet frames are carried by UDP and IP packets by L2TP. The
  recursion always passes through \<open>decode_udp\<close>, so the decoders above it take the UDP decoder as an
  argument \<open>udp\<close>, and \<open>decode_udp\<close> is the recursive function that gives itself to them.
\<close>

section \<open>The decoders\<close>

type_synonym decoder = "u8 list \<Rightarrow> u16 \<Rightarrow> u16 \<Rightarrow> bbl_ethernet_header \<Rightarrow> (bbl_ethernet_header \<times> (protocol_error + layer list)) option"

definition ipv4_with :: "decoder \<Rightarrow> decoder" where
  "ipv4_with udp buf len sp_len eth =
     (case ipv4_header buf len sp_len eth of
        None \<Rightarrow> None
      | Some (eth, Inl e) \<Rightarrow> Some (eth, Inl e)
      | Some (eth, Inr (ipv4, buf, len)) \<Rightarrow>
          if ip4_fragment ipv4 then Some (eth, Inr [L_ipv4 (ip4_clear_protocol ipv4)])
          else on_top (L_ipv4 ipv4)
            (let sp_len = sp_len - 56 in
             if ip4_protocol ipv4 = 2 then leaf L_igmp (decode_igmp buf len sp_len) eth
             else if ip4_protocol ipv4 = 1 then leaf L_icmp (decode_icmp buf len sp_len) eth
             else if ip4_protocol ipv4 = 17 then udp buf len sp_len eth
             else if ip4_protocol ipv4 = 6 then decode_tcp buf len sp_len eth
             else if ip4_protocol ipv4 = 89 then leaf L_ospf (decode_ospf buf len sp_len) eth
             else Some (eth, Inr [])))"

definition ipv6_with :: "decoder \<Rightarrow> decoder" where
  "ipv6_with udp buf len sp_len eth =
     (case ipv6_header buf len sp_len eth of
        None \<Rightarrow> None
      | Some (eth, Inl e) \<Rightarrow> Some (eth, Inl e)
      | Some (eth, Inr (ipv6, buf, len)) \<Rightarrow>
          on_top (L_ipv6 ipv6)
            (let sp_len = sp_len - 56 in
             if ip6_protocol ipv6 = 58 then leaf L_icmpv6 (decode_icmpv6 buf len sp_len) eth
             else if ip6_protocol ipv6 = 17 then udp buf len sp_len eth
             else if ip6_protocol ipv6 = 6 then decode_tcp buf len sp_len eth
             else if ip6_protocol ipv6 = 89 then leaf L_ospf (decode_ospf buf len sp_len) eth
             else Some (eth, Inr [])))"

definition ppp_with :: "decoder \<Rightarrow> u16 \<Rightarrow> decoder" where
  "ppp_with udp protocol buf len sp_len eth =
     (if protocol = 0x0021 then ipv4_with udp buf len sp_len eth
      else if protocol = 0x0057 then ipv6_with udp buf len sp_len eth
      else decode_ppp protocol buf len sp_len eth)"

definition pppoe_session_with :: "decoder \<Rightarrow> decoder" where
  "pppoe_session_with udp buf len sp_len eth =
     (case pppoe_session_header buf len sp_len of
        None \<Rightarrow> None
      | Some (Inl e) \<Rightarrow> Some (eth, Inl e)
      | Some (Inr (pppoe, buf, len)) \<Rightarrow>
          on_top (L_pppoe_session pppoe) (ppp_with udp (pses_protocol pppoe) buf len (sp_len - 16) eth))"

definition l2tp_with :: "decoder \<Rightarrow> decoder" where
  "l2tp_with udp buf len sp_len eth =
     (case l2tp_header buf len sp_len of
        None \<Rightarrow> None
      | Some (Inl e) \<Rightarrow> Some (eth, Inl e)
      | Some (Inr (l2tp, None)) \<Rightarrow> Some (eth, Inr [L_l2tp l2tp])
      | Some (Inr (l2tp, Some (buf, len))) \<Rightarrow>
          on_top (L_l2tp l2tp) (ppp_with udp (l2tp_protocol l2tp) buf len (sp_len - 48) eth))"

definition eth_payload :: "decoder \<Rightarrow> decoder" where
  "eth_payload udp buf len sp_len eth =
     (if eth_type eth = 0x8864 then pppoe_session_with udp buf len sp_len eth
      else if eth_type eth = 0x8863 then leaf L_pppoe_discovery (decode_pppoe_discovery buf len sp_len) eth
      else if eth_type eth = 0x0806 then leaf L_arp (decode_arp buf len sp_len) eth
      else if eth_type eth = 0x0800 then ipv4_with udp buf len sp_len eth
      else if eth_type eth = 0x86dd then ipv6_with udp buf len sp_len eth
      else if eth_type eth = 0x8809 then leaf L_lacp (Option.bind (decode_lacp buf len sp_len) id) eth
      else if eth_type eth \<le> 1500 then eth_llc buf len sp_len eth
      else Some (eth, Inl UNKNOWN_PROTOCOL))"

definition ethernet_with :: "decoder \<Rightarrow> u8 list \<Rightarrow> u16 \<Rightarrow> u16 \<Rightarrow> layer list decoded" where
  "ethernet_with udp buf len sp_len =
     (case eth_header buf len sp_len of
        None \<Rightarrow> None
      | Some (Inl e) \<Rightarrow> Some (Inl e)
      | Some (Inr (eth, buf, len, sp_len)) \<Rightarrow>
          (case eth_payload udp buf len sp_len eth of
             None \<Rightarrow> None
           | Some (eth, Inl e) \<Rightarrow> Some (Inl e)
           | Some (eth, Inr ls) \<Rightarrow> Some (Inr (L_ethernet eth # ls))))"

definition qmx_li_with :: "decoder \<Rightarrow> decoder" where
  "qmx_li_with udp buf len sp_len eth =
     (case qmx_li_header buf len sp_len of
        None \<Rightarrow> None
      | Some (Inl e) \<Rightarrow> Some (eth, Inl e)
      | Some (Inr (qmx_li, buf, len)) \<Rightarrow>
          if qmx_packet_type qmx_li = 7 then
            (case ethernet_with udp buf len (sp_len - 40) of
               None \<Rightarrow> None
             | Some (Inl e) \<Rightarrow> Some (eth, Inr [L_qmx_li qmx_li])
             | Some (Inr ls) \<Rightarrow> Some (eth, Inr (L_qmx_li qmx_li # ls)))
          else Some (eth, Inr [L_qmx_li qmx_li]))"

text \<open>The switch over the destination port.\<close>

definition udp_port :: "decoder \<Rightarrow> bbl_udp \<Rightarrow> decoder" where
  "udp_port rec udp buf len sp_len eth =
     (let dst = udp_dst udp in
      if dst = 546 \<or> dst = 547 then leaf L_dhcpv6 (decode_dhcpv6 False buf len sp_len) eth
      else if dst = 65056 then bbl_leaf (decode_bbl buf len sp_len) eth
      else if dst = 1701 \<and> udp_src udp = 1701 then l2tp_with rec buf len sp_len eth
      else if dst = 68 \<or> dst = 67 then leaf L_dhcp (decode_dhcp buf len sp_len) eth
      else if dst = 49152 then qmx_li_with rec buf len sp_len eth
      else if dst = 646 \<and> udp_src udp = 646 then leaf L_ldp_hello (decode_ldp_hello buf len sp_len) eth
      else Some (eth, Inl UNKNOWN_PROTOCOL))"

definition udp_with :: "decoder \<Rightarrow> decoder" where
  "udp_with rec buf len sp_len eth =
     (case udp_header buf len sp_len of
        None \<Rightarrow> None
      | Some (Inl e) \<Rightarrow> Some (eth, Inl e)
      | Some (Inr (udp, buf, len)) \<Rightarrow>
          (let sp_len = sp_len - 24 in
           (case udp_port rec udp buf len sp_len eth of
              None \<Rightarrow> None
            | Some (eth, r) \<Rightarrow>
                if r = Inl UNKNOWN_PROTOCOL then
                  if udp_src udp = 49152 then on_top (L_udp (udp\<lparr>udp_protocol := 4\<rparr>)) (qmx_li_with rec buf len sp_len eth)
                  else udp_try_bbl udp (decode_bbl buf len sp_len) eth
                else on_top (L_udp (udp\<lparr>udp_protocol := udp_protocol_of (udp_dst udp)\<rparr>)) (Some (eth, r)))))"

subsection \<open>The recursion\<close>

text \<open>The decoders use the UDP decoder on shorter data only.\<close>

lemma ipv4_with_cong:
  assumes "\<And>b l s e. unat l < unat len \<Longrightarrow> u b l s e = v b l s e"
  shows "ipv4_with u buf len sp_len eth = ipv4_with v buf len sp_len eth"
  using assms [OF header_less(3)]
  by (cases "ipv4_header buf len sp_len eth") (auto simp: ipv4_with_def Let_def split: sum.split)

lemma ipv6_with_cong:
  assumes "\<And>b l s e. unat l < unat len \<Longrightarrow> u b l s e = v b l s e"
  shows "ipv6_with u buf len sp_len eth = ipv6_with v buf len sp_len eth"
  using assms [OF header_less(2)]
  by (cases "ipv6_header buf len sp_len eth") (auto simp: ipv6_with_def Let_def split: sum.split)

lemma ppp_with_cong:
  assumes "\<And>b l s e. unat l < unat len \<Longrightarrow> u b l s e = v b l s e"
  shows "ppp_with u p buf len sp_len eth = ppp_with v p buf len sp_len eth"
  using ipv4_with_cong [of len u v, OF assms] ipv6_with_cong [of len u v, OF assms] by (simp add: ppp_with_def)

lemma pppoe_session_with_cong:
  assumes "\<And>b l s e. unat l < unat len \<Longrightarrow> u b l s e = v b l s e"
  shows "pppoe_session_with u buf len sp_len eth = pppoe_session_with v buf len sp_len eth"
proof -
  have "ppp_with u p b l s e = ppp_with v p b l s e" if "pppoe_session_header buf len sp_len = Some (Inr (x, b, l))" for p x b l s e
    using header_less(4) [OF that] assms by (intro ppp_with_cong) (meson less_trans)
  then show ?thesis
    by (cases "pppoe_session_header buf len sp_len") (auto simp: pppoe_session_with_def split: sum.split)
qed

lemma l2tp_with_cong:
  assumes "\<And>b l s e. unat l < unat len \<Longrightarrow> u b l s e = v b l s e"
  shows "l2tp_with u buf len sp_len eth = l2tp_with v buf len sp_len eth"
proof -
  have "ppp_with u p b l s e = ppp_with v p b l s e" if "l2tp_header buf len sp_len = Some (Inr (x, Some (b, l)))" for p x b l s e
    using header_less(6) [OF that] assms by (intro ppp_with_cong) (meson less_trans)
  then show ?thesis
    by (cases "l2tp_header buf len sp_len") (auto simp: l2tp_with_def split: sum.split option.split)
qed

lemma ethernet_with_cong:
  assumes "\<And>b l s e. unat l < unat len \<Longrightarrow> u b l s e = v b l s e"
  shows "ethernet_with u buf len sp_len = ethernet_with v buf len sp_len"
proof -
  have "eth_payload u b l s e = eth_payload v b l s e" if "eth_header buf len sp_len = Some (Inr (x, b, l, y))" for x y b l s e
  proof -
    have less: "\<And>b' l' s e. unat l' < unat l \<Longrightarrow> u b' l' s e = v b' l' s e"
      using header_less(7) [OF that] assms by (meson less_trans)
    show ?thesis
      using ipv4_with_cong [of l u v, OF less] ipv6_with_cong [of l u v, OF less] pppoe_session_with_cong [of l u v, OF less]
      by (simp add: eth_payload_def)
  qed
  then show ?thesis
    by (cases "eth_header buf len sp_len") (auto simp: ethernet_with_def split: sum.split)
qed

lemma qmx_li_with_cong:
  assumes "\<And>b l s e. unat l < unat len \<Longrightarrow> u b l s e = v b l s e"
  shows "qmx_li_with u buf len sp_len eth = qmx_li_with v buf len sp_len eth"
proof -
  have "ethernet_with u b l s = ethernet_with v b l s" if "qmx_li_header buf len sp_len = Some (Inr (x, b, l))" for x b l s
    using header_less(5) [OF that] assms by (intro ethernet_with_cong) (meson less_trans)
  then show ?thesis
    by (cases "qmx_li_header buf len sp_len") (auto simp: qmx_li_with_def split: sum.split)
qed

lemma udp_with_cong [fundef_cong]:
  assumes "buf = buf'" "len = len'" "sp_len = sp_len'" "eth = eth'"
    and "\<And>b l s e. unat l < unat len' \<Longrightarrow> u b l s e = v b l s e"
  shows "udp_with u buf len sp_len eth = udp_with v buf' len' sp_len' eth'"
proof -
  have "udp_port u x b l s e = udp_port v x b l s e \<and> qmx_li_with u b l s e = qmx_li_with v b l s e"
    if "udp_header buf len sp_len = Some (Inr (y, b, l))" for x y b l s e
  proof -
    have less: "\<And>b' l' s e. unat l' < unat l \<Longrightarrow> u b' l' s e = v b' l' s e"
      using header_less(1) [OF that] assms(2,5) by (metis less_trans)
    show ?thesis
      using l2tp_with_cong [of l u v, OF less] qmx_li_with_cong [of l u v, OF less] by (simp add: udp_port_def Let_def)
  qed
  then show ?thesis unfolding assms(1-4) [symmetric]
    by (cases "udp_header buf len sp_len") (auto simp: udp_with_def Let_def split: sum.split option.split)
qed

function decode_udp :: decoder where
  "decode_udp buf len sp_len eth = udp_with decode_udp buf len sp_len eth"
  by pat_completeness auto
termination
  by (relation "measure (\<lambda>(_, len, _). unat len)") simp_all

declare decode_udp.simps [simp del]

definition decode_ipv4 :: decoder where
  "decode_ipv4 = ipv4_with decode_udp"

definition decode_ipv6 :: decoder where
  "decode_ipv6 = ipv6_with decode_udp"

definition decode_l2tp :: decoder where
  "decode_l2tp = l2tp_with decode_udp"

definition decode_pppoe_session :: decoder where
  "decode_pppoe_session = pppoe_session_with decode_udp"

definition decode_qmx_li :: decoder where
  "decode_qmx_li = qmx_li_with decode_udp"

definition decode_ethernet :: "u8 list \<Rightarrow> u16 \<Rightarrow> u16 \<Rightarrow> layer list decoded" where
  "decode_ethernet = ethernet_with decode_udp"


section \<open>Safety\<close>

lemma header_safe:
  assumes "unat len \<le> length buf"
  shows "runs P (udp_header buf len sp_len)" "runs P (ipv6_header buf len sp_len eth)" "runs P (ipv4_header buf len sp_len eth)"
    "runs P (pppoe_session_header buf len sp_len)" "runs P (qmx_li_header buf len sp_len)" "runs P (l2tp_flags buf len sp_len)"
    "runs P (eth_tag buf len)"
  unfolding udp_header_def ipv6_header_def ipv4_header_def pppoe_session_header_def qmx_li_header_def l2tp_flags_def eth_tag_def
  using assms by (intro runs_intros; (simp add: runs_arith del: length_greater_0_conv)?)+

lemma decode_bbl_safe:
  assumes "unat len \<le> length buf"
  shows "runs P (decode_bbl buf len sp_len)"
proof -
  have "runs P (bbl_tail b bbl)" if "24 \<le> length b" for b bbl
    unfolding bbl_tail_def using that by (intro runs_intros; simp)
  then show ?thesis
    unfolding decode_bbl_def
    using assms by (intro runs_intros; (simp add: runs_arith del: length_greater_0_conv)?)
qed

lemma decode_tcp_safe: "unat len \<le> length buf \<Longrightarrow> runs P (decode_tcp buf len sp_len eth)"
  unfolding decode_tcp_def
  by (intro runs_intros decode_bbl_safe; (simp add: runs_arith del: length_greater_0_conv)?)

lemma runs_and_then: "runs P m \<Longrightarrow> gives Q m \<Longrightarrow> (\<And>x. Q x \<Longrightarrow> runs P (f x)) \<Longrightarrow> runs P (and_then m f)"
  by (auto simp: runs_def gives_def and_then_def split: option.splits sum.splits)

lemma runs_prod: "(\<And>x y. p = (x, y) \<Longrightarrow> runs P (f x y)) \<Longrightarrow> runs P (case p of (x, y) \<Rightarrow> f x y)"
  by (cases p) simp

lemma runs_leaf: "runs P m \<Longrightarrow> runs P (leaf L m eth)" "runs P mb \<Longrightarrow> runs P (bbl_leaf mb eth)"
  "runs P mb \<Longrightarrow> runs P (udp_try_bbl udp mb eth)" "runs P mt \<Longrightarrow> runs P (on_top l mt)"
  by (auto simp: runs_def leaf_def bbl_leaf_def udp_try_bbl_def on_top_def split: option.splits sum.splits)

lemma l2tp_fields_safe:
  "2 \<le> unat l \<Longrightarrow> unat l \<le> length b \<Longrightarrow> runs P (l2tp_length_field (x, b, l))"
  "unat l \<le> length b \<Longrightarrow> runs P (l2tp_id_fields (x, b, l))"
  "unat l \<le> length b \<Longrightarrow> runs P (l2tp_sequence_fields (x, b, l))"
  "unat l \<le> length b \<Longrightarrow> runs P (l2tp_offset_field (x, b, l))"
  "unat l \<le> length b \<Longrightarrow> runs P (l2tp_body (x, b, l))"
  unfolding l2tp_length_field_def l2tp_id_fields_def l2tp_sequence_fields_def l2tp_offset_field_def l2tp_body_def prod.case
  by (intro runs_intros; (simp add: runs_arith del: length_greater_0_conv)?)+

lemma l2tp_header_safe:
  assumes "unat len \<le> length buf"
  shows "runs P (l2tp_header buf len sp_len)"
proof -
  let ?W = "\<lambda>(_, b, l). unat l \<le> length b"
  have flags: "gives (\<lambda>(x, b, l). unat l \<le> length b \<and> 2 \<le> unat l) (l2tp_flags buf len sp_len)"
    using l2tp_flags_within [of buf len sp_len] within_length [OF _ assms] by (fastforce simp: gives_def)
  have keep: "gives ?W (f (x, b, l))" if "gives (\<lambda>(_, b', l'). within 0 b l b' l') (f (x, b, l))" "unat l \<le> length b"
    for f :: "bbl_l2tp \<times> u8 list \<times> u16 \<Rightarrow> (bbl_l2tp \<times> u8 list \<times> u16) decoded" and x b l
    using that within_length [OF _ that(2)] by (fastforce simp: gives_def)
  have 1: "runs P (and_then (l2tp_flags buf len sp_len) l2tp_length_field)" "gives ?W (and_then (l2tp_flags buf len sp_len) l2tp_length_field)"
    by (rule runs_and_then [OF header_safe(6) [OF assms] flags] gives_and_then [OF flags], clarify,
        simp add: l2tp_fields_safe keep l2tp_fields_within)+
  have run: "runs P (and_then m f)" if "runs P m" "gives ?W m" "\<And>x b l. unat l \<le> length b \<Longrightarrow> runs P (f (x, b, l))"
    for m and f :: "bbl_l2tp \<times> u8 list \<times> u16 \<Rightarrow> (bbl_l2tp \<times> u8 list \<times> u16) decoded"
    by (rule runs_and_then [OF that(1,2)], clarify, rule that(3))
  have within: "gives ?W (and_then m g)" if "gives ?W m" "\<And>x b l. gives (\<lambda>(_, b', l'). within 0 b l b' l') (g (x, b, l))"
    for m and g :: "bbl_l2tp \<times> u8 list \<times> u16 \<Rightarrow> (bbl_l2tp \<times> u8 list \<times> u16) decoded"
    by (rule gives_and_then [OF that(1)], clarify, rule keep, rule that(2))
  let ?m1 = "and_then (l2tp_flags buf len sp_len) l2tp_length_field"
  let ?m2 = "and_then ?m1 l2tp_id_fields"
  let ?m3 = "and_then ?m2 l2tp_sequence_fields"
  let ?m4 = "and_then ?m3 l2tp_offset_field"
  have 2: "runs P ?m2" "gives ?W ?m2"
    by (rule run [OF 1], erule l2tp_fields_safe, rule within [OF 1(2)], rule l2tp_fields_within)
  have 3: "runs P ?m3" "gives ?W ?m3"
    by (rule run [OF 2], erule l2tp_fields_safe, rule within [OF 2(2)], rule l2tp_fields_within)
  have 4: "runs P ?m4" "gives ?W ?m4"
    by (rule run [OF 3], erule l2tp_fields_safe, rule within [OF 3(2)], rule l2tp_fields_within)
  show ?thesis
    unfolding l2tp_header_def by (rule runs_and_then [OF 4], clarify, rule l2tp_fields_safe(5))
qed

lemma mpls_loop_safe: "unat len \<le> length buf \<Longrightarrow> runs P (mpls_loop buf len sp_len)"
proof (induction buf len sp_len rule: mpls_loop.induct)
  case (1 buf len sp_len)
  show ?case
  proof (cases "len < 5")
    case False
    then have "4 \<le> length buf" "0 < length (drop 2 buf)" "0 < length (drop 3 buf)" and l: "unat (len - 4) \<le> length (drop 4 buf)"
      using 1(2) by (simp_all add: runs_arith)
    with rd_be32_ok rd8_ok obtain w b ttl where
      r: "rd_be32 buf = Some w" "rd8 (drop 2 buf) = Some b" "rd8 (drop 3 buf) = Some ttl" by metis
    have "runs P (mpls_loop (drop 4 buf) (len - 4) (sp_len - 16))" if "\<not> b AND 1 \<noteq> 0" "\<not> sp_len < 16"
      by (rule 1(1) [OF False r refl that l])
    then show ?thesis
      using False r by (subst mpls_loop.simps) (auto simp: runs_def Let_def split: option.splits sum.splits)
  qed (simp add: mpls_loop.simps)
qed

lemma mpls_loop_rest: "gives (\<lambda>(_, b, l, _). 0 < unat l) (mpls_loop buf len sp_len)"
proof (induction buf len sp_len rule: mpls_loop.induct)
  case (1 buf len sp_len)
  show ?case
  proof (subst mpls_loop.simps, unfold Let_def, intro gives_intros gives_prod)
    fix w b ttl r x ms rest
    assume h: "\<not> len < 5" "rd_be32 buf = Some w" "rd8 (drop 2 buf) = Some b" "rd8 (drop 3 buf) = Some ttl"
      "\<not> b AND 1 \<noteq> 0" "\<not> sp_len < 16" "mpls_loop (drop 4 buf) (len - 4) (sp_len - 16) = Some r" "r = Inr x" "x = (ms, rest)"
    from 1 [OF h(1-4) refl h(5,6)] h(7-9)
    show "case (\<lparr>mpls_label = drop_bit 12 w, mpls_exp = drop_bit 1 b AND 7, mpls_ttl = ttl\<rparr> # ms, rest) of
        (_, b, l, _) \<Rightarrow> 0 < unat l" by (auto simp: gives_def)
  qed (simp add: runs_arith)
qed

lemma eth_labels_safe:
  assumes "unat l \<le> length b"
  shows "runs P (eth_labels eth b l s)"
proof -
  have rest: "gives (\<lambda>(_, b', l', _). 1 \<le> length b') (mpls_loop b l (s - 16))"
    using mpls_loop_rest [of b l "s - 16"] mpls_loop_within [of b l "s - 16"] within_length [OF _ assms]
    by (fastforce simp: gives_def)
  show ?thesis
    unfolding eth_labels_def Let_def
    by (intro runs_if runs_Some runs_and_then [OF mpls_loop_safe [OF assms] rest] runs_prod runs_rd8) simp
qed

lemma eth_tags_safe:
  assumes "unat l \<le> length b"
  shows "runs P (eth_tags eth b l)"
proof -
  have tag: "gives (\<lambda>_. unat (m - 4) \<le> length c - 4) (eth_tag c m)" if "unat m \<le> length c" for c m
    unfolding eth_tag_def using that by (intro gives_intros) (auto simp: runs_arith)
  have step: "runs P (and_then (eth_tag c m) f)" if "unat m \<le> length c" "\<And>x. unat (m - 4) \<le> length (drop 4 c) \<Longrightarrow> runs P (f x)"
    for c m and f :: "_ \<Rightarrow> (bbl_ethernet_header \<times> u8 list \<times> u16) decoded"
    by (rule runs_and_then [OF header_safe(7) [OF that(1)] tag [OF that(1)]], rule that(2)) simp
  show ?thesis
    unfolding eth_tags_def Let_def
    by (intro runs_if runs_Some step assms runs_prod)
qed

lemma eth_header_safe:
  assumes "unat len \<le> length buf"
  shows "runs P (eth_header buf len sp_len)"
proof -
  have rest: "gives (\<lambda>(_, b, l). unat l \<le> length b) (eth_tags eth c m)" if "unat m \<le> length c" for eth c m
    using eth_tags_within [of c m eth] within_length [OF _ that] by (fastforce simp: gives_def)
  have step: "runs P (and_then (eth_tags eth c m) f)" if "unat m \<le> length c" "\<And>x b l. unat l \<le> length b \<Longrightarrow> runs P (f (x, b, l))"
    for eth c m and f :: "_ \<Rightarrow> (bbl_ethernet_header \<times> u8 list \<times> u16 \<times> u16) decoded"
    by (rule runs_and_then [OF eth_tags_safe [OF that(1)] rest [OF that(1)]]) (use that(2) in auto)
  have labels: "runs P (and_then (eth_labels eth c m s) (\<lambda>(eth, b, l, sp). Some (Inr (h eth, b, l, sp))))" if "unat m \<le> length c" for eth c m s h
    by (rule runs_and_then [OF eth_labels_safe [OF that], where Q = "\<lambda>_. True"]) (auto simp: gives_def)
  show ?thesis
    unfolding eth_header_def
    using assms by (intro runs_if_or runs_Some runs_reads step; (simp add: runs_arith labels del: length_greater_0_conv)?)
qed


text \<open>
  The decoders that can read behind the data they are given; \<open>decode_lacp\<close> can also run forever. All
  the others never do, and no decoder gives another more data than it got.
\<close>

definition leaf_over_read :: "u8 list \<Rightarrow> bool" where
  "leaf_over_read buf \<longleftrightarrow> (\<exists>n l s. n + unat l \<le> length buf \<and>
     (decode_igmp (drop n buf) l s = None \<or> decode_dhcp (drop n buf) l s = None \<or> decode_ldp_hello (drop n buf) l s = None \<or>
      decode_pppoe_discovery (drop n buf) l s = None \<or> decode_lacp (drop n buf) l s \<in> {None, Some None}))"

definition part :: "u8 list \<Rightarrow> u8 list \<Rightarrow> u16 \<Rightarrow> bool" where
  "part frame buf len \<longleftrightarrow> (\<exists>n. buf = drop n frame \<and> n + unat len \<le> length frame)"

lemma part_length: "part frame buf len \<Longrightarrow> unat len \<le> length buf"
  by (auto simp: part_def)

lemma part_within:
  assumes "part frame buf len" "within k buf len b l"
  shows "part frame b l"
proof -
  obtain m n where "buf = drop n frame" "n + unat len \<le> length frame" "b = drop m buf" "m + unat l \<le> unat len"
    using assms by (auto simp: part_def within_def)
  then show ?thesis unfolding part_def by (intro exI [of _ "n + m"]) (simp add: add.commute)
qed

lemma runs_risky_leaf:
  assumes "part frame b l"
  shows "runs (leaf_over_read frame) (decode_igmp b l s)" "runs (leaf_over_read frame) (decode_dhcp b l s)"
    "runs (leaf_over_read frame) (decode_ldp_hello b l s)" "runs (leaf_over_read frame) (decode_pppoe_discovery b l s)"
    "runs (leaf_over_read frame) (Option.bind (decode_lacp b l s) id)"
proof -
  obtain n where n: "b = drop n frame" "n + unat l \<le> length frame" using assms by (auto simp: part_def)
  have "leaf_over_read frame"
    if "decode_igmp b l s = None \<or> decode_dhcp b l s = None \<or> decode_ldp_hello b l s = None \<or>
      decode_pppoe_discovery b l s = None \<or> decode_lacp b l s \<in> {None, Some None}"
    using n that unfolding leaf_over_read_def by blast
  then show "runs (leaf_over_read frame) (decode_igmp b l s)" "runs (leaf_over_read frame) (decode_dhcp b l s)"
    "runs (leaf_over_read frame) (decode_ldp_hello b l s)" "runs (leaf_over_read frame) (decode_pppoe_discovery b l s)"
    "runs (leaf_over_read frame) (Option.bind (decode_lacp b l s) id)"
    by (cases "decode_lacp b l s"; simp add: runs_def)+
qed

lemma runs_safe_leaf:
  assumes "part frame b l"
  shows "runs (leaf_over_read frame) (decode_icmp b l s)" "runs (leaf_over_read frame) (decode_icmpv6 b l s)" "runs (leaf_over_read frame) (decode_ospf b l s)" "runs (leaf_over_read frame) (decode_arp b l s)"
    "runs (leaf_over_read frame) (decode_isis b l s)" "runs (leaf_over_read frame) (decode_dhcpv6 r b l s)" "runs (leaf_over_read frame) (decode_bbl b l s)" "runs (leaf_over_read frame) (decode_tcp b l s eth)"
  using part_length [OF assms]
  by (simp_all add: decode_icmp_safe decode_icmpv6_safe decode_ospf_safe decode_arp_safe decode_isis_safe decode_dhcpv6_safe
      decode_bbl_safe decode_tcp_safe)

lemma runs_ppp:
  assumes "part frame b l"
  shows "runs (leaf_over_read frame) (decode_ppp protocol b l s eth)"
proof -
  have "runs (leaf_over_read frame) (decode_ppp_lcp b l s)" "runs (leaf_over_read frame) (decode_ppp_ipcp b l s)" "runs (leaf_over_read frame) (decode_ppp_ip6cp b l s)"
    "runs (leaf_over_read frame) (decode_ppp_pap b l s)" "runs (leaf_over_read frame) (decode_ppp_chap b l s)"
    using part_length [OF assms]
    by (simp_all add: runs_def decode_ppp_lcp_safe decode_ppp_ipcp_safe decode_ppp_ip6cp_safe decode_ppp_pap_safe decode_ppp_chap_safe)
  then show ?thesis unfolding decode_ppp_def by (intro runs_if runs_leaf runs_Some)
qed

lemma runs_thread:
  "runs P m \<Longrightarrow> yields Q m \<Longrightarrow> (\<And>e x. Q e x \<Longrightarrow> runs P (g e x)) \<Longrightarrow>
   runs P (case m of None \<Rightarrow> None | Some (e, Inl x) \<Rightarrow> Some (e, Inl x) | Some (e, Inr x) \<Rightarrow> g e x)"
  by (auto simp: runs_def yields_def split: option.splits sum.splits)

lemma runs_decoded:
  "runs P m \<Longrightarrow> gives Q m \<Longrightarrow> (\<And>e. runs P (f e)) \<Longrightarrow> (\<And>x. Q x \<Longrightarrow> runs P (g x)) \<Longrightarrow>
   runs P (case m of None \<Rightarrow> None | Some (Inl e) \<Rightarrow> f e | Some (Inr x) \<Rightarrow> g x)"
  by (auto simp: runs_def gives_def split: option.splits sum.splits)

lemma runs_case_none: "runs P m \<Longrightarrow> (\<And>x. runs P (g x)) \<Longrightarrow> runs P (case m of None \<Rightarrow> None | Some x \<Rightarrow> g x)"
  by (auto simp: runs_def split: option.splits)

text \<open>A UDP decoder that is safe on parts of the frame shorter than \<open>len\<close>.\<close>

definition udp_ok :: "u8 list \<Rightarrow> u16 \<Rightarrow> decoder \<Rightarrow> bool" where
  "udp_ok frame len u \<longleftrightarrow> (\<forall>b l s e. unat l < unat len \<longrightarrow> part frame b l \<longrightarrow> runs (leaf_over_read frame) (u b l s e))"

lemma udp_okD: "udp_ok frame len u \<Longrightarrow> within k buf len b l \<Longrightarrow> 0 < k \<Longrightarrow> part frame b l \<Longrightarrow> runs (leaf_over_read frame) (u b l s e)"
  using within_less by (auto simp: udp_ok_def)

lemma udp_ok_within: "udp_ok frame len u \<Longrightarrow> within k buf len b l \<Longrightarrow> udp_ok frame l u"
  unfolding udp_ok_def within_def by (meson le_trans less_le_trans le_add2)

lemma ip_with_safe:
  assumes "part frame buf len" "udp_ok frame len u"
  shows "runs (leaf_over_read frame) (ipv4_with u buf len sp_len eth)" "runs (leaf_over_read frame) (ipv6_with u buf len sp_len eth)"
proof -
  show "runs (leaf_over_read frame) (ipv4_with u buf len sp_len eth)"
    unfolding ipv4_with_def Let_def
    by (rule runs_thread [OF header_safe(3) [OF part_length [OF assms(1)]] ipv4_header_within], clarify)
      (intro runs_if runs_Some runs_leaf runs_risky_leaf runs_safe_leaf udp_okD [OF assms(2) _ zero_less_numeral] part_within [OF assms(1)])
  show "runs (leaf_over_read frame) (ipv6_with u buf len sp_len eth)"
    unfolding ipv6_with_def Let_def
    by (rule runs_thread [OF header_safe(2) [OF part_length [OF assms(1)]] ipv6_header_within], clarify)
      (intro runs_if runs_Some runs_leaf runs_risky_leaf runs_safe_leaf udp_okD [OF assms(2) _ zero_less_numeral] part_within [OF assms(1)])
qed

lemma ppp_with_safe:
  assumes "part frame buf len" "udp_ok frame len u"
  shows "runs (leaf_over_read frame) (ppp_with u protocol buf len sp_len eth)"
  unfolding ppp_with_def by (intro runs_if ip_with_safe runs_ppp assms)

lemma pppoe_session_with_safe:
  assumes "part frame buf len" "udp_ok frame len u"
  shows "runs (leaf_over_read frame) (pppoe_session_with u buf len sp_len eth)"
  unfolding pppoe_session_with_def
  by (rule runs_decoded [OF header_safe(4) [OF part_length [OF assms(1)]] pppoe_session_header_within], rule runs_Some, clarify)
    (intro runs_leaf ppp_with_safe part_within [OF assms(1)] udp_ok_within [OF assms(2)])

lemma l2tp_with_safe:
  assumes "part frame buf len" "udp_ok frame len u"
  shows "runs (leaf_over_read frame) (l2tp_with u buf len sp_len eth)"
  unfolding l2tp_with_def
proof (rule runs_decoded [OF l2tp_header_safe [OF part_length [OF assms(1)]] l2tp_header_within], rule runs_Some, clarify)
  fix x r assume w: "case r of None \<Rightarrow> True | Some (b, l) \<Rightarrow> within 2 buf len b l"
  show "runs (leaf_over_read frame) (case r of None \<Rightarrow> Some (eth, Inr [L_l2tp x])
      | Some (b, l) \<Rightarrow> on_top (L_l2tp x) (ppp_with u (l2tp_protocol x) b l (sp_len - 48) eth))"
  proof (cases r)
    case (Some bl)
    obtain b l where "bl = (b, l)" by (cases bl)
    moreover from this Some w have "part frame b l" "udp_ok frame l u"
      using part_within [OF assms(1)] udp_ok_within [OF assms(2)] by auto
    ultimately show ?thesis using Some by (simp add: runs_leaf ppp_with_safe)
  qed simp
qed

lemma eth_payload_safe:
  assumes "part frame buf len" "udp_ok frame len u"
  shows "runs (leaf_over_read frame) (eth_payload u buf len sp_len eth)"
proof -
  have llc: "runs (leaf_over_read frame) (eth_llc buf len sp_len eth)"
  proof -
    have "within 3 buf len (drop 3 buf) (eth_type eth - 3)" if "\<not> eth_type eth > len" "\<not> eth_type eth < 3"
      using that by (auto intro!: within_drop simp: runs_arith)
    then have "runs (leaf_over_read frame) (decode_isis (drop 3 buf) (eth_type eth - 3) sp_len)"
      if "\<not> eth_type eth > len" "\<not> eth_type eth < 3"
      using that part_within [OF assms(1)] runs_safe_leaf(5) by blast
    then show ?thesis
      unfolding eth_llc_def Let_def using part_length [OF assms(1)]
      by (intro runs_if_or runs_Some runs_bind runs_if runs_leaf) (auto simp: runs_def reads_None_iff runs_arith)
  qed
  show ?thesis
    unfolding eth_payload_def
    by (intro runs_if runs_Some runs_leaf runs_risky_leaf runs_safe_leaf llc ip_with_safe pppoe_session_with_safe assms)
qed

lemma ethernet_with_safe:
  assumes "part frame buf len" "udp_ok frame len u"
  shows "runs (leaf_over_read frame) (ethernet_with u buf len sp_len)"
  unfolding ethernet_with_def
proof (rule runs_decoded [OF eth_header_safe [OF part_length [OF assms(1)]] eth_header_within], rule runs_Some, clarify)
  fix eth b l s assume "within 14 buf len b l"
  then have "runs (leaf_over_read frame) (eth_payload u b l s eth)"
    by (intro eth_payload_safe part_within [OF assms(1)] udp_ok_within [OF assms(2)])
  then show "runs (leaf_over_read frame) (case eth_payload u b l s eth of None \<Rightarrow> None | Some (eth, Inl e) \<Rightarrow> Some (Inl e)
      | Some (eth, Inr ls) \<Rightarrow> Some (Inr (L_ethernet eth # ls)))"
    by (auto simp: runs_def split: option.splits sum.splits)
qed

lemma qmx_li_with_safe:
  assumes "part frame buf len" "udp_ok frame len u"
  shows "runs (leaf_over_read frame) (qmx_li_with u buf len sp_len eth)"
  unfolding qmx_li_with_def
proof (rule runs_decoded [OF header_safe(5) [OF part_length [OF assms(1)]] qmx_li_header_within], rule runs_Some, clarify)
  fix x b l assume "within 4 buf len b l"
  then have "runs (leaf_over_read frame) (ethernet_with u b l (sp_len - 40))"
    by (intro ethernet_with_safe part_within [OF assms(1)] udp_ok_within [OF assms(2)])
  then show "runs (leaf_over_read frame) (if qmx_packet_type x = 7 then
      (case ethernet_with u b l (sp_len - 40) of None \<Rightarrow> None | Some (Inl e) \<Rightarrow> Some (eth, Inr [L_qmx_li x])
       | Some (Inr ls) \<Rightarrow> Some (eth, Inr (L_qmx_li x # ls))) else Some (eth, Inr [L_qmx_li x]))"
    by (auto simp: runs_def split: option.splits sum.splits)
qed

lemma udp_with_safe:
  assumes "part frame buf len" "udp_ok frame len u"
  shows "runs (leaf_over_read frame) (udp_with u buf len sp_len eth)"
  unfolding udp_with_def
proof (rule runs_decoded [OF header_safe(1) [OF part_length [OF assms(1)]] udp_header_within], rule runs_Some, clarify)
  fix x b l assume "within 8 buf len b l"
  then have p: "part frame b l" "udp_ok frame l u" by (rule part_within [OF assms(1)], rule udp_ok_within [OF assms(2)])
  have "runs (leaf_over_read frame) (udp_port u x b l (sp_len - 24) e)" for e
    unfolding udp_port_def Let_def
    by (intro runs_if runs_Some runs_leaf runs_risky_leaf runs_safe_leaf l2tp_with_safe qmx_li_with_safe p)
  moreover have "runs (leaf_over_read frame) (on_top y (qmx_li_with u b l (sp_len - 24) e))"
    "runs (leaf_over_read frame) (udp_try_bbl x (decode_bbl b l (sp_len - 24)) e)" for y e
    by (intro runs_leaf qmx_li_with_safe runs_safe_leaf p)+
  moreover have "runs (leaf_over_read frame) (on_top y (Some z))" for y z by (rule runs_leaf(4)) simp
  ultimately show "runs (leaf_over_read frame) (let sp_len = sp_len - 24 in
      (case udp_port u x b l sp_len eth of None \<Rightarrow> None
       | Some (eth, r) \<Rightarrow>
           if r = Inl UNKNOWN_PROTOCOL then
             if udp_src x = 49152 then on_top (L_udp (x\<lparr>udp_protocol := 4\<rparr>)) (qmx_li_with u b l sp_len eth)
             else udp_try_bbl x (decode_bbl b l sp_len) eth
           else on_top (L_udp (x\<lparr>udp_protocol := udp_protocol_of (udp_dst x)\<rparr>)) (Some (eth, r))))"
    unfolding Let_def by (intro runs_case_none runs_prod runs_if)
qed

lemma decode_udp_safe: "part frame buf len \<Longrightarrow> runs (leaf_over_read frame) (decode_udp buf len sp_len eth)"
proof (induction buf len sp_len eth rule: decode_udp.induct)
  case (1 buf len sp_len eth)
  then have "udp_ok frame len decode_udp" by (auto simp: udp_ok_def)
  then show ?case using udp_with_safe [OF 1(2)] by (simp add: decode_udp.simps [of buf])
qed

lemma decode_ethernet_runs: "unat len \<le> length buf \<Longrightarrow> runs (leaf_over_read buf) (decode_ethernet buf len sp_len)"
proof -
  assume "unat len \<le> length buf"
  then have "part buf buf len" unfolding part_def by (intro exI [of _ 0]) simp
  moreover have "udp_ok buf len decode_udp" by (simp add: udp_ok_def decode_udp_safe)
  ultimately show ?thesis unfolding decode_ethernet_def by (rule ethernet_with_safe)
qed

section \<open>Types\<close>

text \<open>
  The structure that \<open>next\<close> points to is not recorded: each user of a decoded frame casts it to the
  structure that the type and protocol members of the layer before stand for. \<open>tag\<close> is the structure
  of a layer, and \<open>next_types\<close> are those a layer's members allow for its \<open>next\<close>, with \<^term>\<open>None\<close> for NULL.
\<close>

datatype layer_type = T_ethernet_header | T_pppoe_session | T_pppoe_discovery | T_arp | T_lacp | T_isis
  | T_ipv4 | T_ipv6 | T_icmp | T_icmpv6 | T_igmp | T_ospf
  | T_tcp | T_udp | T_bbl | T_dhcp | T_dhcpv6 | T_ldp_hello
  | T_qmx_li | T_l2tp | T_lcp | T_ipcp | T_ip6cp | T_pap
  | T_chap | T_cfm | T_raw | T_pbuf

primrec tag :: "layer \<Rightarrow> layer_type" where
  "tag (L_ethernet _) = T_ethernet_header"
| "tag (L_pppoe_session _) = T_pppoe_session"
| "tag (L_pppoe_discovery _) = T_pppoe_discovery"
| "tag (L_arp _) = T_arp"
| "tag (L_lacp _) = T_lacp"
| "tag (L_isis _) = T_isis"
| "tag (L_ipv4 _) = T_ipv4"
| "tag (L_ipv6 _) = T_ipv6"
| "tag (L_icmp _) = T_icmp"
| "tag (L_icmpv6 _) = T_icmpv6"
| "tag (L_igmp _) = T_igmp"
| "tag (L_ospf _) = T_ospf"
| "tag (L_tcp _) = T_tcp"
| "tag (L_udp _) = T_udp"
| "tag (L_bbl _) = T_bbl"
| "tag (L_dhcp _) = T_dhcp"
| "tag (L_dhcpv6 _) = T_dhcpv6"
| "tag (L_ldp_hello _) = T_ldp_hello"
| "tag (L_qmx_li _) = T_qmx_li"
| "tag (L_l2tp _) = T_l2tp"
| "tag (L_lcp _) = T_lcp"
| "tag (L_ipcp _) = T_ipcp"
| "tag (L_ip6cp _) = T_ip6cp"
| "tag (L_pap _) = T_pap"
| "tag (L_chap _) = T_chap"
| "tag (L_cfm _) = T_cfm"
| "tag (L_raw _) = T_raw"
| "tag (L_pbuf _) = T_pbuf"

definition ppp_types :: "u16 \<Rightarrow> layer_type option list" where
  "ppp_types protocol =
     (if protocol = 0x0021 then [Some T_ipv4] else if protocol = 0x0057 then [Some T_ipv6]
      else if protocol = 0xc021 then [Some T_lcp] else if protocol = 0x8021 then [Some T_ipcp]
      else if protocol = 0x8057 then [Some T_ip6cp] else if protocol = 0xc023 then [Some T_pap]
      else if protocol = 0xc223 then [Some T_chap] else [])"

fun next_types :: "layer \<Rightarrow> layer_type option list" where
  "next_types (L_ethernet eth) =
     (if eth_type eth = 0x8864 then [Some T_pppoe_session] else if eth_type eth = 0x8863 then [Some T_pppoe_discovery]
      else if eth_type eth = 0x0806 then [Some T_arp] else if eth_type eth = 0x0800 then [Some T_ipv4]
      else if eth_type eth = 0x86dd then [Some T_ipv6] else if eth_type eth = 0x8809 then [Some T_lacp]
      else if eth_type eth = 0x83 then [Some T_isis] else [])"
| "next_types (L_pppoe_session pppoe) = ppp_types (pses_protocol pppoe)"
| "next_types (L_ipv4 ipv4) =
     (if ip4_fragment ipv4 then [None]
      else if ip4_protocol ipv4 = 2 then [Some T_igmp] else if ip4_protocol ipv4 = 1 then [Some T_icmp]
      else if ip4_protocol ipv4 = 17 then [Some T_udp] else if ip4_protocol ipv4 = 6 then [Some T_tcp]
      else if ip4_protocol ipv4 = 89 then [Some T_ospf] else [None])"
| "next_types (L_ipv6 ipv6) =
     (if ip6_protocol ipv6 = 58 then [Some T_icmpv6] else if ip6_protocol ipv6 = 17 then [Some T_udp]
      else if ip6_protocol ipv6 = 6 then [Some T_tcp] else if ip6_protocol ipv6 = 89 then [Some T_ospf] else [None])"
| "next_types (L_udp udp) =
     (if udp_protocol udp = 1 then [Some T_dhcpv6] else if udp_protocol udp = 2 then [Some T_bbl]
      else if udp_protocol udp = 3 then [Some T_l2tp] else if udp_protocol udp = 4 then [Some T_qmx_li]
      else if udp_protocol udp = 5 then [Some T_dhcp] else if udp_protocol udp = 6 then [Some T_ldp_hello] else [None])"
| "next_types (L_l2tp l2tp) = (if l2tp_type l2tp = 0 \<and> l2tp_protocol l2tp \<noteq> 0 then ppp_types (l2tp_protocol l2tp) else [None])"
| "next_types (L_qmx_li qmx) = (if qmx_packet_type qmx = 7 then [None, Some T_ethernet_header] else [None])"
| "next_types _ = [None]"

definition first_tag :: "layer list \<Rightarrow> layer_type option" where
  "first_tag ls = (case ls of [] \<Rightarrow> None | l # _ \<Rightarrow> Some (tag l))"

fun well_typed :: "layer list \<Rightarrow> bool" where
  "well_typed [] = True"
| "well_typed (l # ls) = (first_tag ls \<in> set (next_types l) \<and> well_typed ls)"

text \<open>The type of the frame stays the same, also on an error.\<close>

definition keeps_type :: "bbl_ethernet_header \<Rightarrow> (bbl_ethernet_header \<times> 'r) option \<Rightarrow> bool" where
  "keeps_type eth m \<longleftrightarrow> (\<forall>e r. m = Some (e, r) \<longrightarrow> eth_type e = eth_type eth)"

lemma keeps_type_Some: "eth_type e = eth_type eth \<Longrightarrow> keeps_type eth (Some (e, r))"
  by (simp add: keeps_type_def)

lemma keeps_type_if: "(b \<Longrightarrow> keeps_type eth x) \<Longrightarrow> (\<not> b \<Longrightarrow> keeps_type eth y) \<Longrightarrow> keeps_type eth (if b then x else y)"
  by simp

lemma keeps_type_bind: "(\<And>x. m = Some x \<Longrightarrow> keeps_type eth (f x)) \<Longrightarrow> keeps_type eth (m \<bind> f)"
  by (cases m) (simp_all add: keeps_type_def)

lemma keeps_type_Let: "keeps_type eth (f x) \<Longrightarrow> keeps_type eth (Let x f)"
  by simp

lemmas keeps_type_intros = keeps_type_Some keeps_type_if keeps_type_bind keeps_type_Let

text \<open>Success with well-typed layers, the first of one of the types \<open>K\<close>.\<close>

definition carries :: "layer_type option list \<Rightarrow> bbl_ethernet_header \<Rightarrow> (bbl_ethernet_header \<times> (protocol_error + layer list)) option \<Rightarrow> bool" where
  "carries K eth m \<longleftrightarrow> keeps_type eth m \<and> yields (\<lambda>_ ls. well_typed ls \<and> first_tag ls \<in> set K) m"

lemma carries_leaf:
  assumes "\<And>x. next_types (L x) = [None]" "\<And>x. tag (L x) = t"
  shows "carries [Some t] eth (leaf L m eth)"
  using assms by (auto simp: carries_def keeps_type_def yields_def leaf_def first_tag_def split: option.splits sum.splits)

lemmas carries_leaves = carries_leaf [of L_pppoe_discovery T_pppoe_discovery, simplified] carries_leaf [of L_arp T_arp, simplified]
  carries_leaf [of L_lacp T_lacp, simplified] carries_leaf [of L_isis T_isis, simplified] carries_leaf [of L_icmp T_icmp, simplified]
  carries_leaf [of L_icmpv6 T_icmpv6, simplified] carries_leaf [of L_igmp T_igmp, simplified] carries_leaf [of L_ospf T_ospf, simplified]
  carries_leaf [of L_dhcp T_dhcp, simplified] carries_leaf [of L_dhcpv6 T_dhcpv6, simplified]
  carries_leaf [of L_ldp_hello T_ldp_hello, simplified] carries_leaf [of L_lcp T_lcp, simplified] carries_leaf [of L_ipcp T_ipcp, simplified]
  carries_leaf [of L_ip6cp T_ip6cp, simplified] carries_leaf [of L_pap T_pap, simplified] carries_leaf [of L_chap T_chap, simplified]

lemma carries_bbl: "carries [Some T_bbl] eth (bbl_leaf m eth)"
  by (auto simp: carries_def keeps_type_def yields_def bbl_leaf_def first_tag_def split: option.splits sum.splits)

lemma carries_Inl: "eth_type eth' = eth_type eth \<Longrightarrow> carries K eth (Some (eth', Inl e))"
  by (simp add: carries_def keeps_type_def yields_def)

lemma carries_None: "carries K eth None"
  by (simp add: carries_def keeps_type_def yields_def)

lemma carries_on_top: "carries (next_types l) eth m \<Longrightarrow> tag l = t \<Longrightarrow> carries [Some t] eth (on_top l m)"
proof (cases m)
  case (Some r)
  assume "carries (next_types l) eth m" "tag l = t"
  then show ?thesis using Some by (cases r, cases "snd r") (simp_all add: carries_def keeps_type_def yields_def on_top_def first_tag_def)
qed (simp add: on_top_def carries_None)

lemma carries_Nil: "carries [None] eth (Some (eth, Inr []))"
  by (simp add: carries_def keeps_type_def yields_def first_tag_def)

lemma carries_eth: "eth_type e = eth_type eth \<Longrightarrow> carries K e m \<Longrightarrow> carries K eth m"
  by (simp add: carries_def keeps_type_def)

lemma carries_tcp: "carries [Some T_tcp] eth (decode_tcp buf len sp_len eth)"
  unfolding carries_def decode_tcp_def Let_def
  by (intro conjI keeps_type_intros yields_intros) (auto simp: first_tag_def split: sum.split)

lemma carries_try_bbl: "carries [Some T_udp] eth (udp_try_bbl udp m eth)"
  by (auto simp: carries_def keeps_type_def yields_def udp_try_bbl_def first_tag_def split: option.splits sum.splits)

lemma carries_ppp:
  assumes "protocol \<noteq> 0x0021" "protocol \<noteq> 0x0057"
  shows "carries (ppp_types protocol) eth (decode_ppp protocol buf len sp_len eth)"
  using assms by (simp add: decode_ppp_def ppp_types_def carries_Inl carries_leaves)

lemma ip_header_type:
  "keeps_type eth (ipv4_header buf len sp_len eth)" "keeps_type eth (ipv6_header buf len sp_len eth)"
  unfolding ipv4_header_def ipv6_header_def by (intro keeps_type_intros; simp)+

definition udp_typed :: "u16 \<Rightarrow> decoder \<Rightarrow> bool" where
  "udp_typed len u \<longleftrightarrow> (\<forall>b l s e. unat l < unat len \<longrightarrow> carries [Some T_udp] e (u b l s e))"

lemma udp_typed_less: "udp_typed len u \<Longrightarrow> unat l \<le> unat len \<Longrightarrow> udp_typed l u"
  by (auto simp: udp_typed_def)

lemma ipv4_with_typed:
  assumes "udp_typed len u"
  shows "carries [Some T_ipv4] eth (ipv4_with u buf len sp_len eth)"
proof (cases "ipv4_header buf len sp_len eth")
  case (Some r)
  obtain e x where r: "r = (e, x)" by (cases r)
  have e: "eth_type e = eth_type eth" using ip_header_type(1) [of eth buf len sp_len] Some r by (simp add: keeps_type_def)
  show ?thesis
  proof (cases x)
    case (Inr y)
    obtain ip b l where y: "y = (ip, b, l)" by (cases y)
    have h: "ipv4_header buf len sp_len eth = Some (e, Inr (ip, b, l))" using Some r Inr y by simp
    have u: "carries [Some T_udp] e (u b l s e)" for s
      using assms header_less(3) [OF h] by (simp add: udp_typed_def)
    have "carries [Some T_ipv4] e (if ip4_fragment ip then Some (e, Inr [L_ipv4 (ip4_clear_protocol ip)])
          else on_top (L_ipv4 ip) (let sp_len = sp_len - 56 in
             if ip4_protocol ip = 2 then leaf L_igmp (decode_igmp b l sp_len) e
             else if ip4_protocol ip = 1 then leaf L_icmp (decode_icmp b l sp_len) e
             else if ip4_protocol ip = 17 then u b l sp_len e
             else if ip4_protocol ip = 6 then decode_tcp b l sp_len e
             else if ip4_protocol ip = 89 then leaf L_ospf (decode_ospf b l sp_len) e
             else Some (e, Inr [])))"
    proof (cases "ip4_fragment ip")
      case True
      then have "ip4_fragment (ip4_clear_protocol ip)" by (simp add: ip4_fragment_def ip4_clear_protocol_def)
      then show ?thesis using True by (simp add: carries_def keeps_type_def yields_def first_tag_def)
    next
      case False
      then show ?thesis unfolding if_not_P [OF False]
        by (intro carries_on_top) (simp_all add: Let_def carries_tcp carries_Nil u carries_leaves)
    qed
    then show ?thesis unfolding ipv4_with_def h by (simp add: carries_eth [OF e])
  qed (use Some r e in \<open>simp add: ipv4_with_def carries_Inl\<close>)
qed (simp add: ipv4_with_def carries_None)

lemma ipv6_with_typed:
  assumes "udp_typed len u"
  shows "carries [Some T_ipv6] eth (ipv6_with u buf len sp_len eth)"
proof (cases "ipv6_header buf len sp_len eth")
  case (Some r)
  obtain e x where r: "r = (e, x)" by (cases r)
  have e: "eth_type e = eth_type eth" using ip_header_type(2) [of eth buf len sp_len] Some r by (simp add: keeps_type_def)
  show ?thesis
  proof (cases x)
    case (Inr y)
    obtain ip b l where y: "y = (ip, b, l)" by (cases y)
    have h: "ipv6_header buf len sp_len eth = Some (e, Inr (ip, b, l))" using Some r Inr y by simp
    have u: "carries [Some T_udp] e (u b l s e)" for s
      using assms header_less(2) [OF h] by (simp add: udp_typed_def)
    have "carries [Some T_ipv6] e (on_top (L_ipv6 ip) (let sp_len = sp_len - 56 in
             if ip6_protocol ip = 58 then leaf L_icmpv6 (decode_icmpv6 b l sp_len) e
             else if ip6_protocol ip = 17 then u b l sp_len e
             else if ip6_protocol ip = 6 then decode_tcp b l sp_len e
             else if ip6_protocol ip = 89 then leaf L_ospf (decode_ospf b l sp_len) e
             else Some (e, Inr [])))"
      by (intro carries_on_top) (simp_all add: Let_def carries_tcp carries_Nil u carries_leaves)
    then show ?thesis unfolding ipv6_with_def h by (simp add: carries_eth [OF e])
  qed (use Some r e in \<open>simp add: ipv6_with_def carries_Inl\<close>)
qed (simp add: ipv6_with_def carries_None)

lemma ppp_with_typed:
  assumes "udp_typed len u"
  shows "carries (ppp_types protocol) eth (ppp_with u protocol buf len sp_len eth)"
  using ipv4_with_typed [OF assms] ipv6_with_typed [OF assms] carries_ppp by (simp add: ppp_with_def ppp_types_def)

lemma pppoe_session_with_typed:
  assumes "udp_typed len u"
  shows "carries [Some T_pppoe_session] eth (pppoe_session_with u buf len sp_len eth)"
proof -
  have "carries [Some T_pppoe_session] eth (on_top (L_pppoe_session x) (ppp_with u (pses_protocol x) b l s eth))"
    if "pppoe_session_header buf len sp_len = Some (Inr (x, b, l))" for x b l s
    using ppp_with_typed [OF udp_typed_less [OF assms]] header_less(4) [OF that] by (intro carries_on_top) simp_all
  then show ?thesis
    unfolding pppoe_session_with_def by (auto simp: carries_None carries_Inl split: option.split sum.split)
qed

lemma l2tp_header_kind:
  "gives (\<lambda>(l2tp, r). if r = None then l2tp_protocol l2tp = 0 else l2tp_type l2tp = 0) (l2tp_header buf len sp_len)"
proof -
  let ?Z = "\<lambda>(l2tp, b, l). l2tp_protocol l2tp = 0"
  have flags: "gives ?Z (l2tp_flags buf len sp_len)"
    unfolding l2tp_flags_def Let_def by (intro gives_intros) (simp_all add: zero_l2tp_def)
  have fields: "gives ?Z (l2tp_length_field (x, b, l))" "gives ?Z (l2tp_id_fields (x, b, l))"
    "gives ?Z (l2tp_sequence_fields (x, b, l))" "gives ?Z (l2tp_offset_field (x, b, l))" if "l2tp_protocol x = 0" for x b l
    unfolding l2tp_length_field_def l2tp_id_fields_def l2tp_sequence_fields_def l2tp_offset_field_def prod.case Let_def
    by (intro gives_intros; simp add: that)+
  have body: "gives (\<lambda>(l2tp, r). if r = None then l2tp_protocol l2tp = 0 else l2tp_type l2tp = 0) (l2tp_body (x, b, l))"
    if "l2tp_protocol x = 0" for x b l
    unfolding l2tp_body_def prod.case Let_def by (intro gives_intros; simp add: that)
  show ?thesis
    unfolding l2tp_header_def
    by (rule gives_and_then [where P = ?Z], rule gives_and_then [where P = ?Z], rule gives_and_then [where P = ?Z],
        rule gives_and_then [where P = ?Z], rule gives_and_then [where P = ?Z], rule flags; clarify; intro fields body; assumption)
qed

lemma l2tp_with_typed:
  assumes "udp_typed len u"
  shows "carries [Some T_l2tp] eth (l2tp_with u buf len sp_len eth)"
proof -
  have data: "carries [Some T_l2tp] eth (on_top (L_l2tp x) (ppp_with u (l2tp_protocol x) b l s eth))"
    if "l2tp_header buf len sp_len = Some (Inr (x, Some (b, l)))" for x b l s
  proof (rule carries_on_top)
    have "udp_typed l u" using udp_typed_less [OF assms] header_less(6) [OF that] by simp
    moreover have "l2tp_type x = 0" using givesD [OF l2tp_header_kind that] by simp
    moreover have "carries [None] eth (ppp_with u 0 b l s eth)"
      by (simp add: ppp_with_def decode_ppp_def carries_Inl)
    ultimately show "carries (next_types (L_l2tp x)) eth (ppp_with u (l2tp_protocol x) b l s eth)"
      using ppp_with_typed by simp
  qed simp
  have control: "carries [Some T_l2tp] eth (Some (eth, Inr [L_l2tp x]))" if "l2tp_header buf len sp_len = Some (Inr (x, None))" for x
    using givesD [OF l2tp_header_kind that] by (simp add: carries_def keeps_type_def yields_def first_tag_def)
  show ?thesis
    unfolding l2tp_with_def using data control by (auto simp: carries_None carries_Inl split: option.split sum.split)
qed

lemma eth_llc_typed: "yields (\<lambda>e ls. well_typed (L_ethernet e # ls)) (eth_llc buf len sp_len eth)"
  unfolding eth_llc_def Let_def leaf_def
  by (intro yields_intros) (auto simp: yields_def first_tag_def split: option.splits sum.splits)

lemma eth_payload_typed:
  assumes "udp_typed len u"
  shows "yields (\<lambda>e ls. well_typed (L_ethernet e # ls)) (eth_payload u buf len sp_len eth)"
proof -
  have next_eq: "next_types (L_ethernet e) = next_types (L_ethernet eth)" if "eth_type e = eth_type eth" for e
    using that by simp
  have lift: "yields (\<lambda>e ls. well_typed (L_ethernet e # ls)) m" if "carries (next_types (L_ethernet eth)) eth m" for m
    using that next_eq unfolding carries_def keeps_type_def yields_def well_typed.simps by metis
  show ?thesis
    unfolding eth_payload_def
    by (intro yields_if yields_Inl eth_llc_typed lift)
      (simp_all add: carries_leaves ipv4_with_typed [OF assms] ipv6_with_typed [OF assms] pppoe_session_with_typed [OF assms])
qed

lemma ethernet_with_typed:
  assumes "udp_typed len u"
  shows "gives (\<lambda>ls. well_typed ls \<and> first_tag ls = Some T_ethernet_header) (ethernet_with u buf len sp_len)"
proof -
  have "gives (\<lambda>ls. well_typed ls \<and> first_tag ls = Some T_ethernet_header)
      (case eth_payload u b l s e of None \<Rightarrow> None | Some (e, Inl x) \<Rightarrow> Some (Inl x) | Some (e, Inr ls) \<Rightarrow> Some (Inr (L_ethernet e # ls)))"
    if "eth_header buf len sp_len = Some (Inr (e, b, l, s))" for e b l s
    using eth_payload_typed [OF udp_typed_less [OF assms], of l b s e] header_less(7) [OF that]
    by (auto simp: gives_def yields_def first_tag_def split: option.splits sum.splits)
  then show ?thesis
    unfolding ethernet_with_def by (auto simp: gives_None gives_Inl split: option.split sum.split)
qed

lemma qmx_li_with_typed:
  assumes "udp_typed len u"
  shows "carries [Some T_qmx_li] eth (qmx_li_with u buf len sp_len eth)"
proof -
  have "carries [Some T_qmx_li] eth (if qmx_packet_type x = 7 then
      (case ethernet_with u b l s of None \<Rightarrow> None | Some (Inl e) \<Rightarrow> Some (eth, Inr [L_qmx_li x])
       | Some (Inr ls) \<Rightarrow> Some (eth, Inr (L_qmx_li x # ls))) else Some (eth, Inr [L_qmx_li x]))"
    if "qmx_li_header buf len sp_len = Some (Inr (x, b, l))" for x b l s
    using ethernet_with_typed [OF udp_typed_less [OF assms], of l b s] header_less(5) [OF that]
    by (auto simp: carries_def keeps_type_def gives_def yields_def first_tag_def split: option.splits sum.splits)
  then show ?thesis
    unfolding qmx_li_with_def by (auto simp: carries_None carries_Inl split: option.split sum.split)
qed

lemma udp_port_typed:
  assumes "udp_typed len u"
  shows "carries (next_types (L_udp (x\<lparr>udp_protocol := udp_protocol_of (udp_dst x)\<rparr>))) eth (udp_port u x buf len sp_len eth)"
  unfolding udp_port_def Let_def
  by (simp add: udp_protocol_of_def carries_leaves carries_bbl carries_Inl l2tp_with_typed [OF assms] qmx_li_with_typed [OF assms])

lemma udp_with_typed:
  assumes "udp_typed len u"
  shows "carries [Some T_udp] eth (udp_with u buf len sp_len eth)"
proof -
  have "carries [Some T_udp] eth (case udp_port u x b l s eth of None \<Rightarrow> None
       | Some (eth, r) \<Rightarrow>
           if r = Inl UNKNOWN_PROTOCOL then
             if udp_src x = 49152 then on_top (L_udp (x\<lparr>udp_protocol := 4\<rparr>)) (qmx_li_with u b l s eth)
             else udp_try_bbl x (decode_bbl b l s) eth
           else on_top (L_udp (x\<lparr>udp_protocol := udp_protocol_of (udp_dst x)\<rparr>)) (Some (eth, r)))"
    if "udp_header buf len sp_len = Some (Inr (x, b, l))" for x b l s
  proof (cases "udp_port u x b l s eth")
    case (Some er)
    obtain e r where er: "er = (e, r)" by (cases er)
    have u: "udp_typed l u" using udp_typed_less [OF assms] header_less(1) [OF that] by simp
    have port: "carries (next_types (L_udp (x\<lparr>udp_protocol := udp_protocol_of (udp_dst x)\<rparr>))) eth (Some (e, r))"
      using udp_port_typed [OF u, of x eth b s] Some er by simp
    then have e: "eth_type e = eth_type eth" by (simp add: carries_def keeps_type_def)
    have "carries [Some T_udp] eth (on_top (L_udp (x\<lparr>udp_protocol := udp_protocol_of (udp_dst x)\<rparr>)) (Some (e, r)))"
      by (rule carries_on_top [OF port]) simp
    moreover have "carries [Some T_udp] eth (on_top (L_udp (x\<lparr>udp_protocol := 4\<rparr>)) (qmx_li_with u b l s e))"
      by (rule carries_on_top) (simp_all add: carries_eth [OF e] qmx_li_with_typed [OF u])
    moreover have "carries [Some T_udp] eth (udp_try_bbl x (decode_bbl b l s) e)"
      by (rule carries_eth [OF e carries_try_bbl])
    ultimately show ?thesis using Some er by simp
  qed (simp add: carries_None)
  then show ?thesis
    unfolding udp_with_def Let_def
    by (cases "udp_header buf len sp_len"; cases "the (udp_header buf len sp_len)") (auto simp only: carries_None carries_Inl option.case sum.case option.sel prod.case)
qed

lemma decode_udp_typed: "carries [Some T_udp] eth (decode_udp buf len sp_len eth)"
proof (induction buf len sp_len eth rule: decode_udp.induct)
  case (1 buf len sp_len eth)
  then have "udp_typed len decode_udp" by (auto simp: udp_typed_def)
  then show ?case using udp_with_typed by (simp add: decode_udp.simps [of buf])
qed

lemma decode_ethernet_typed:
  "gives (\<lambda>ls. well_typed ls \<and> first_tag ls = Some T_ethernet_header) (decode_ethernet buf len sp_len)"
  unfolding decode_ethernet_def by (rule ethernet_with_typed) (simp add: udp_typed_def decode_udp_typed)

section \<open>Properties\<close>

definition example_frame :: "u8 list" where
  "example_frame = [2, 0, 0, 0, 0, 1, 2, 0, 0, 0, 0, 2, 8, 0, 0x45, 0, 0, 20, 0, 0, 0, 0, 64, 253, 0, 0, 10, 0, 0, 1, 10, 0, 0, 2]"



text \<open>
  C38. The layers of every frame that is accepted are well typed: each \<open>next\<close> pointer is NULL or points
  to the structure that the type or protocol member of its layer stands for, so that the casts of the
  handlers, which go by these members, are right.
\<close>

theorem decode_ethernet_well_typed:
  assumes "decode_ethernet buf len sp_len = Some (Inr ls)"
  shows "well_typed ls \<and> first_tag ls = Some T_ethernet_header"
  by (rule givesD [OF decode_ethernet_typed assms])

theorem decode_ethernet_well_typed_witness:
  "\<exists>ls. decode_ethernet example_frame 34 4096 = Some (Inr ls) \<and> length ls = 2 \<and> well_typed ls"
proof -
  have "case decode_ethernet example_frame 34 4096 of Some (Inr ls) \<Rightarrow> length ls = 2 | _ \<Rightarrow> False"
    by code_simp
  then show ?thesis
    using decode_ethernet_well_typed [of example_frame 34 4096] by (auto split: option.splits sum.splits)
qed

end
