(* ===== verification/Frame_Encode.thy ===== *)
theory Frame_Encode
  imports Frame Inet_Checksum
begin

text \<open>
  The frame encoder of \<^verbatim>\<open>code/bngblaster/src/bbl_protocols.c\<close>: \<open>encode_ethernet\<close> and the encoders of
  the protocols that carry others, and what the decoder makes of the frames they build.

  A frame to send is the list of its layers as for the decoder: \<open>next\<close> of a layer is the layer behind
  it. A \<open>next\<close> pointer that does not point to the structure the protocol of a layer asks for is
  undefined behaviour, which is \<^term>\<open>None\<close>. An encoder gets the bytes \<open>old\<close> that the packet buffer
  holds at its position, as some encoders skip bytes without writing them, and the length \<open>len\<close> of what
  is already written, in 16 bits. It returns the bytes it appended and the layers, which
  \<open>encode_ethernet\<close>, \<open>encode_l2tp\<close> and \<open>encode_cfm\<close> change.
\<close>

section \<open>The encoders\<close>

type_synonym encoded = "(u8 list \<times> layer list) decoded"
type_synonym encoder = "u8 list \<Rightarrow> u16 \<Rightarrow> layer list \<Rightarrow> encoded"

definition encode_leaf :: "u8 list decoded \<Rightarrow> layer list \<Rightarrow> encoded" where
  "encode_leaf m layers = and_then m (\<lambda>bs. Some (Inr (bs, layers)))"

definition bbl_ids :: "bbl_bbl \<Rightarrow> u8 list option" where
  "bbl_ids bbl =
     (if bbl_type bbl = 1 then
        do { ifindex \<leftarrow> bbl_ifindex bbl;
             outer \<leftarrow> bbl_outer_vlan_id bbl;
             inner \<leftarrow> bbl_inner_vlan_id bbl;
             Some (w_ne32 ifindex @ w_ne16 outer @ w_ne16 inner) }
      else if bbl_type bbl = 2 then
        do { source \<leftarrow> bbl_mc_source bbl;
             group \<leftarrow> bbl_mc_group bbl;
             Some (w_ne32 source @ w_ne32 group) }
      else Some [])"

definition encode_bbl :: "bbl_bbl \<Rightarrow> u8 list option" where
  "encode_bbl bbl =
     do { padding \<leftarrow> bbl_padding bbl;
          ids \<leftarrow> bbl_ids bbl;
          Some (replicate (unat padding) 0 @ w_ne64 0x5274427269636b21 @
                [bbl_type bbl, bbl_sub_type bbl, bbl_direction bbl, bbl_tos bbl] @ w_ne32 (bbl_session_id bbl) @ ids @
                w_ne64 (bbl_flow_id bbl) @ w_ne64 (bbl_flow_seq bbl) @
                w_ne32 (ucast (bbl_tv_sec bbl)) @ w_ne32 (ucast (bbl_tv_nsec bbl))) }"

text \<open>A TCP header with the SYN bit in front of a blaster header. The checksum is left as the buffer has it.\<close>

definition encode_raw_tcp :: "u8 list \<Rightarrow> layer list \<Rightarrow> encoded" where
  "encode_raw_tcp old layers =
     (case layers of
        L_udp udp # rest \<Rightarrow>
          do { skipped \<leftarrow> ld_range old 16 4;
               if udp_protocol udp = 2 then
                 (case rest of
                    L_bbl bbl # _ \<Rightarrow>
                      do { bs \<leftarrow> encode_bbl bbl;
                           Some (Inr (w_be16 (udp_src udp) @ w_be16 (udp_dst udp) @ w_be32 1 @ w_be32 1 @ [0x50, 0x02] @
                                      w_ne16 0xff @ skipped @ bs, layers)) }
                  | _ \<Rightarrow> None)
               else Some (Inl ENCODE_ERROR) }
      | _ \<Rightarrow> None)"

text \<open>The length of a UDP packet, and its checksum, written into the packet.\<close>

definition put_be16 :: "nat \<Rightarrow> u16 \<Rightarrow> u8 list \<Rightarrow> u8 list" where
  "put_be16 p x bs = take p bs @ w_be16 x @ drop (p + 2) bs"

definition udp_put_length :: "u8 list \<Rightarrow> u8 list" where
  "udp_put_length bs = put_be16 4 (of_nat (length bs)) bs"

definition first_udp_protocol :: "layer list \<Rightarrow> u8" where
  "first_udp_protocol layers = (case layers of L_udp udp # _ \<Rightarrow> udp_protocol udp | _ \<Rightarrow> 0)"

definition ipv6_payload :: "encoder \<Rightarrow> bbl_ipv6 \<Rightarrow> encoder" where
  "ipv6_payload udp ipv6 old len rest =
     (if ip6_protocol ipv6 = 58 then
        (case rest of
           L_icmpv6 icmpv6 # _ \<Rightarrow>
             do { bs \<leftarrow> encode_icmpv6 old icmpv6;
                  c \<leftarrow> bbl_ipv6_icmpv6_checksum (ip6_src ipv6) (ip6_dst ipv6) bs;
                  Some (Inr (put16 2 c bs, rest)) }
         | _ \<Rightarrow> None)
      else if ip6_protocol ipv6 = 17 then
        and_then (udp old len rest) (\<lambda>(bs, rest).
          let bs = udp_put_length bs in
          if first_udp_protocol rest \<noteq> 2 then
            do { c \<leftarrow> bbl_ipv6_udp_checksum (ip6_src ipv6) (ip6_dst ipv6) bs;
                 Some (Inr (put16 6 c bs, rest)) }
          else Some (Inr (bs, rest)))
      else if ip6_protocol ipv6 = 6 then encode_raw_tcp old rest
      else if ip6_protocol ipv6 = 89 then
        (case rest of L_ospf ospf # _ \<Rightarrow> encode_leaf (map_option Inr (encode_ospf ospf)) rest | _ \<Rightarrow> None)
      else Some (Inl UNKNOWN_PROTOCOL))"

definition encode_ipv6_with :: "encoder \<Rightarrow> encoder" where
  "encode_ipv6_with udp old len layers =
     (case layers of
        L_ipv6 ipv6 # rest \<Rightarrow>
          do { src \<leftarrow> ld_range (ip6_src ipv6) 0 16;
               dst \<leftarrow> ld_range (ip6_dst ipv6) 0 16;
               and_then (ipv6_payload udp ipv6 (drop 40 old) (len + 40) rest) (\<lambda>(bs, rest).
                 Some (Inr (w_be16 (push_bit 4 (ucast (ip6_tos ipv6)) OR 0x6000) @ [0, 0] @ w_be16 (of_nat (length bs)) @
                            [ip6_protocol ipv6, ip6_ttl ipv6] @ src @ dst @ bs, L_ipv6 ipv6 # rest))) }
      | _ \<Rightarrow> None)"

definition ipv4_payload :: "encoder \<Rightarrow> bbl_ipv4 \<Rightarrow> encoder" where
  "ipv4_payload udp ipv4 old len rest =
     (if ip4_protocol ipv4 = 2 then
        (case rest of L_igmp igmp # _ \<Rightarrow> encode_leaf (Some (Inr (encode_igmp igmp))) rest | _ \<Rightarrow> None)
      else if ip4_protocol ipv4 = 1 then
        (case rest of L_icmp icmp # _ \<Rightarrow> encode_leaf (map_option Inr (encode_icmp icmp)) rest | _ \<Rightarrow> None)
      else if ip4_protocol ipv4 = 17 then
        and_then (udp old len rest) (\<lambda>(bs, rest).
          let bs = udp_put_length bs in
          if first_udp_protocol rest \<noteq> 2 \<and> first_udp_protocol rest \<noteq> 3
          then Some (Inr (put16 6 (bbl_ipv4_udp_checksum (ip4_src ipv4) (ip4_dst ipv4) bs) bs, rest))
          else Some (Inr (bs, rest)))
      else if ip4_protocol ipv4 = 6 then encode_raw_tcp old rest
      else if ip4_protocol ipv4 = 89 then
        (case rest of L_ospf ospf # _ \<Rightarrow> encode_leaf (map_option Inr (encode_ospf ospf)) rest | _ \<Rightarrow> None)
      else Some (Inr ([], rest)))"

definition ipv4_header_len :: "bbl_ipv4 \<Rightarrow> nat" where
  "ipv4_header_len ipv4 = (if ip4_router_alert_option ipv4 then 24 else 20)"

definition ipv4_header_bytes :: "bbl_ipv4 \<Rightarrow> u16 \<Rightarrow> u8 list" where
  "ipv4_header_bytes ipv4 total_len =
     [if ip4_router_alert_option ipv4 then 64 OR 6 else 64 OR 5, ip4_tos ipv4] @ w_be16 total_len @
     w_be16 (ip4_id ipv4) @ w_be16 (ip4_offset ipv4) @ [ip4_ttl ipv4, ip4_protocol ipv4] @ w_ne16 0 @
     w_ne32 (ip4_src ipv4) @ w_ne32 (ip4_dst ipv4) @
     (if ip4_router_alert_option ipv4 then [0x94, 0x04, 0x00, 0x00] else [])"

definition encode_ipv4_with :: "encoder \<Rightarrow> encoder" where
  "encode_ipv4_with udp old len layers =
     (case layers of
        L_ipv4 ipv4 # rest \<Rightarrow>
          (let n = ipv4_header_len ipv4 in
           and_then (ipv4_payload udp ipv4 (drop n old) (len + of_nat n) rest) (\<lambda>(bs, rest).
             let hdr = ipv4_header_bytes ipv4 (of_nat (n + length bs)) in
             Some (Inr (put16 10 (bbl_checksum hdr) hdr @ bs, L_ipv4 ipv4 # rest))))
      | _ \<Rightarrow> None)"

text \<open>The switch over the PPP protocol of \<open>encode_l2tp\<close> and \<open>encode_pppoe_session\<close>.\<close>

definition encode_ppp_with :: "encoder \<Rightarrow> u16 \<Rightarrow> encoder" where
  "encode_ppp_with udp protocol old len rest =
     (if protocol = 0xc021 then
        (case rest of L_lcp lcp # _ \<Rightarrow> encode_leaf (map_option Inr (encode_ppp_lcp old lcp)) rest | _ \<Rightarrow> None)
      else if protocol = 0x8021 then
        (case rest of L_ipcp ipcp # _ \<Rightarrow> encode_leaf (map_option Inr (encode_ppp_ipcp ipcp)) rest | _ \<Rightarrow> None)
      else if protocol = 0x8057 then
        (case rest of L_ip6cp ip6cp # _ \<Rightarrow> encode_leaf (map_option Inr (encode_ppp_ip6cp ip6cp)) rest | _ \<Rightarrow> None)
      else if protocol = 0xc023 then
        (case rest of L_pap pap # _ \<Rightarrow> encode_leaf (map_option Inr (encode_ppp_pap pap)) rest | _ \<Rightarrow> None)
      else if protocol = 0xc223 then
        (case rest of L_chap chap # _ \<Rightarrow> encode_leaf (map_option Inr (encode_ppp_chap chap)) rest | _ \<Rightarrow> None)
      else if protocol = 0x0021 then encode_ipv4_with udp old len rest
      else if protocol = 0x0057 then encode_ipv6_with udp old len rest
      else Some (Inl UNKNOWN_PROTOCOL))"

text \<open>The flags byte and what stands between the length field and the payload of an L2TP packet.\<close>

definition l2tp_flag_byte :: "bbl_l2tp \<Rightarrow> u8" where
  "l2tp_flag_byte l2tp =
     (if l2tp_type l2tp \<noteq> 0 then 0x80 OR 0x40 OR 0x08 else if l2tp_with_length l2tp then 0x40 else 0) OR
     (if l2tp_with_offset l2tp then 0x02 else 0) OR (if l2tp_with_priority l2tp then 0x01 else 0)"

definition l2tp_set_flags :: "bbl_l2tp \<Rightarrow> bbl_l2tp" where
  "l2tp_set_flags l2tp = (if l2tp_type l2tp \<noteq> 0 then l2tp\<lparr>l2tp_with_length := True, l2tp_with_sequence := True\<rparr> else l2tp)"

definition l2tp_fields :: "u8 list \<Rightarrow> bbl_l2tp \<Rightarrow> u8 list option" where
  "l2tp_fields old l2tp =
     do { let ids = w_be16 (l2tp_tunnel_id l2tp) @ w_be16 (l2tp_session_id l2tp) @
            (if l2tp_with_sequence l2tp then w_be16 (l2tp_ns l2tp) @ w_be16 (l2tp_nr l2tp) else []);
          if l2tp_with_offset l2tp then
            do { skipped \<leftarrow> ld_range old (length ids + 2) (unat (l2tp_offset l2tp));
                 Some (ids @ w_be16 (l2tp_offset l2tp) @ skipped) }
          else Some ids }"

definition encode_l2tp_with :: "encoder \<Rightarrow> encoder" where
  "encode_l2tp_with udp old len layers =
     (case layers of
        L_l2tp l2tp # rest \<Rightarrow>
          do { let flags = l2tp_flag_byte l2tp;
               let l2tp = l2tp_set_flags l2tp;
               let n = (if l2tp_with_length l2tp then 4 else 2);
               fields \<leftarrow> l2tp_fields (drop n old) l2tp;
               let packet = (\<lambda>bs. [flags, 2] @
                 (if l2tp_with_length l2tp then w_be16 (of_nat (n + length fields + length bs)) else []) @ fields @ bs);
               if l2tp_type l2tp \<noteq> 0 then
                 do { bs \<leftarrow> (if l2tp_payload l2tp \<noteq> None \<and> l2tp_payload_len l2tp \<noteq> 0
                              then ptr_range (l2tp_payload l2tp) (unat (l2tp_payload_len l2tp)) else Some []);
                      Some (Inr (packet bs, L_l2tp l2tp # rest)) }
               else
                 (let n = n + length fields + 4 in
                  and_then (encode_ppp_with udp (l2tp_protocol l2tp) (drop n old) (len + of_nat n) rest) (\<lambda>(bs, rest).
                    Some (Inr (packet ([0xff, 0x03] @ w_be16 (l2tp_protocol l2tp) @ bs), L_l2tp l2tp # rest)))) }
      | _ \<Rightarrow> None)"

definition udp_payload :: "encoder \<Rightarrow> bbl_udp \<Rightarrow> encoder" where
  "udp_payload rec udp old len rest =
     (if udp_protocol udp = 1 then
        (case rest of L_dhcpv6 dhcpv6 # _ \<Rightarrow> encode_leaf (map_option Inr (encode_dhcpv6 dhcpv6)) rest | _ \<Rightarrow> None)
      else if udp_protocol udp = 2 then
        (case rest of L_bbl bbl # _ \<Rightarrow> encode_leaf (map_option Inr (encode_bbl bbl)) rest | _ \<Rightarrow> None)
      else if udp_protocol udp = 3 then encode_l2tp_with rec old len rest
      else if udp_protocol udp = 5 then
        (case rest of L_dhcp dhcp # _ \<Rightarrow> encode_leaf (encode_dhcp len dhcp) rest | _ \<Rightarrow> None)
      else if udp_protocol udp = 6 then
        (case rest of L_ldp_hello hello # _ \<Rightarrow> encode_leaf (map_option Inr (encode_ldp_hello hello)) rest | _ \<Rightarrow> None)
      else Some (Inr ([], rest)))"

definition encode_udp_with :: "encoder \<Rightarrow> encoder" where
  "encode_udp_with rec old len layers =
     (case layers of
        L_udp udp # rest \<Rightarrow>
          and_then (udp_payload rec udp (drop 8 old) (len + 8) rest) (\<lambda>(bs, rest).
            Some (Inr (w_be16 (udp_src udp) @ w_be16 (udp_dst udp) @ w_ne32 0 @ bs, L_udp udp # rest)))
      | _ \<Rightarrow> None)"

definition encode_pppoe_session_with :: "encoder \<Rightarrow> encoder" where
  "encode_pppoe_session_with udp old len layers =
     (case layers of
        L_pppoe_session pppoe # rest \<Rightarrow>
          and_then
            (if pses_raw_len pppoe \<noteq> 0 then
               (case rest of L_raw bs # _ \<Rightarrow> encode_leaf (map_option Inr (ld_range bs 0 (unat (pses_raw_len pppoe)))) rest | _ \<Rightarrow> None)
             else if pses_lwip pppoe then
               (case rest of L_pbuf ps # _ \<Rightarrow> Some (Inr (concat ps, rest)) | _ \<Rightarrow> None)
             else encode_ppp_with udp (pses_protocol pppoe) (drop 8 old) (len + 8) rest)
            (\<lambda>(bs, rest).
               Some (Inr ([17, 0] @ w_be16 (pses_session_id pppoe) @ w_be16 (of_nat (length bs) + 2) @ w_be16 (pses_protocol pppoe) @ bs,
                          L_pppoe_session pppoe # rest)))
      | _ \<Rightarrow> None)"

text \<open>The tags and labels of a frame. The priorities are stored into the header, too.\<close>

definition eth_set_priorities :: "bbl_ethernet_header \<Rightarrow> bbl_ethernet_header" where
  "eth_set_priorities eth =
     (if eth_vlan_outer eth = 0 then eth
      else let eth = eth\<lparr>eth_vlan_outer := eth_vlan_outer eth OR push_bit 13 (ucast (eth_vlan_outer_priority eth))\<rparr> in
           if eth_vlan_inner eth = 0 then eth
           else eth\<lparr>eth_vlan_inner := eth_vlan_inner eth OR push_bit 13 (ucast (eth_vlan_inner_priority eth))\<rparr>)"

definition vlan_bytes :: "bbl_ethernet_header \<Rightarrow> u8 list" where
  "vlan_bytes eth =
     (let eth' = eth_set_priorities eth in
      if eth_vlan_outer eth = 0 then []
      else w_be16 (if eth_qinq eth then 0x88A8 else 0x8100) @ w_be16 (eth_vlan_outer eth') @
        (if eth_vlan_inner eth = 0 then []
         else w_be16 0x8100 @ w_be16 (eth_vlan_inner eth') @
           (if eth_vlan_three eth = 0 then [] else w_be16 0x8100 @ w_be16 (eth_vlan_three eth))))"

definition mpls_word :: "bbl_mpls \<Rightarrow> u32" where
  "mpls_word m = push_bit 12 (mpls_label m) OR push_bit 8 (ucast (push_bit 1 (mpls_exp m))) OR ucast (mpls_ttl m)"

fun mpls_bytes :: "bbl_mpls list \<Rightarrow> u8 list" where
  "mpls_bytes [] = []"
| "mpls_bytes [m] = w_be32 (mpls_word m OR 0x100)"
| "mpls_bytes (m # n # ms) = w_be32 (mpls_word m) @ mpls_bytes (n # ms)"

definition encode_eth_payload :: "encoder \<Rightarrow> u16 \<Rightarrow> encoder" where
  "encode_eth_payload udp type old len rest =
     (if type = 0x8863 then
        (case rest of L_pppoe_discovery pppoe # _ \<Rightarrow> encode_leaf (map_option Inr (encode_pppoe_discovery pppoe)) rest | _ \<Rightarrow> None)
      else if type = 0x8864 then encode_pppoe_session_with udp old len rest
      else if type = 0x0806 then
        (case rest of L_arp arp # _ \<Rightarrow> encode_leaf (map_option Inr (encode_arp arp)) rest | _ \<Rightarrow> None)
      else if type = 0x0800 then encode_ipv4_with udp old len rest
      else if type = 0x86dd then encode_ipv6_with udp old len rest
      else if type = 0x8902 then
        (case rest of
           L_cfm cfm # more_layers \<Rightarrow> and_then (encode_cfm cfm) (\<lambda>(bs, cfm). Some (Inr (bs, L_cfm cfm # more_layers)))
         | _ \<Rightarrow> None)
      else if type = 0x8809 then
        (case rest of L_lacp lacp # _ \<Rightarrow> encode_leaf (map_option Inr (encode_lacp lacp)) rest | _ \<Rightarrow> None)
      else Some (Inl UNKNOWN_PROTOCOL))"

definition encode_eth_isis :: "layer list \<Rightarrow> encoded" where
  "encode_eth_isis rest =
     (case rest of
        L_isis isis # _ \<Rightarrow>
          (case encode_isis isis of
             None \<Rightarrow> None
           | Some (Inl e) \<Rightarrow> Some (Inl ENCODE_ERROR)
           | Some (Inr bs) \<Rightarrow> Some (Inr (w_be16 (of_nat (length bs)) @ bs, rest)))
      | _ \<Rightarrow> None)"

definition eth_next :: "encoder \<Rightarrow> bbl_ethernet_header \<Rightarrow> encoder" where
  "eth_next udp eth old len rest =
     (if eth_raw_len eth \<noteq> 0 then
        (case rest of L_raw bs # _ \<Rightarrow> encode_leaf (map_option Inr (ld_range bs 0 (unat (eth_raw_len eth)))) rest | _ \<Rightarrow> None)
      else if eth_lwip eth then
        (case rest of L_pbuf ps # _ \<Rightarrow> Some (Inr (concat ps, rest)) | _ \<Rightarrow> None)
      else encode_eth_payload udp (eth_type eth) old len rest)"

definition ethertype_bytes :: "bbl_ethernet_header \<Rightarrow> u8 list" where
  "ethertype_bytes eth = (if eth_mpls eth \<noteq> [] then w_be16 0x8847 @ mpls_bytes (eth_mpls eth) else w_be16 (eth_type eth))"

definition encode_ethernet_with :: "encoder \<Rightarrow> encoder" where
  "encode_ethernet_with udp old len layers =
     (case layers of
        L_ethernet eth # rest \<Rightarrow>
          do { dst \<leftarrow> (case eth_dst eth of None \<Rightarrow> Some (replicate 6 0xff) | Some d \<Rightarrow> ld_range d 0 6);
               src \<leftarrow> ptr_range (eth_src eth) 6;
               let hdr = dst @ src @ vlan_bytes eth;
               let eth = eth_set_priorities eth;
               if eth_mpls eth = [] \<and> eth_type eth = 0x83 then
                 and_then (encode_eth_isis rest) (\<lambda>(bs, rest). Some (Inr (hdr @ bs, L_ethernet eth # rest)))
               else
                 (let hdr = hdr @ ethertype_bytes eth; n = length hdr in
                  and_then (eth_next udp eth (drop n old) (len + of_nat n) rest) (\<lambda>(bs, rest).
                    Some (Inr (hdr @ bs, L_ethernet eth # rest)))) }
      | _ \<Rightarrow> None)"

subsection \<open>The recursion\<close>

text \<open>The encoders use the UDP encoder on the layers behind their own only.\<close>

lemma encode_ipv4_cong:
  assumes "\<And>o' l ls. length ls < length layers \<Longrightarrow> u o' l ls = v o' l ls"
  shows "encode_ipv4_with u old len layers = encode_ipv4_with v old len layers"
proof (cases layers)
  case (Cons l ls)
  have eq: "u o' n ls = v o' n ls" for o' n by (rule assms) (simp add: Cons)
  show ?thesis unfolding Cons encode_ipv4_with_def list.case ipv4_payload_def eq ..
qed (simp add: encode_ipv4_with_def)

lemma encode_ipv6_cong:
  assumes "\<And>o' l ls. length ls < length layers \<Longrightarrow> u o' l ls = v o' l ls"
  shows "encode_ipv6_with u old len layers = encode_ipv6_with v old len layers"
proof (cases layers)
  case (Cons l ls)
  have eq: "u o' n ls = v o' n ls" for o' n by (rule assms) (simp add: Cons)
  show ?thesis unfolding Cons encode_ipv6_with_def list.case ipv6_payload_def eq ..
qed (simp add: encode_ipv6_with_def)

lemma encode_ppp_cong:
  assumes "\<And>o' l ls. length ls < length layers \<Longrightarrow> u o' l ls = v o' l ls"
  shows "encode_ppp_with u protocol old len layers = encode_ppp_with v protocol old len layers"
proof -
  have eq: "encode_ipv4_with u old len layers = encode_ipv4_with v old len layers"
    "encode_ipv6_with u old len layers = encode_ipv6_with v old len layers"
    by (rule encode_ipv4_cong, erule assms) (rule encode_ipv6_cong, erule assms)
  show ?thesis unfolding encode_ppp_with_def eq ..
qed

lemma encode_l2tp_cong:
  assumes "\<And>o' l ls. length ls < length layers \<Longrightarrow> u o' l ls = v o' l ls"
  shows "encode_l2tp_with u old len layers = encode_l2tp_with v old len layers"
proof (cases layers)
  case (Cons l ls)
  have eq: "encode_ppp_with u p o' n ls = encode_ppp_with v p o' n ls" for p o' n
    by (rule encode_ppp_cong, rule assms) (simp add: Cons)
  show ?thesis unfolding Cons encode_l2tp_with_def list.case eq ..
qed (simp add: encode_l2tp_with_def)

lemma udp_payload_cong:
  assumes "\<And>o' l ls. length ls < length layers \<Longrightarrow> u o' l ls = v o' l ls"
  shows "udp_payload u udp old len layers = udp_payload v udp old len layers"
proof -
  have eq: "encode_l2tp_with u old len layers = encode_l2tp_with v old len layers" for old len
    by (rule encode_l2tp_cong, rule assms)
  show ?thesis unfolding udp_payload_def eq ..
qed

lemma encode_udp_cong [fundef_cong]:
  assumes "old = old'" "len = len'" "layers = layers'" "\<And>o' l ls. length ls < length layers' \<Longrightarrow> u o' l ls = v o' l ls"
  shows "encode_udp_with u old len layers = encode_udp_with v old' len' layers'"
proof (cases layers')
  case (Cons l ls)
  have eq: "udp_payload u x o' n ls = udp_payload v x o' n ls" for x o' n
    by (rule udp_payload_cong, rule assms(4)) (simp add: Cons)
  show ?thesis unfolding assms(1-3) Cons encode_udp_with_def list.case eq ..
qed (simp add: encode_udp_with_def assms(3))

function encode_udp :: encoder where
  "encode_udp old len layers = encode_udp_with encode_udp old len layers"
  by pat_completeness auto
termination
  by (relation "measure (\<lambda>(_, _, layers). length layers)") simp_all

declare encode_udp.simps [simp del]

definition encode_ipv4 :: encoder where
  "encode_ipv4 = encode_ipv4_with encode_udp"

definition encode_ipv6 :: encoder where
  "encode_ipv6 = encode_ipv6_with encode_udp"

definition encode_l2tp :: encoder where
  "encode_l2tp = encode_l2tp_with encode_udp"

definition encode_pppoe_session :: encoder where
  "encode_pppoe_session = encode_pppoe_session_with encode_udp"

definition encode_ethernet :: encoder where
  "encode_ethernet = encode_ethernet_with encode_udp"

end
