(* ===== verification/Stream_Frame.thy ===== *)
theory Stream_Frame
  imports Frame_Encode
begin

text \<open>
  The frames of traffic streams: a blaster header over UDP, IPv4 or IPv6, directly, over PPPoE or over
  L2TP, with VLAN tags and MPLS labels. What the encoder builds of such a frame, the decoder reads back.
\<close>

section \<open>Frames of streams\<close>

text \<open>The bytes of a layer, without what it carries.\<close>

fun layer_size :: "layer \<Rightarrow> nat" where
  "layer_size (L_ethernet eth) =
     14 + 4 * length (eth_mpls eth) +
     (if eth_vlan_outer eth = 0 then 0 else 4 + (if eth_vlan_inner eth = 0 then 0 else 4 + (if eth_vlan_three eth = 0 then 0 else 4)))"
| "layer_size (L_pppoe_session _) = 8"
| "layer_size (L_ipv4 ipv4) = ipv4_header_len ipv4"
| "layer_size (L_ipv6 _) = 40"
| "layer_size (L_udp _) = 8"
| "layer_size (L_l2tp l2tp) =
     10 + (if l2tp_with_length l2tp then 2 else 0) + (if l2tp_with_offset l2tp then 2 + unat (l2tp_offset l2tp) else 0)"
| "layer_size (L_bbl bbl) = (case bbl_padding bbl of None \<Rightarrow> 0 | Some n \<Rightarrow> unat n) + 48"
| "layer_size _ = 0"

definition wire_size :: "layer list \<Rightarrow> nat" where
  "wire_size layers = sum_list (map layer_size layers)"

text \<open>The scratchpad memory that the decoder takes for a layer.\<close>

fun layer_sp :: "layer \<Rightarrow> nat" where
  "layer_sp (L_ethernet eth) = 80 + 16 * length (eth_mpls eth)"
| "layer_sp (L_pppoe_session _) = 16"
| "layer_sp (L_ipv4 _) = 56"
| "layer_sp (L_ipv6 _) = 56"
| "layer_sp (L_udp _) = 24"
| "layer_sp (L_l2tp _) = 48"
| "layer_sp (L_bbl _) = 64"
| "layer_sp _ = 0"

definition sp_size :: "layer list \<Rightarrow> nat" where
  "sp_size layers = sum_list (map layer_sp layers)"

lemma size_simps [simp]:
  "wire_size [] = 0" "wire_size (l # ls) = layer_size l + wire_size ls" "sp_size [] = 0" "sp_size (l # ls) = layer_sp l + sp_size ls"
  by (simp_all add: wire_size_def sp_size_def)

definition bbl_complete :: "bbl_bbl \<Rightarrow> bool" where
  "bbl_complete bbl \<longleftrightarrow> bbl_padding bbl \<noteq> None \<and>
     (bbl_type bbl = 1 \<and> bbl_ifindex bbl \<noteq> None \<and> bbl_outer_vlan_id bbl \<noteq> None \<and> bbl_inner_vlan_id bbl \<noteq> None \<or>
      bbl_type bbl = 2 \<and> bbl_mc_source bbl \<noteq> None \<and> bbl_mc_group bbl \<noteq> None)"

text \<open>Ports of a stream: the blaster port, or any ports that the decoder does not take for another protocol.\<close>

definition stream_ports :: "bbl_udp \<Rightarrow> bool" where
  "stream_ports udp \<longleftrightarrow> udp_dst udp = 65056 \<or>
     udp_dst udp \<notin> {546, 547, 67, 68, 49152} \<and> udp_src udp \<noteq> 49152 \<and>
     \<not> (udp_dst udp = 1701 \<and> udp_src udp = 1701) \<and> \<not> (udp_dst udp = 646 \<and> udp_src udp = 646)"

fun ip_ok :: "layer \<Rightarrow> bool" where
  "ip_ok (L_ipv4 ipv4) \<longleftrightarrow> ip4_protocol ipv4 = 17 \<and> \<not> ip4_fragment ipv4"
| "ip_ok (L_ipv6 ipv6) \<longleftrightarrow> ip6_protocol ipv6 = 17 \<and> length (ip6_src ipv6) = 16 \<and> length (ip6_dst ipv6) = 16"
| "ip_ok _ \<longleftrightarrow> False"

definition is_ipv4 :: "layer list \<Rightarrow> bool" where
  "is_ipv4 layers \<longleftrightarrow> (case layers of L_ipv4 _ # _ \<Rightarrow> True | _ \<Rightarrow> False)"

definition ppp_protocol :: "layer list \<Rightarrow> u16" where
  "ppp_protocol layers = (if is_ipv4 layers then 0x0021 else 0x0057)"

text \<open>An IP packet of a stream, which can be in a data packet of an L2TP tunnel.\<close>

definition stream_udp :: "bbl_udp \<Rightarrow> layer \<Rightarrow> layer list \<Rightarrow> bool" where
  "stream_udp udp layer rest =
     (case layer of
        L_bbl bbl \<Rightarrow> udp_protocol udp = 2 \<and> stream_ports udp \<and> bbl_complete bbl \<and> rest = []
      | L_l2tp l2tp \<Rightarrow> udp_protocol udp = 3 \<and> udp_src udp = 1701 \<and> udp_dst udp = 1701 \<and>
          l2tp_type l2tp = 0 \<and> \<not> l2tp_with_sequence l2tp \<and> l2tp_protocol l2tp = ppp_protocol rest \<and> rest \<noteq> []
      | _ \<Rightarrow> False)"

fun stream_packet :: "layer list \<Rightarrow> bool" where
  "stream_packet (ip # udp # layer # rest) \<longleftrightarrow>
     ip_ok ip \<and> (case udp of L_udp u \<Rightarrow> stream_udp u layer rest | _ \<Rightarrow> False) \<and> (rest \<noteq> [] \<longrightarrow> stream_packet rest)"
| "stream_packet _ \<longleftrightarrow> False"

text \<open>What the decoder shows of a layer that was sent.\<close>

definition same_bbl :: "bbl_bbl \<Rightarrow> bbl_bbl \<Rightarrow> bool" where
  "same_bbl a b \<longleftrightarrow> bbl_type b = bbl_type a \<and> bbl_sub_type b = bbl_sub_type a \<and> bbl_direction b = bbl_direction a \<and>
     bbl_tos b = bbl_tos a \<and> bbl_session_id b = bbl_session_id a \<and>
     (if bbl_type a = 1 then bbl_ifindex b = bbl_ifindex a \<and> bbl_outer_vlan_id b = bbl_outer_vlan_id a \<and> bbl_inner_vlan_id b = bbl_inner_vlan_id a
      else bbl_mc_source b = bbl_mc_source a \<and> bbl_mc_group b = bbl_mc_group a) \<and>
     bbl_flow_id b = bbl_flow_id a \<and> bbl_flow_seq b = bbl_flow_seq a \<and>
     bbl_tv_sec b = take_bit 32 (bbl_tv_sec a) \<and> bbl_tv_nsec b = take_bit 32 (bbl_tv_nsec a)"

definition same_ethernet :: "bbl_ethernet_header \<Rightarrow> bbl_ethernet_header \<Rightarrow> bool" where
  "same_ethernet a b \<longleftrightarrow>
     eth_dst b = Some (case eth_dst a of None \<Rightarrow> replicate 6 0xff | Some d \<Rightarrow> d) \<and> eth_src b = eth_src a \<and> eth_type b = eth_type a \<and>
     eth_vlan_outer b = eth_vlan_outer a \<and> eth_vlan_inner b = eth_vlan_inner a \<and> eth_vlan_three b = eth_vlan_three a \<and>
     eth_vlan_outer_priority b = eth_vlan_outer_priority a \<and> eth_vlan_inner_priority b = eth_vlan_inner_priority a \<and>
     eth_mpls b = eth_mpls a"

definition same_pppoe_session :: "bbl_pppoe_session \<Rightarrow> bbl_pppoe_session \<Rightarrow> bool" where
  "same_pppoe_session a b \<longleftrightarrow>
     pses_session_id b = pses_session_id a \<and> pses_protocol b = pses_protocol a"

definition same_ipv4 :: "bbl_ipv4 \<Rightarrow> bbl_ipv4 \<Rightarrow> bool" where
  "same_ipv4 a b \<longleftrightarrow>
     ip4_src b = ip4_src a \<and> ip4_dst b = ip4_dst a \<and> ip4_tos b = ip4_tos a \<and> ip4_ttl b = ip4_ttl a \<and>
     ip4_protocol b = ip4_protocol a \<and> ip4_id b = ip4_id a \<and> ip4_offset b = ip4_offset a"

definition same_ipv6 :: "bbl_ipv6 \<Rightarrow> bbl_ipv6 \<Rightarrow> bool" where
  "same_ipv6 a b \<longleftrightarrow>
     ip6_src b = ip6_src a \<and> ip6_dst b = ip6_dst a \<and> ip6_tos b = ip6_tos a \<and> ip6_ttl b = ip6_ttl a \<and> ip6_protocol b = ip6_protocol a"

definition same_udp :: "bbl_udp \<Rightarrow> bbl_udp \<Rightarrow> bool" where
  "same_udp a b \<longleftrightarrow>
     udp_src b = udp_src a \<and> udp_dst b = udp_dst a \<and> udp_protocol b = udp_protocol a"

definition same_l2tp :: "bbl_l2tp \<Rightarrow> bbl_l2tp \<Rightarrow> bool" where
  "same_l2tp a b \<longleftrightarrow>
     l2tp_type b = l2tp_type a \<and> l2tp_tunnel_id b = l2tp_tunnel_id a \<and> l2tp_session_id b = l2tp_session_id a \<and>
     l2tp_protocol b = l2tp_protocol a \<and> l2tp_with_length b = l2tp_with_length a \<and> l2tp_with_offset b = l2tp_with_offset a \<and>
     l2tp_with_priority b = l2tp_with_priority a"

definition same_layer :: "layer \<Rightarrow> layer \<Rightarrow> bool" where
  "same_layer sent received =
     (case sent of
        L_ethernet a \<Rightarrow> (case received of L_ethernet b \<Rightarrow> same_ethernet a b | _ \<Rightarrow> False)
      | L_pppoe_session a \<Rightarrow> (case received of L_pppoe_session b \<Rightarrow> same_pppoe_session a b | _ \<Rightarrow> False)
      | L_ipv4 a \<Rightarrow> (case received of L_ipv4 b \<Rightarrow> same_ipv4 a b | _ \<Rightarrow> False)
      | L_ipv6 a \<Rightarrow> (case received of L_ipv6 b \<Rightarrow> same_ipv6 a b | _ \<Rightarrow> False)
      | L_udp a \<Rightarrow> (case received of L_udp b \<Rightarrow> same_udp a b | _ \<Rightarrow> False)
      | L_l2tp a \<Rightarrow> (case received of L_l2tp b \<Rightarrow> same_l2tp a b | _ \<Rightarrow> False)
      | L_bbl a \<Rightarrow> (case received of L_bbl b \<Rightarrow> same_bbl a b | _ \<Rightarrow> False)
      | _ \<Rightarrow> False)"

lemmas same_layers = same_ethernet_def same_pppoe_session_def same_ipv4_def same_ipv6_def same_udp_def same_l2tp_def

lemma same_layer_simps [simp]:
  "same_layer (L_ethernet a) (L_ethernet b) \<longleftrightarrow> same_ethernet a b"
  "same_layer (L_pppoe_session c) (L_pppoe_session d) \<longleftrightarrow> same_pppoe_session c d"
  "same_layer (L_ipv4 e) (L_ipv4 f) \<longleftrightarrow> same_ipv4 e f"
  "same_layer (L_ipv6 g) (L_ipv6 h) \<longleftrightarrow> same_ipv6 g h"
  "same_layer (L_udp i) (L_udp j) \<longleftrightarrow> same_udp i j"
  "same_layer (L_l2tp k) (L_l2tp l) \<longleftrightarrow> same_l2tp k l"
  "same_layer (L_bbl m) (L_bbl n) \<longleftrightarrow> same_bbl m n"
  by (simp_all add: same_layer_def)

section \<open>Blaster header\<close>

lemma unat_u16_of_nat: "n < 65536 \<Longrightarrow> unat (of_nat n :: u16) = n"
  by (rule unat_of_nat_small) simp

lemma encode_bbl_complete:
  assumes "bbl_complete bbl"
  shows "\<exists>bs. encode_bbl bbl = Some bs \<and> length bs = layer_size (L_bbl bbl)"
  using assms by (auto simp: bbl_complete_def encode_bbl_def bbl_ids_def)

lemma ucast_ucast32: "ucast (ucast x :: u32) = (take_bit 32 x :: u64)"
  by (rule bit_word_eqI) (auto simp: bit_simps)

lemma bbl_ids_length:
  "bbl_ids bbl = Some ids \<Longrightarrow> bbl_type bbl = 1 \<or> bbl_type bbl = 2 \<Longrightarrow> length ids = 8"
  by (auto simp: bbl_ids_def bind_eq_Some_conv split: if_splits)

lemma bbl_round_trip:
  assumes "bbl_complete bbl" "encode_bbl bbl = Some bs" "length bs < 65536" "64 \<le> unat sp"
  shows "\<exists>b. decode_bbl (bs @ pad) (of_nat (length bs)) sp = Some (Inr b) \<and> same_bbl bbl b"
proof -
  obtain n ids where e: "bbl_padding bbl = Some n" "bbl_ids bbl = Some ids"
    and bs: "bs = replicate (unat n) 0 @ w_ne64 0x5274427269636b21 @
                [bbl_type bbl, bbl_sub_type bbl, bbl_direction bbl, bbl_tos bbl] @ w_ne32 (bbl_session_id bbl) @ ids @
                w_ne64 (bbl_flow_id bbl) @ w_ne64 (bbl_flow_seq bbl) @
                w_ne32 (ucast (bbl_tv_sec bbl)) @ w_ne32 (ucast (bbl_tv_nsec bbl))"
    using assms(2) by (auto simp: encode_bbl_def bind_eq_Some_conv)
  have t: "bbl_type bbl = 1 \<or> bbl_type bbl = 2" using assms(1) by (auto simp: bbl_complete_def)
  have l: "length bs = unat n + 48" using bbl_ids_length [OF e(2) t] by (simp add: bs)
  have u: "unat (of_nat (length bs) :: u16) = unat n + 48" using unat_u16_of_nat [OF assms(3)] l by (rule trans)
  have d: "unat ((of_nat (length bs) :: u16) - 48) = unat n"
    using u by (simp add: unat_sub_le word_le_nat_alt)
  have g: "\<not> (of_nat (length bs) < (48 :: u16) \<or> sp < 64)" using u assms(4) by (simp add: runs_arith)
  show ?thesis
  proof (cases "bbl_type bbl = 1")
    case True
    with e(2) obtain i a b where "bbl_ifindex bbl = Some i" "bbl_outer_vlan_id bbl = Some a" "bbl_inner_vlan_id bbl = Some b"
      "ids = w_ne32 i @ w_ne16 a @ w_ne16 b"
      by (auto simp: bbl_ids_def bind_eq_Some_conv)
    then show ?thesis using True
      unfolding decode_bbl_def if_not_P [OF g] Let_def d
      by (simp add: bs bbl_tail_def same_bbl_def ucast_ucast32)
  next
    case False
    with e(2) t obtain a b where "bbl_mc_source bbl = Some a" "bbl_mc_group bbl = Some b" "ids = w_ne32 a @ w_ne32 b"
      by (auto simp: bbl_ids_def bind_eq_Some_conv split: if_splits)
    then show ?thesis using False t
      unfolding decode_bbl_def if_not_P [OF g] Let_def d
      by (simp add: bs bbl_tail_def same_bbl_def ucast_ucast32)
  qed
qed

section \<open>UDP\<close>

lemma udp_header_round_trip:
  assumes "8 + length bs < 65536" "8 + length bs \<le> unat n" "24 \<le> unat sp"
  shows "udp_header (w_be16 a @ w_be16 b @ w_be16 (of_nat (8 + length bs)) @ w_ne16 c @ bs @ pad) n sp =
    Some (Inr (\<lparr>udp_src = a, udp_dst = b, udp_payload_len = of_nat (length bs), udp_protocol = 0\<rparr>, bs @ pad, of_nat (length bs)))"
proof -
  have u: "unat (of_nat (8 + length bs) :: u16) = 8 + length bs" using assms(1) by (rule unat_u16_of_nat)
  have s: "(of_nat (8 + length bs) :: u16) - 8 = of_nat (length bs)" by simp
  have l: "unat (of_nat (length bs) :: u16) = length bs" using assms(1) by (intro unat_u16_of_nat) simp
  have g: "\<not> (n < 8 \<or> sp < 24)" "\<not> (of_nat (8 + length bs) < (8 :: u16))" "\<not> (of_nat (length bs) > n - 8)"
    using assms u l by (simp_all add: runs_arith del: of_nat_add)
  show ?thesis using g(2,3) s unfolding udp_header_def if_not_P [OF g(1)] Let_def by (simp del: of_nat_add)
qed

text \<open>
  \<open>received d ls bs\<close>: the decoder \<open>d\<close> reads the layers \<open>ls\<close> from the bytes \<open>bs\<close>, whatever stands behind
  them, and reports the blaster header in the Ethernet header.
\<close>

definition received :: "decoder \<Rightarrow> layer list \<Rightarrow> u8 list \<Rightarrow> bool" where
  "received d ls bs \<longleftrightarrow>
     (\<forall>pad n sp eth. length bs \<le> unat n \<longrightarrow> unat n \<le> length (bs @ pad) \<longrightarrow> sp_size ls \<le> unat sp \<longrightarrow>
       (\<exists>t l b ls'. d (bs @ pad) n sp eth = Some (eth\<lparr>eth_tos := t, eth_ttl := l, eth_bbl := Some b\<rparr>, Inr ls') \<and>
          list_all2 same_layer ls ls' \<and> last ls' = L_bbl b \<and> ls' \<noteq> []))"

lemma receivedD:
  assumes "received d ls bs" "length bs \<le> unat n" "unat n \<le> length (bs @ pad)" "sp_size ls \<le> unat sp"
  obtains t l b ls' where "d (bs @ pad) n sp eth = Some (eth\<lparr>eth_tos := t, eth_ttl := l, eth_bbl := Some b\<rparr>, Inr ls')"
    "list_all2 same_layer ls ls'" "last ls' = L_bbl b" "ls' \<noteq> []"
  using assms unfolding received_def by blast

lemma unat_minus: "k \<le> unat sp \<Longrightarrow> k < 65536 \<Longrightarrow> unat ((sp :: u16) - of_nat k) = unat sp - k"
  by (simp add: unat_sub_le word_le_nat_alt unat_u16_of_nat)

lemma udp_bbl_received:
  assumes "udp_protocol udp = 2" "stream_ports udp" "bbl_complete bbl" "encode_bbl bbl = Some p" "8 + length p < 65536"
  shows "received decode_udp [L_udp udp, L_bbl bbl] (w_be16 (udp_src udp) @ w_be16 (udp_dst udp) @ w_be16 (of_nat (8 + length p)) @ w_ne16 c @ p)"
  unfolding received_def
proof (intro allI impI)
  fix pad and n sp :: u16 and eth :: bbl_ethernet_header
  assume n: "length (w_be16 (udp_src udp) @ w_be16 (udp_dst udp) @ w_be16 (of_nat (8 + length p)) @ w_ne16 c @ p) \<le> unat n"
    and sp: "sp_size [L_udp udp, L_bbl bbl] \<le> unat sp"
  have h: "udp_header (w_be16 (udp_src udp) @ w_be16 (udp_dst udp) @ w_be16 (of_nat (8 + length p)) @ w_ne16 c @ p @ pad) n sp =
    Some (Inr (\<lparr>udp_src = udp_src udp, udp_dst = udp_dst udp, udp_payload_len = of_nat (length p), udp_protocol = 0\<rparr>, p @ pad, of_nat (length p)))"
    using n sp assms(5) by (intro udp_header_round_trip) simp_all
  have "64 \<le> unat (sp - 24)" using sp unat_minus [of 24 sp] by simp
  then obtain b where b: "decode_bbl (p @ pad) (of_nat (length p)) (sp - 24) = Some (Inr b)" "same_bbl bbl b"
    using bbl_round_trip [OF assms(3,4)] assms(5) by fastforce
  have "decode_udp ((w_be16 (udp_src udp) @ w_be16 (udp_dst udp) @ w_be16 (of_nat (8 + length p)) @ w_ne16 c @ p) @ pad) n sp eth =
      Some (eth\<lparr>eth_bbl := Some b\<rparr>, Inr [L_udp \<lparr>udp_src = udp_src udp, udp_dst = udp_dst udp, udp_payload_len = of_nat (length p), udp_protocol = 2\<rparr>, L_bbl b])"
  proof (cases "udp_dst udp = 65056")
    case True
    then show ?thesis using b(1)
      unfolding decode_udp.simps [of _ n] udp_with_def append_assoc h
      by (simp add: udp_port_def Let_def bbl_leaf_def on_top_def udp_protocol_of_def)
  next
    case False
    with assms(2) have "udp_port decode_udp \<lparr>udp_src = udp_src udp, udp_dst = udp_dst udp, udp_payload_len = of_nat (length p), udp_protocol = 0\<rparr>
        (p @ pad) (of_nat (length p)) (sp - 24) eth = Some (eth, Inl UNKNOWN_PROTOCOL)" "udp_src udp \<noteq> 49152"
      unfolding stream_ports_def udp_port_def Let_def bbl_udp.simps by (simp_all only: if_False simp_thms insert_iff empty_iff de_Morgan_disj)
    then show ?thesis using b(1)
      unfolding decode_udp.simps [of _ n] udp_with_def append_assoc h
      by (simp add: Let_def udp_try_bbl_def)
  qed
  then show "\<exists>t l b ls'. decode_udp ((w_be16 (udp_src udp) @ w_be16 (udp_dst udp) @ w_be16 (of_nat (8 + length p)) @ w_ne16 c @ p) @ pad) n sp eth =
    Some (eth\<lparr>eth_tos := t, eth_ttl := l, eth_bbl := Some b\<rparr>, Inr ls') \<and> list_all2 same_layer [L_udp udp, L_bbl bbl] ls' \<and> last ls' = L_bbl b \<and> ls' \<noteq> []"
    using b(2) assms(1)
    by (simp only:) (rule exI [of _ "eth_tos eth"], rule exI [of _ "eth_ttl eth"], simp add: same_udp_def)
qed

section \<open>IP\<close>

text \<open>The TOS and the TTL of the outermost IP header are kept.\<close>

lemma eth_keep:
  "(if eth_tos eth = 0 then eth\<lparr>eth_tos := a\<rparr> else eth) = eth\<lparr>eth_tos := if eth_tos eth = 0 then a else eth_tos eth\<rparr>"
  "(if eth_ttl eth = 0 then eth\<lparr>eth_ttl := a\<rparr> else eth) = eth\<lparr>eth_ttl := if eth_ttl eth = 0 then a else eth_ttl eth\<rparr>"
  by simp_all

lemma ipv4_header_put:
  "put16 10 c (ipv4_header_bytes ipv4 t) =
     [if ip4_router_alert_option ipv4 then 64 OR 6 else 64 OR 5, ip4_tos ipv4] @ w_be16 t @
     w_be16 (ip4_id ipv4) @ w_be16 (ip4_offset ipv4) @ [ip4_ttl ipv4, ip4_protocol ipv4] @ w_ne16 c @
     w_ne32 (ip4_src ipv4) @ w_ne32 (ip4_dst ipv4) @
     (if ip4_router_alert_option ipv4 then [0x94, 0x04, 0x00, 0x00] else [])"
  by (simp add: ipv4_header_bytes_def put16_def)

lemma ipv4_header_round_trip:
  assumes "ipv4_header_len ipv4 + length p < 65536" "ipv4_header_len ipv4 + length p \<le> unat n" "56 \<le> unat sp"
  shows "\<exists>t l x. ipv4_header (put16 10 c (ipv4_header_bytes ipv4 (of_nat (ipv4_header_len ipv4 + length p))) @ p @ pad) n sp eth =
    Some (eth\<lparr>eth_tos := t, eth_ttl := l\<rparr>, Inr (x, p @ pad, of_nat (length p))) \<and> same_ipv4 ipv4 x"
proof -
  let ?h = "ipv4_header_len ipv4" and ?t = "of_nat (ipv4_header_len ipv4 + length p) :: u16"
  have h: "20 \<le> ?h" "?h \<le> 24" by (simp_all add: ipv4_header_len_def)
  have u: "unat ?t = ?h + length p" using assms(1) by (rule unat_u16_of_nat)
  have "20 \<le> unat n" using assms(2) h by simp
  then have g1: "\<not> (n < 20 \<or> sp < 56)" using assms(3) by (simp add: runs_arith)
  have b: "drop_bit 4 (if ip4_router_alert_option ipv4 then 64 OR 6 else 64 OR 5 :: u8) = 4"
    "(ucast ((if ip4_router_alert_option ipv4 then 64 OR 6 else 64 OR 5 :: u8) AND 0xf) :: u16) * 4 = of_nat ?h"
    by (simp_all add: ipv4_header_len_def)
  have uh: "unat (of_nat ?h :: u16) = ?h" using h by (intro unat_u16_of_nat) simp
  have t: "?t - of_nat ?h = of_nat (length p)" by simp
  have g2: "\<not> (of_nat ?h < (20 :: u16))" "\<not> (of_nat ?h > ?t \<or> ?t > n)" "\<not> (of_nat (length p) > n - of_nat ?h)"
    using assms u uh h by (simp_all add: runs_arith unat_u16_of_nat del: of_nat_add)
  have l: "length (put16 10 c (ipv4_header_bytes ipv4 ?t)) = ?h" by (simp add: ipv4_header_put ipv4_header_len_def)
  have r: "ld_range (put16 10 c (ipv4_header_bytes ipv4 ?t) @ p @ pad) 0 (?h + length p) = Some (put16 10 c (ipv4_header_bytes ipv4 ?t) @ p)"
    using l by (simp add: ld_range_def)
  let ?buf = "put16 10 c (ipv4_header_bytes ipv4 ?t) @ p @ pad"
  have reads: "rd8 ?buf = Some (if ip4_router_alert_option ipv4 then 64 OR 6 else 64 OR 5)" "rd8 (drop 1 ?buf) = Some (ip4_tos ipv4)"
    "rd_be16 (drop 2 ?buf) = Some ?t" "rd_be16 (drop 4 ?buf) = Some (ip4_id ipv4)" "rd_be16 (drop 6 ?buf) = Some (ip4_offset ipv4)"
    "rd8 (drop 8 ?buf) = Some (ip4_ttl ipv4)" "rd8 (drop 9 ?buf) = Some (ip4_protocol ipv4)"
    "rd_ne32 (drop 12 ?buf) = Some (ip4_src ipv4)" "rd_ne32 (drop 16 ?buf) = Some (ip4_dst ipv4)"
    unfolding ipv4_header_put by (simp_all del: of_nat_add)
  have d: "drop ?h ?buf = p @ pad" using l by simp
  show ?thesis
    by (simp only: ipv4_header_def g1 reads Option.bind.simps Let_def b t g2 u r uh d eth_keep if_False simp_thms)
       (intro exI conjI, rule refl, simp add: same_ipv4_def)
qed

text \<open>A layer in front of what is received.\<close>

lemma received_on_top:
  assumes "received d ls p" "same_layer s x" "length p \<le> unat n" "unat n \<le> length (p @ pad)" "sp_size ls \<le> unat sp"
  shows "\<exists>t l b ls'. on_top x (d (p @ pad) n sp (eth\<lparr>eth_tos := t', eth_ttl := l'\<rparr>)) =
    Some (eth\<lparr>eth_tos := t, eth_ttl := l, eth_bbl := Some b\<rparr>, Inr ls') \<and> list_all2 same_layer (s # ls) ls' \<and> last ls' = L_bbl b \<and> ls' \<noteq> []"
proof -
  obtain t l b ls' where d: "d (p @ pad) n sp (eth\<lparr>eth_tos := t', eth_ttl := l'\<rparr>) =
      Some (eth\<lparr>eth_tos := t', eth_ttl := l'\<rparr>\<lparr>eth_tos := t, eth_ttl := l, eth_bbl := Some b\<rparr>, Inr ls')"
    and r: "list_all2 same_layer ls ls'" "last ls' = L_bbl b" "ls' \<noteq> []"
    using receivedD [OF assms(1,3-5)] by metis
  have "on_top x (d (p @ pad) n sp (eth\<lparr>eth_tos := t', eth_ttl := l'\<rparr>)) =
      Some (eth\<lparr>eth_tos := t, eth_ttl := l, eth_bbl := Some b\<rparr>, Inr (x # ls'))"
    by (simp add: d on_top_def)
  with r assms(2) show ?thesis
    by (simp only:) (rule exI [of _ t], rule exI [of _ l], simp)
qed

lemma ipv4_received:
  assumes "received decode_udp ls p" "ip4_protocol ipv4 = 17" "\<not> ip4_fragment ipv4" "ipv4_header_len ipv4 + length p < 65536"
  shows "received (ipv4_with decode_udp) (L_ipv4 ipv4 # ls) (put16 10 c (ipv4_header_bytes ipv4 (of_nat (ipv4_header_len ipv4 + length p))) @ p)"
  unfolding received_def
proof (intro allI impI)
  let ?bs = "put16 10 c (ipv4_header_bytes ipv4 (of_nat (ipv4_header_len ipv4 + length p))) @ p"
  fix pad and n sp :: u16 and eth :: bbl_ethernet_header
  assume n: "length ?bs \<le> unat n" and sp: "sp_size (L_ipv4 ipv4 # ls) \<le> unat sp"
  have "length ?bs = ipv4_header_len ipv4 + length p" by (simp add: ipv4_header_put ipv4_header_len_def)
  with n sp obtain t l x where h: "ipv4_header (?bs @ pad) n sp eth = Some (eth\<lparr>eth_tos := t, eth_ttl := l\<rparr>, Inr (x, p @ pad, of_nat (length p)))"
    and x: "same_ipv4 ipv4 x"
    using ipv4_header_round_trip [OF assms(4), of n sp c pad eth] by auto
  have f: "\<not> ip4_fragment x" "ip4_protocol x = 17" using x assms(2,3) by (simp_all add: same_ipv4_def ip4_fragment_def)
  have m: "unat (of_nat (length p) :: u16) = length p" using assms(4) by (intro unat_u16_of_nat) simp
  have "sp_size ls \<le> unat (sp - 56)" using sp unat_minus [of 56 sp] by simp
  then show "\<exists>t l b ls'. ipv4_with decode_udp (?bs @ pad) n sp eth = Some (eth\<lparr>eth_tos := t, eth_ttl := l, eth_bbl := Some b\<rparr>, Inr ls') \<and>
      list_all2 same_layer (L_ipv4 ipv4 # ls) ls' \<and> last ls' = L_bbl b \<and> ls' \<noteq> []"
    using received_on_top [OF assms(1), of "L_ipv4 ipv4" "L_ipv4 x"] x m
    unfolding ipv4_with_def h by (simp add: f Let_def)
qed

lemma bit_ipv6_version: "bit (6 :: u8) n \<longleftrightarrow> n = 1 \<or> n = 2" "bit (0x6000 :: u16) n \<longleftrightarrow> n = 13 \<or> n = 14"
proof -
  have c: "(6 :: u8) = push_bit 1 (mask 2)" "(0x6000 :: u16) = push_bit 13 (mask 2)" by (simp_all add: mask_eq_exp_minus_1)
  show "bit (6 :: u8) n \<longleftrightarrow> n = 1 \<or> n = 2" "bit (0x6000 :: u16) n \<longleftrightarrow> n = 13 \<or> n = 14"
    unfolding c bit_push_bit_iff bit_mask_iff possible_bit_word by (simp_all, arith+)
qed

lemma ipv6_first_bits:
  fixes c :: u16 and d :: u8
  assumes "\<And>n. bit c n \<longleftrightarrow> n = 13 \<or> n = 14" "\<And>n. bit d n \<longleftrightarrow> n = 1 \<or> n = 2"
  shows "drop_bit 4 (ucast (drop_bit 8 (push_bit 4 (ucast (t :: u8)) OR c)) :: u8) AND mask 4 = d"
    and "ucast (drop_bit 4 (push_bit 4 (ucast t) OR c)) = t"
  by (rule bit_word_eqI, auto simp: bit_simps assms dest: bit_imp_le_length)
     (rule bit_word_eqI, auto simp: bit_simps assms dest: bit_imp_le_length)

lemma ipv6_tos_round_trip:
  "drop_bit 4 (ucast (drop_bit 8 (push_bit 4 (ucast (t :: u8)) OR 0x6000 :: u16)) :: u8) AND 0xf = 6"
  "ucast (drop_bit 4 (push_bit 4 (ucast t) OR 0x6000 :: u16)) = t"
  using ipv6_first_bits [OF bit_ipv6_version(2,1), of t] unfolding mask_eq_exp_minus_1 by simp_all

definition ipv6_header_bytes :: "bbl_ipv6 \<Rightarrow> u16 \<Rightarrow> u8 list" where
  "ipv6_header_bytes ipv6 n = w_be16 (push_bit 4 (ucast (ip6_tos ipv6)) OR 0x6000) @ [0, 0] @ w_be16 n @
     [ip6_protocol ipv6, ip6_ttl ipv6] @ ip6_src ipv6 @ ip6_dst ipv6"

lemma ipv6_header_round_trip:
  assumes "40 + length p < 65536" "40 + length p \<le> unat n" "56 \<le> unat sp" "length (ip6_src ipv6) = 16" "length (ip6_dst ipv6) = 16"
  shows "\<exists>t l x. ipv6_header (ipv6_header_bytes ipv6 (of_nat (length p)) @ p @ pad) n sp eth =
    Some (eth\<lparr>eth_tos := t, eth_ttl := l\<rparr>, Inr (x, p @ pad, of_nat (length p))) \<and> same_ipv6 ipv6 x"
proof -
  let ?buf = "ipv6_header_bytes ipv6 (of_nat (length p)) @ p @ pad"
  have u: "unat (of_nat (length p) :: u16) = length p" using assms(1) by (intro unat_u16_of_nat) simp
  have g: "\<not> (n < 40 \<or> sp < 56)" "\<not> (of_nat (length p) > n - 40)" using assms u by (simp_all add: runs_arith)
  have reads: "rd8 ?buf = Some (ucast (drop_bit 8 (push_bit 4 (ucast (ip6_tos ipv6)) OR 0x6000 :: u16)))"
    "rd_be16 ?buf = Some (push_bit 4 (ucast (ip6_tos ipv6)) OR 0x6000)"
    "rd_be16 (drop 4 ?buf) = Some (of_nat (length p))" "rd8 (drop 6 ?buf) = Some (ip6_protocol ipv6)" "rd8 (drop 7 ?buf) = Some (ip6_ttl ipv6)"
    "ld_range ?buf 8 16 = Some (ip6_src ipv6)" "ld_range ?buf 24 16 = Some (ip6_dst ipv6)"
    using assms(4,5) unfolding ipv6_header_bytes_def append_assoc rd_be16_w by (simp_all add: ld_range_def w_be16_def [of "push_bit 4 _ OR _"])
  have "length (ipv6_header_bytes ipv6 (of_nat (length p))) = 40" using assms(4,5) by (simp add: ipv6_header_bytes_def)
  then have all: "ld_range ?buf 0 (40 + length p) = Some (ipv6_header_bytes ipv6 (of_nat (length p)) @ p)" "drop 40 ?buf = p @ pad"
    by (simp_all add: ld_range_def)
  show ?thesis
    by (simp only: ipv6_header_def g reads Option.bind.simps Let_def ipv6_tos_round_trip u all eth_keep if_False simp_thms)
       (intro exI conjI, rule refl, simp add: same_ipv6_def)
qed

lemma ipv6_received:
  assumes "received decode_udp ls p" "ip6_protocol ipv6 = 17" "length (ip6_src ipv6) = 16" "length (ip6_dst ipv6) = 16" "40 + length p < 65536"
  shows "received (ipv6_with decode_udp) (L_ipv6 ipv6 # ls) (ipv6_header_bytes ipv6 (of_nat (length p)) @ p)"
  unfolding received_def
proof (intro allI impI)
  let ?bs = "ipv6_header_bytes ipv6 (of_nat (length p)) @ p"
  fix pad and n sp :: u16 and eth :: bbl_ethernet_header
  assume n: "length ?bs \<le> unat n" and sp: "sp_size (L_ipv6 ipv6 # ls) \<le> unat sp"
  have "length ?bs = 40 + length p" using assms(3,4) by (simp add: ipv6_header_bytes_def)
  with n sp obtain t l x where h: "ipv6_header (?bs @ pad) n sp eth = Some (eth\<lparr>eth_tos := t, eth_ttl := l\<rparr>, Inr (x, p @ pad, of_nat (length p)))"
    and x: "same_ipv6 ipv6 x"
    using ipv6_header_round_trip [OF assms(5) _ _ assms(3,4), of n sp pad eth] by auto
  have f: "ip6_protocol x = 17" using x assms(2) by (simp add: same_ipv6_def)
  have m: "unat (of_nat (length p) :: u16) = length p" using assms(5) by (intro unat_u16_of_nat) simp
  have "sp_size ls \<le> unat (sp - 56)" using sp unat_minus [of 56 sp] by simp
  then show "\<exists>t l b ls'. ipv6_with decode_udp (?bs @ pad) n sp eth = Some (eth\<lparr>eth_tos := t, eth_ttl := l, eth_bbl := Some b\<rparr>, Inr ls') \<and>
      list_all2 same_layer (L_ipv6 ipv6 # ls) ls' \<and> last ls' = L_bbl b \<and> ls' \<noteq> []"
    using received_on_top [OF assms(1), of "L_ipv6 ipv6" "L_ipv6 x"] x m
    unfolding ipv6_with_def h by (simp add: f Let_def)
qed

section \<open>L2TP\<close>

lemma and_then_Inr [simp]: "and_then (Some (Inr x)) f = f x"
  by (simp add: and_then_def)

text \<open>The decoder reads the fields of a data packet one after the other.\<close>

lemma l2tp_flags_round_trip:
  assumes "l2tp_type l2tp = 0" "8 \<le> unat n" "48 \<le> unat sp"
  shows "l2tp_flags (l2tp_flag_byte l2tp # 2 # r) n sp = Some (Inr (zero_l2tp\<lparr>l2tp_with_length := l2tp_with_length l2tp,
    l2tp_with_offset := l2tp_with_offset l2tp, l2tp_with_priority := l2tp_with_priority l2tp\<rparr>, r, n - 2))"
proof -
  have g: "\<not> (n < 8 \<or> sp < 48)" using assms(2,3) by (simp add: runs_arith)
  have b: "l2tp_flag_byte l2tp AND 0x80 = 0" "l2tp_flag_byte l2tp AND 0x08 = 0" "l2tp_flag_byte l2tp AND 0x40 \<noteq> 0 \<longleftrightarrow> l2tp_with_length l2tp"
    "l2tp_flag_byte l2tp AND 0x02 \<noteq> 0 \<longleftrightarrow> l2tp_with_offset l2tp" "l2tp_flag_byte l2tp AND 0x01 \<noteq> 0 \<longleftrightarrow> l2tp_with_priority l2tp"
    using assms(1) by (simp_all add: l2tp_flag_byte_def)
  have v: "(2 :: u8) AND 0x0f = 2" by simp
  show ?thesis
    unfolding l2tp_flags_def if_not_P [OF g] by (simp add: b v zero_l2tp_def)
qed

lemma l2tp_length_round_trip:
  assumes "l2tp_type x = 0" "l2tp_with_length x \<Longrightarrow> 4 \<le> k \<and> k < 65536 \<and> k \<le> unat n + 2" "2 \<le> unat n"
  shows "l2tp_length_field (x, (if l2tp_with_length x then w_be16 (of_nat k) else []) @ r, n) =
    Some (Inr (if l2tp_with_length x then x\<lparr>l2tp_length := of_nat k\<rparr> else x, r, if l2tp_with_length x then of_nat k - 4 else n))"
proof (cases "l2tp_with_length x")
  case True
  then have "\<not> (of_nat k - 4 > n - 2)"
    using assms(2) [OF True] assms(3) unat_minus [of 4 "of_nat k"] by (auto simp: runs_arith unat_u16_of_nat)
  with True show ?thesis by (simp add: l2tp_length_field_def)
qed (simp add: l2tp_length_field_def assms(1))

lemma l2tp_ids_round_trip:
  assumes "l2tp_type x = 0" "\<not> l2tp_with_sequence x" "4 \<le> unat n"
  shows "and_then (l2tp_id_fields (x, w_be16 a @ w_be16 b @ r, n)) l2tp_sequence_fields =
    Some (Inr (x\<lparr>l2tp_tunnel_id := a, l2tp_session_id := b\<rparr>, r, n - 4))"
proof -
  have "\<not> n < 4" using assms(3) by (simp add: runs_arith)
  with assms(1,2) show ?thesis by (simp add: l2tp_id_fields_def l2tp_sequence_fields_def and_then_def)
qed

lemma l2tp_offset_round_trip:
  assumes "l2tp_with_offset x \<Longrightarrow> length skipped = unat off \<and> 2 + unat off \<le> unat n"
  shows "l2tp_offset_field (x, (if l2tp_with_offset x then w_be16 off @ skipped else []) @ r, n) =
    Some (Inr (if l2tp_with_offset x then x\<lparr>l2tp_offset := off\<rparr> else x, r, if l2tp_with_offset x then n - 2 - off else n))"
proof (cases "l2tp_with_offset x")
  case True
  have "\<not> n < 2" "\<not> n - 2 < off" using assms [OF True] by (auto simp: runs_arith)
  with True assms show ?thesis by (auto simp: l2tp_offset_field_def Let_def)
qed (simp add: l2tp_offset_field_def)

lemma l2tp_body_round_trip:
  assumes "l2tp_type x = 0" "4 \<le> unat n" "unat n \<le> 4 + length r"
  shows "\<exists>payload. l2tp_body (x, 0xff # 0x03 # w_be16 p @ r, n) =
    Some (Inr (x\<lparr>l2tp_payload := Some payload, l2tp_payload_len := n, l2tp_protocol := p\<rparr>, Some (r, n - 4)))"
proof -
  have "\<not> n < 4" using assms(2) by (simp add: runs_arith)
  moreover have "ld_range (0xff # 0x03 # w_be16 p @ r) 0 (unat n) \<noteq> None" using assms(3) by (simp add: ld_range_None_iff)
  ultimately show ?thesis using assms(1) by (auto simp: l2tp_body_def)
qed

definition l2tp_wire :: "bbl_l2tp \<Rightarrow> u8 list \<Rightarrow> u8 list \<Rightarrow> u8 list" where
  "l2tp_wire l2tp skipped q =
     l2tp_flag_byte l2tp # 2 # (if l2tp_with_length l2tp then w_be16 (of_nat (layer_size (L_l2tp l2tp) + length q)) else []) @
     w_be16 (l2tp_tunnel_id l2tp) @ w_be16 (l2tp_session_id l2tp) @
     (if l2tp_with_offset l2tp then w_be16 (l2tp_offset l2tp) @ skipped else []) @ 0xff # 0x03 # w_be16 (l2tp_protocol l2tp) @ q"

lemma l2tp_header_round_trip:
  assumes "l2tp_type l2tp = 0" "l2tp_with_offset l2tp \<Longrightarrow> length skipped = unat (l2tp_offset l2tp)"
    "layer_size (L_l2tp l2tp) + length q < 65536" "layer_size (L_l2tp l2tp) + length q \<le> unat n"
    "unat n \<le> layer_size (L_l2tp l2tp) + length q + length pad" "48 \<le> unat sp"
  shows "\<exists>x m. l2tp_header (l2tp_wire l2tp skipped q @ pad) n sp = Some (Inr (x, Some (q @ pad, m))) \<and>
    same_l2tp l2tp x \<and> length q \<le> unat m \<and> unat m \<le> length (q @ pad)"
proof -
  let ?k = "layer_size (L_l2tp l2tp) + length q"
  let ?o = "if l2tp_with_offset l2tp then 2 + unat (l2tp_offset l2tp) else 0"
  define A where "A = (if l2tp_with_length l2tp then of_nat ?k - 4 else n - 2 :: u16)"
  define B where "B = (if l2tp_with_offset l2tp then A - 4 - 2 - l2tp_offset l2tp else A - 4)"
  have A: "8 + ?o + length q \<le> unat A" "unat A \<le> 8 + ?o + length q + length pad"
    using assms(3-5) unat_minus [of 4 "of_nat ?k"] unat_minus [of 2 n] unat_u16_of_nat [of ?k] by (auto simp: A_def)
  have A4: "unat (A - 4) = unat A - 4" using A unat_minus [of 4 A] by simp
  have "unat (A - 4 - 2) = unat A - 6" if "l2tp_with_offset l2tp" using A A4 that unat_minus [of 2 "A - 4"] by simp
  then have "unat (A - 4 - 2 - l2tp_offset l2tp) = unat A - 6 - unat (l2tp_offset l2tp)" if "l2tp_with_offset l2tp"
    using A that by (subst unat_sub_le) (simp_all add: word_le_nat_alt)
  then have "unat B = unat A - 4 - ?o" using A4 by (simp add: B_def)
  then have B: "4 + length q \<le> unat B" "unat B \<le> 4 + length (q @ pad)" using A by auto
  let ?x = "zero_l2tp\<lparr>l2tp_with_length := l2tp_with_length l2tp, l2tp_with_offset := l2tp_with_offset l2tp, l2tp_with_priority := l2tp_with_priority l2tp\<rparr>"
  have flags: "l2tp_flags (l2tp_flag_byte l2tp # 2 # r) n sp = Some (Inr (?x, r, n - 2))" for r
    using assms by (intro l2tp_flags_round_trip) (auto split: if_splits)
  define y where "y = (if l2tp_with_length l2tp then ?x\<lparr>l2tp_length := of_nat ?k\<rparr> else ?x)"
  have y: "l2tp_type y = 0" "\<not> l2tp_with_sequence y" "l2tp_with_offset y = l2tp_with_offset l2tp" "l2tp_with_length y = l2tp_with_length l2tp"
    "l2tp_with_priority y = l2tp_with_priority l2tp"
    by (simp_all add: y_def zero_l2tp_def)
  have len: "l2tp_length_field (?x, (if l2tp_with_length l2tp then w_be16 (of_nat ?k) else []) @ r, n - 2) = Some (Inr (y, r, A))" for r
    using l2tp_length_round_trip [of ?x ?k "n - 2" r] assms unat_minus [of 2 n] by (auto simp: A_def y_def zero_l2tp_def)
  have ids: "and_then (l2tp_id_fields (y, w_be16 (l2tp_tunnel_id l2tp) @ w_be16 (l2tp_session_id l2tp) @ r, A)) l2tp_sequence_fields =
    Some (Inr (y\<lparr>l2tp_tunnel_id := l2tp_tunnel_id l2tp, l2tp_session_id := l2tp_session_id l2tp\<rparr>, r, A - 4))" for r
    using A y by (intro l2tp_ids_round_trip) simp_all
  define z where "z = (let z = y\<lparr>l2tp_tunnel_id := l2tp_tunnel_id l2tp, l2tp_session_id := l2tp_session_id l2tp\<rparr> in
    if l2tp_with_offset l2tp then z\<lparr>l2tp_offset := l2tp_offset l2tp\<rparr> else z)"
  have ok: "l2tp_with_offset l2tp \<Longrightarrow> length skipped = unat (l2tp_offset l2tp) \<and> 2 + unat (l2tp_offset l2tp) \<le> unat (A - 4)"
    using A(1) A4 assms(2) by simp
  have off: "l2tp_offset_field (y\<lparr>l2tp_tunnel_id := l2tp_tunnel_id l2tp, l2tp_session_id := l2tp_session_id l2tp\<rparr>,
      (if l2tp_with_offset l2tp then w_be16 (l2tp_offset l2tp) @ skipped else []) @ r, A - 4) = Some (Inr (z, r, B))" for r
    using l2tp_offset_round_trip [of "y\<lparr>l2tp_tunnel_id := l2tp_tunnel_id l2tp, l2tp_session_id := l2tp_session_id l2tp\<rparr>" skipped "l2tp_offset l2tp" "A - 4" r]
      ok y(3) unfolding B_def z_def Let_def by (cases "l2tp_with_offset l2tp") simp_all
  have z: "l2tp_type z = 0" using y by (simp add: z_def Let_def)
  obtain payload where body: "l2tp_body (z, 0xff # 0x03 # w_be16 (l2tp_protocol l2tp) @ q @ pad, B) =
      Some (Inr (z\<lparr>l2tp_payload := Some payload, l2tp_payload_len := B, l2tp_protocol := l2tp_protocol l2tp\<rparr>, Some (q @ pad, B - 4)))"
    using l2tp_body_round_trip [OF z, of B "q @ pad" "l2tp_protocol l2tp"] B by auto
  have "unat (B - 4) = unat B - 4" using B unat_minus [of 4 B] by simp
  moreover have "same_l2tp l2tp (z\<lparr>l2tp_payload := Some payload, l2tp_payload_len := B, l2tp_protocol := l2tp_protocol l2tp\<rparr>)"
    using y assms(1) by (simp add: same_l2tp_def z_def Let_def)
  moreover have "l2tp_header (l2tp_wire l2tp skipped q @ pad) n sp =
      Some (Inr (z\<lparr>l2tp_payload := Some payload, l2tp_payload_len := B, l2tp_protocol := l2tp_protocol l2tp\<rparr>, Some (q @ pad, B - 4)))"
    by (simp only: l2tp_header_def l2tp_wire_def append_Cons append_assoc flags and_then_Inr len ids off body)
  ultimately show ?thesis using B by auto
qed

section \<open>Packets\<close>

text \<open>The IP decoder and encoder for the version of a packet.\<close>

definition decode_ip :: "layer list \<Rightarrow> decoder" where
  "decode_ip layers = (if is_ipv4 layers then decode_ipv4 else decode_ipv6)"

definition encode_ip :: encoder where
  "encode_ip old len layers = (if is_ipv4 layers then encode_ipv4 old len layers else encode_ipv6 old len layers)"

lemma ppp_with_ip: "ppp_with decode_udp (ppp_protocol layers) = decode_ip layers"
  by (intro ext) (simp add: ppp_with_def ppp_protocol_def decode_ip_def decode_ipv4_def decode_ipv6_def)

lemma encode_ppp_ip: "encode_ppp_with encode_udp (ppp_protocol layers) old len layers = encode_ip old len layers"
  by (simp add: encode_ppp_with_def ppp_protocol_def encode_ip_def encode_ipv4_def encode_ipv6_def)

lemmas received_on_top_same = received_on_top [where t' = "eth_tos eth" and l' = "eth_ttl eth" and eth = eth for eth, simplified]

lemma l2tp_received:
  assumes "received (decode_ip ls) ls q" "l2tp_type l2tp = 0" "l2tp_protocol l2tp = ppp_protocol ls"
    "l2tp_with_offset l2tp \<Longrightarrow> length skipped = unat (l2tp_offset l2tp)" "layer_size (L_l2tp l2tp) + length q < 65536"
  shows "received (l2tp_with decode_udp) (L_l2tp l2tp # ls) (l2tp_wire l2tp skipped q)"
  unfolding received_def
proof (intro allI impI)
  fix pad and n sp :: u16 and eth :: bbl_ethernet_header
  assume n: "length (l2tp_wire l2tp skipped q) \<le> unat n" "unat n \<le> length (l2tp_wire l2tp skipped q @ pad)"
    and sp: "sp_size (L_l2tp l2tp # ls) \<le> unat sp"
  have l: "length (l2tp_wire l2tp skipped q) = layer_size (L_l2tp l2tp) + length q"
    using assms(4) by (simp add: l2tp_wire_def)
  obtain x m where h: "l2tp_header (l2tp_wire l2tp skipped q @ pad) n sp = Some (Inr (x, Some (q @ pad, m)))"
    and x: "same_l2tp l2tp x" and m: "length q \<le> unat m" "unat m \<le> length (q @ pad)"
    using l2tp_header_round_trip [OF assms(2,4,5), of n pad sp] n sp l by auto
  have "l2tp_protocol x = ppp_protocol ls" using x assms(3) by (simp add: same_l2tp_def)
  moreover have "sp_size ls \<le> unat (sp - 48)" using sp unat_minus [of 48 sp] by simp
  ultimately show "\<exists>t l b ls'. l2tp_with decode_udp (l2tp_wire l2tp skipped q @ pad) n sp eth =
      Some (eth\<lparr>eth_tos := t, eth_ttl := l, eth_bbl := Some b\<rparr>, Inr ls') \<and> list_all2 same_layer (L_l2tp l2tp # ls) ls' \<and> last ls' = L_bbl b \<and> ls' \<noteq> []"
    using received_on_top_same [OF assms(1), of "L_l2tp l2tp" "L_l2tp x" m pad] x m
    unfolding l2tp_with_def h by (simp add: ppp_with_ip)
qed

lemma udp_l2tp_received:
  assumes "received (l2tp_with decode_udp) ls p" "udp_protocol udp = 3" "udp_src udp = 1701" "udp_dst udp = 1701" "8 + length p < 65536"
  shows "received decode_udp (L_udp udp # ls) (w_be16 (udp_src udp) @ w_be16 (udp_dst udp) @ w_be16 (of_nat (8 + length p)) @ w_ne16 c @ p)"
  unfolding received_def
proof (intro allI impI)
  let ?bs = "w_be16 (udp_src udp) @ w_be16 (udp_dst udp) @ w_be16 (of_nat (8 + length p)) @ w_ne16 c @ p"
  fix pad and n sp :: u16 and eth :: bbl_ethernet_header
  assume n: "length ?bs \<le> unat n" "unat n \<le> length (?bs @ pad)" and sp: "sp_size (L_udp udp # ls) \<le> unat sp"
  let ?x = "\<lparr>udp_src = udp_src udp, udp_dst = udp_dst udp, udp_payload_len = of_nat (length p), udp_protocol = 0\<rparr>"
  have h: "udp_header (w_be16 (udp_src udp) @ w_be16 (udp_dst udp) @ w_be16 (of_nat (8 + length p)) @ w_ne16 c @ p @ pad) n sp =
      Some (Inr (?x, p @ pad, of_nat (length p)))"
    using n sp assms(5) by (intro udp_header_round_trip) simp_all
  have port: "udp_port decode_udp ?x b l s e = l2tp_with decode_udp b l s e" "udp_protocol_of (udp_dst udp) = 3" for b l s e
    using assms(3,4) by (simp_all add: udp_port_def Let_def udp_protocol_of_def)
  have m: "length p \<le> unat (of_nat (length p) :: u16)" "unat (of_nat (length p) :: u16) \<le> length (p @ pad)"
    using assms(5) unat_u16_of_nat [of "length p"] by simp_all
  have s: "sp_size ls \<le> unat (sp - 24)" using sp unat_minus [of 24 sp] by simp
  obtain t l b ls' where d: "l2tp_with decode_udp (p @ pad) (of_nat (length p)) (sp - 24) eth =
      Some (eth\<lparr>eth_tos := t, eth_ttl := l, eth_bbl := Some b\<rparr>, Inr ls')" "list_all2 same_layer ls ls'" "last ls' = L_bbl b" "ls' \<noteq> []"
    by (rule receivedD [OF assms(1) m s])
  have "decode_udp (?bs @ pad) n sp eth =
      Some (eth\<lparr>eth_tos := t, eth_ttl := l, eth_bbl := Some b\<rparr>, Inr (L_udp (?x\<lparr>udp_protocol := 3\<rparr>) # ls'))"
    unfolding decode_udp.simps [of _ n] udp_with_def append_assoc h
    using d(1) by (simp add: port Let_def on_top_def)
  with d(2-) assms(2) show "\<exists>t l b ls'. decode_udp (?bs @ pad) n sp eth = Some (eth\<lparr>eth_tos := t, eth_ttl := l, eth_bbl := Some b\<rparr>, Inr ls') \<and>
      list_all2 same_layer (L_udp udp # ls) ls' \<and> last ls' = L_bbl b \<and> ls' \<noteq> []"
    by (simp only:) (rule exI [of _ t], rule exI [of _ l], simp add: same_udp_def)
qed

text \<open>A UDP packet as \<open>encode_ipv4\<close> and \<open>encode_ipv6\<close> complete it.\<close>

definition udp_wire :: "bbl_udp \<Rightarrow> u16 \<Rightarrow> u8 list \<Rightarrow> u8 list" where
  "udp_wire udp c p = w_be16 (udp_src udp) @ w_be16 (udp_dst udp) @ w_be16 (of_nat (8 + length p)) @ w_ne16 c @ p"

lemma udp_wire_put:
  "udp_put_length (w_be16 (udp_src udp) @ w_be16 (udp_dst udp) @ w_ne32 0 @ p) = udp_wire udp 0 p"
  "put16 6 c (udp_wire udp 0 p) = udp_wire udp c p"
  by (simp_all add: udp_put_length_def put_be16_def put16_def w_ne32_def udp_wire_def)

definition udp_carried :: "bbl_udp \<Rightarrow> layer list \<Rightarrow> u8 list \<Rightarrow> bool" where
  "udp_carried udp ls p \<longleftrightarrow> 8 + length p = wire_size (L_udp udp # ls) \<and> (\<forall>c. received decode_udp (L_udp udp # ls) (udp_wire udp c p))"

lemma udp_carriedD:
  assumes "udp_carried udp ls p"
  shows "length (udp_wire udp c p) = 8 + wire_size ls" "received decode_udp (L_udp udp # ls) (udp_wire udp c p)"
proof -
  show "length (udp_wire udp c p) = 8 + wire_size ls" using assms by (simp add: udp_carried_def udp_wire_def)
  show "received decode_udp (L_udp udp # ls) (udp_wire udp c p)" using assms by (simp add: udp_carried_def)
qed

definition ip_carried :: "layer list \<Rightarrow> u8 list \<Rightarrow> bool" where
  "ip_carried ls bs \<longleftrightarrow> length bs = wire_size ls \<and> received (decode_ip ls) ls bs \<and>
     bs \<noteq> [] \<and> drop_bit 4 (hd bs) AND 0xf = (if is_ipv4 ls then 4 else 6)"

lemma encode_udp_Cons:
  "encode_udp old len (L_udp udp # rest) = and_then (udp_payload encode_udp udp (drop 8 old) (len + 8) rest) (\<lambda>(bs, rest).
     Some (Inr (w_be16 (udp_src udp) @ w_be16 (udp_dst udp) @ w_ne32 0 @ bs, L_udp udp # rest)))"
  by (subst encode_udp.simps) (simp add: encode_udp_with_def)

lemma udp_bbl_round_trip:
  assumes "stream_udp udp (L_bbl bbl) []" "wire_size [L_udp udp, L_bbl bbl] < 65536"
  shows "\<exists>p. encode_udp old len [L_udp udp, L_bbl bbl] =
      Some (Inr (w_be16 (udp_src udp) @ w_be16 (udp_dst udp) @ w_ne32 0 @ p, [L_udp udp, L_bbl bbl])) \<and>
    udp_carried udp [L_bbl bbl] p"
proof -
  have u: "udp_protocol udp = 2" "stream_ports udp" "bbl_complete bbl" using assms(1) by (simp_all add: stream_udp_def)
  obtain p where p: "encode_bbl bbl = Some p" "length p = layer_size (L_bbl bbl)" using encode_bbl_complete [OF u(3)] by auto
  have "8 + length p < 65536" using p assms(2) by simp
  then show ?thesis using udp_bbl_received [OF u p(1)] p u(1)
    by (simp add: encode_udp_Cons udp_payload_def encode_leaf_def udp_carried_def udp_wire_def)
qed

lemma l2tp_encode:
  assumes "l2tp_type l2tp = 0" "\<not> l2tp_with_sequence l2tp" "l2tp_protocol l2tp = ppp_protocol ls" "layer_size (L_l2tp l2tp) \<le> length old"
  shows "\<exists>skipped old' len'. encode_l2tp_with encode_udp old len (L_l2tp l2tp # ls) =
      and_then (encode_ip old' len' ls) (\<lambda>(bs, rest). Some (Inr (l2tp_wire l2tp skipped bs, L_l2tp l2tp # rest))) \<and>
    (l2tp_with_offset l2tp \<longrightarrow> length skipped = unat (l2tp_offset l2tp)) \<and> length old' = length old - layer_size (L_l2tp l2tp)"
proof -
  let ?n = "if l2tp_with_length l2tp then 4 else 2 :: nat"
  let ?ids = "w_be16 (l2tp_tunnel_id l2tp) @ w_be16 (l2tp_session_id l2tp)"
  obtain fields skipped where f: "l2tp_fields (drop ?n old) l2tp = Some fields"
    "fields = ?ids @ (if l2tp_with_offset l2tp then w_be16 (l2tp_offset l2tp) @ skipped else [])"
    "l2tp_with_offset l2tp \<longrightarrow> length skipped = unat (l2tp_offset l2tp)"
  proof (cases "l2tp_with_offset l2tp")
    case True
    then have "ld_range (drop ?n old) 6 (unat (l2tp_offset l2tp)) \<noteq> None" using assms(4) by (simp add: ld_range_None_iff split: if_splits)
    then obtain sk where "ld_range (drop ?n old) 6 (unat (l2tp_offset l2tp)) = Some sk" by blast
    moreover have "length sk = unat (l2tp_offset l2tp)" using calculation by (auto simp: ld_range_def split: if_splits)
    ultimately show ?thesis using that [of "?ids @ w_be16 (l2tp_offset l2tp) @ sk" sk] True assms(2) by (simp add: l2tp_fields_def)
  qed (use that [of ?ids] assms(2) in \<open>simp add: l2tp_fields_def\<close>)
  have len: "?n + length fields + 4 = layer_size (L_l2tp l2tp)" using f(2,3) by simp
  have "?n + length fields + length ([0xff, 0x03] @ w_be16 (l2tp_protocol l2tp) @ bs) = layer_size (L_l2tp l2tp) + length bs" for bs
    using len by simp
  then have w: "[l2tp_flag_byte l2tp, 2] @ (if l2tp_with_length l2tp then w_be16 (of_nat (?n + length fields +
      length ([0xff, 0x03] @ w_be16 (l2tp_protocol l2tp) @ bs))) else []) @ fields @ [0xff, 0x03] @ w_be16 (l2tp_protocol l2tp) @ bs =
      l2tp_wire l2tp skipped bs" for bs
    by (simp only: l2tp_wire_def f(2) append_assoc append_Cons append_Nil)
  have l: "l2tp_set_flags l2tp = l2tp" using assms(1) by (simp add: l2tp_set_flags_def)
  have "encode_l2tp_with encode_udp old len (L_l2tp l2tp # ls) =
      and_then (encode_ip (drop (layer_size (L_l2tp l2tp)) old) (len + of_nat (layer_size (L_l2tp l2tp))) ls)
        (\<lambda>(bs, rest). Some (Inr (l2tp_wire l2tp skipped bs, L_l2tp l2tp # rest)))"
    by (simp only: encode_l2tp_with_def list.case layer.case Let_def l f(1) Option.bind.simps assms(1) simp_thms if_False len w [unfolded assms(3)] assms(3) encode_ppp_ip)
  with f(3) show ?thesis
    by (intro exI [of _ skipped] exI [of _ "drop (layer_size (L_l2tp l2tp)) old"] exI [of _ "len + of_nat (layer_size (L_l2tp l2tp))"]) simp
qed

lemma udp_l2tp_round_trip:
  assumes "stream_udp udp (L_l2tp l2tp) ls" "wire_size (L_udp udp # L_l2tp l2tp # ls) < 65536"
    "wire_size (L_udp udp # L_l2tp l2tp # ls) \<le> length old"
    "\<And>old len. wire_size ls \<le> length old \<Longrightarrow> \<exists>bs. encode_ip old len ls = Some (Inr (bs, ls)) \<and> ip_carried ls bs"
  shows "\<exists>p. encode_udp old len (L_udp udp # L_l2tp l2tp # ls) =
      Some (Inr (w_be16 (udp_src udp) @ w_be16 (udp_dst udp) @ w_ne32 0 @ p, L_udp udp # L_l2tp l2tp # ls)) \<and>
    udp_carried udp (L_l2tp l2tp # ls) p"
proof -
  have u: "udp_protocol udp = 3" "udp_src udp = 1701" "udp_dst udp = 1701" "l2tp_type l2tp = 0" "\<not> l2tp_with_sequence l2tp"
    "l2tp_protocol l2tp = ppp_protocol ls"
    using assms(1) by (simp_all add: stream_udp_def)
  have "layer_size (L_l2tp l2tp) \<le> length (drop 8 old)" using assms(3) by simp
  then obtain skipped old' len' where e: "encode_l2tp_with encode_udp (drop 8 old) (len + 8) (L_l2tp l2tp # ls) =
      and_then (encode_ip old' len' ls) (\<lambda>(bs, rest). Some (Inr (l2tp_wire l2tp skipped bs, L_l2tp l2tp # rest)))"
    and skip: "l2tp_with_offset l2tp \<Longrightarrow> length skipped = unat (l2tp_offset l2tp)" and old': "length old' = length old - 8 - layer_size (L_l2tp l2tp)"
    using l2tp_encode [OF u(4-6), of "drop 8 old" "len + 8"] by auto
  have "wire_size ls \<le> length old'" using assms(3) old' by simp
  then obtain q where q: "encode_ip old' len' ls = Some (Inr (q, ls))" "length q = wire_size ls" "received (decode_ip ls) ls q"
    using assms(4) unfolding ip_carried_def by blast
  have l: "length (l2tp_wire l2tp skipped q) = layer_size (L_l2tp l2tp) + length q" using skip by (simp add: l2tp_wire_def)
  have "layer_size (L_l2tp l2tp) + length q < 65536" "8 + length (l2tp_wire l2tp skipped q) < 65536" using l q(2) assms(2) by simp_all
  then have "received decode_udp (L_udp udp # L_l2tp l2tp # ls) (udp_wire udp c (l2tp_wire l2tp skipped q))" for c
    unfolding udp_wire_def using l2tp_received [OF q(3) u(4,6) skip] u(1-3) by (intro udp_l2tp_received)
  moreover have "encode_udp old len (L_udp udp # L_l2tp l2tp # ls) =
      Some (Inr (w_be16 (udp_src udp) @ w_be16 (udp_dst udp) @ w_ne32 0 @ l2tp_wire l2tp skipped q, L_udp udp # L_l2tp l2tp # ls))"
    using u(1) by (simp add: encode_udp_Cons udp_payload_def e q(1))
  ultimately show ?thesis using l q(2) unfolding udp_carried_def by (intro exI [of _ "l2tp_wire l2tp skipped q"]) simp
qed

lemma ipv4_round_trip:
  assumes "ip_ok (L_ipv4 ipv4)" "wire_size (L_ipv4 ipv4 # L_udp udp # ls) < 65536"
    "encode_udp (drop (ipv4_header_len ipv4) old) (len + of_nat (ipv4_header_len ipv4)) (L_udp udp # ls) =
      Some (Inr (w_be16 (udp_src udp) @ w_be16 (udp_dst udp) @ w_ne32 0 @ p, L_udp udp # ls))" "udp_carried udp ls p"
  shows "\<exists>bs. encode_ip old len (L_ipv4 ipv4 # L_udp udp # ls) = Some (Inr (bs, L_ipv4 ipv4 # L_udp udp # ls)) \<and>
    ip_carried (L_ipv4 ipv4 # L_udp udp # ls) bs"
proof -
  have i: "ip4_protocol ipv4 = 17" "\<not> ip4_fragment ipv4" using assms(1) by simp_all
  obtain c where c: "ipv4_payload encode_udp ipv4 (drop (ipv4_header_len ipv4) old) (len + of_nat (ipv4_header_len ipv4)) (L_udp udp # ls) =
      Some (Inr (udp_wire udp c p, L_udp udp # ls))"
    using assms(3) that [of 0] that [of "bbl_ipv4_udp_checksum (ip4_src ipv4) (ip4_dst ipv4) (udp_wire udp 0 p)"]
    by (cases "udp_protocol udp = 2 \<or> udp_protocol udp = 3")
      (auto simp: i(1) ipv4_payload_def Let_def udp_wire_put first_udp_protocol_def)
  have l: "length (udp_wire udp c p) = wire_size (L_udp udp # ls)" "received decode_udp (L_udp udp # ls) (udp_wire udp c p)"
    using assms(4) by (simp_all add: udp_carriedD)
  let ?h = "ipv4_header_bytes ipv4 (of_nat (ipv4_header_len ipv4 + length (udp_wire udp c p)))"
  have "received (ipv4_with decode_udp) (L_ipv4 ipv4 # L_udp udp # ls) (put16 10 (bbl_checksum ?h) ?h @ udp_wire udp c p)"
    using l assms(2) by (intro ipv4_received i) simp_all
  moreover have "encode_ip old len (L_ipv4 ipv4 # L_udp udp # ls) = Some (Inr (put16 10 (bbl_checksum ?h) ?h @ udp_wire udp c p, L_ipv4 ipv4 # L_udp udp # ls))"
    by (simp add: encode_ip_def is_ipv4_def encode_ipv4_def encode_ipv4_with_def c Let_def del: of_nat_add)
  moreover have "length (put16 10 (bbl_checksum ?h) ?h) = ipv4_header_len ipv4" "put16 10 (bbl_checksum ?h) ?h \<noteq> []"
    "drop_bit 4 (hd (put16 10 (bbl_checksum ?h) ?h)) AND 0xf = 4"
    by (simp_all add: ipv4_header_put ipv4_header_len_def)
  ultimately show ?thesis using l(1)
    by (simp add: ip_carried_def decode_ip_def is_ipv4_def decode_ipv4_def del: of_nat_add)
qed

lemma ipv6_round_trip:
  assumes "ip_ok (L_ipv6 ipv6)" "wire_size (L_ipv6 ipv6 # L_udp udp # ls) < 65536"
    "encode_udp (drop 40 old) (len + 40) (L_udp udp # ls) =
      Some (Inr (w_be16 (udp_src udp) @ w_be16 (udp_dst udp) @ w_ne32 0 @ p, L_udp udp # ls))" "udp_carried udp ls p"
  shows "\<exists>bs. encode_ip old len (L_ipv6 ipv6 # L_udp udp # ls) = Some (Inr (bs, L_ipv6 ipv6 # L_udp udp # ls)) \<and>
    ip_carried (L_ipv6 ipv6 # L_udp udp # ls) bs"
proof -
  have i: "ip6_protocol ipv6 = 17" "length (ip6_src ipv6) = 16" "length (ip6_dst ipv6) = 16" using assms(1) by simp_all
  have a: "ld_range (ip6_src ipv6) 0 16 = Some (ip6_src ipv6)" "ld_range (ip6_dst ipv6) 0 16 = Some (ip6_dst ipv6)"
    using i(2,3) by (simp_all add: ld_range_def)
  then obtain k where k: "bbl_ipv6_udp_checksum (ip6_src ipv6) (ip6_dst ipv6) (udp_wire udp 0 p) = Some k"
    by (simp add: bbl_ipv6_udp_checksum_def pseudo6_def)
  obtain c where c: "ipv6_payload encode_udp ipv6 (drop 40 old) (len + 40) (L_udp udp # ls) = Some (Inr (udp_wire udp c p, L_udp udp # ls))"
    using assms(3) that [of 0] that [of k]
    by (cases "udp_protocol udp = 2") (auto simp: i(1) k ipv6_payload_def Let_def udp_wire_put first_udp_protocol_def)
  have l: "length (udp_wire udp c p) = wire_size (L_udp udp # ls)" "received decode_udp (L_udp udp # ls) (udp_wire udp c p)"
    using assms(4) by (simp_all add: udp_carriedD)
  let ?bs = "ipv6_header_bytes ipv6 (of_nat (length (udp_wire udp c p))) @ udp_wire udp c p"
  have "received (ipv6_with decode_udp) (L_ipv6 ipv6 # L_udp udp # ls) ?bs"
    using l assms(2) by (intro ipv6_received i) simp_all
  moreover have "encode_ip old len (L_ipv6 ipv6 # L_udp udp # ls) = Some (Inr (?bs, L_ipv6 ipv6 # L_udp udp # ls))"
    by (simp add: encode_ip_def is_ipv4_def encode_ipv6_def encode_ipv6_with_def a c ipv6_header_bytes_def)
  moreover have "length ?bs = 40 + length (udp_wire udp c p)" "?bs \<noteq> []" using i by (simp_all add: ipv6_header_bytes_def)
  moreover have "drop_bit 4 (hd ?bs) AND 0xf = 6"
    unfolding ipv6_header_bytes_def w_be16_def [of "push_bit 4 _ OR _"] append_Cons list.sel by (rule ipv6_tos_round_trip)
  ultimately show ?thesis using l(1)
    by (simp add: ip_carried_def decode_ip_def is_ipv4_def decode_ipv6_def)
qed

theorem packet_round_trip:
  assumes "stream_packet ls" "wire_size ls < 65536" "wire_size ls \<le> length old"
  shows "\<exists>bs. encode_ip old len ls = Some (Inr (bs, ls)) \<and> ip_carried ls bs"
  using assms
proof (induction ls arbitrary: old len rule: stream_packet.induct)
  case (1 ip udp layer rest)
  then obtain u where u: "udp = L_udp u" "stream_udp u layer rest" by (cases udp) auto
  have udp: "\<exists>p. encode_udp old' len' (L_udp u # layer # rest) =
      Some (Inr (w_be16 (udp_src u) @ w_be16 (udp_dst u) @ w_ne32 0 @ p, L_udp u # layer # rest)) \<and> udp_carried u (layer # rest) p"
    if "wire_size (L_udp u # layer # rest) \<le> length old'" for old' len'
  proof (cases layer)
    case (L_l2tp l2tp)
    then have "rest \<noteq> []" using u(2) by (simp add: stream_udp_def)
    then have "\<exists>bs. encode_ip o' l' rest = Some (Inr (bs, rest)) \<and> ip_carried rest bs" if "wire_size rest \<le> length o'" for o' l'
      using 1 that by simp
    then show ?thesis using u(2) 1(3) that unfolding L_l2tp u(1) by (intro udp_l2tp_round_trip) simp_all
  next
    case (L_bbl bbl)
    then have "rest = []" using u(2) by (simp add: stream_udp_def)
    then show ?thesis using u(2) 1(3) unfolding L_bbl u(1) by (simp add: udp_bbl_round_trip)
  qed (use u(2) in \<open>simp_all add: stream_udp_def\<close>)
  show ?case
  proof (cases ip)
    case (L_ipv4 ipv4)
    have "wire_size (L_udp u # layer # rest) \<le> length (drop (ipv4_header_len ipv4) old)" using 1(4) by (simp add: u(1) L_ipv4)
    then obtain p where "encode_udp (drop (ipv4_header_len ipv4) old) (len + of_nat (ipv4_header_len ipv4)) (L_udp u # layer # rest) =
        Some (Inr (w_be16 (udp_src u) @ w_be16 (udp_dst u) @ w_ne32 0 @ p, L_udp u # layer # rest))" "udp_carried u (layer # rest) p"
      using udp by blast
    then show ?thesis using 1(2,3) unfolding L_ipv4 u(1) by (intro ipv4_round_trip) simp_all
  next
    case (L_ipv6 ipv6)
    have "wire_size (L_udp u # layer # rest) \<le> length (drop 40 old)" using 1(4) by (simp add: u(1) L_ipv6)
    then obtain p where "encode_udp (drop 40 old) (len + 40) (L_udp u # layer # rest) =
        Some (Inr (w_be16 (udp_src u) @ w_be16 (udp_dst u) @ w_ne32 0 @ p, L_udp u # layer # rest))" "udp_carried u (layer # rest) p"
      using udp by blast
    then show ?thesis using 1(2,3) unfolding L_ipv6 u(1) by (intro ipv6_round_trip) simp_all
  qed (use 1(2) in simp_all)
qed simp_all

section \<open>PPPoE\<close>

definition pppoe_wire :: "bbl_pppoe_session \<Rightarrow> u8 list \<Rightarrow> u8 list" where
  "pppoe_wire pppoe q =
     [17, 0] @ w_be16 (pses_session_id pppoe) @ w_be16 (of_nat (length q) + 2) @ w_be16 (pses_protocol pppoe) @ q"

lemma pppoe_received:
  assumes "received (decode_ip ls) ls q" "pses_protocol pppoe = ppp_protocol ls" "8 + length q < 65536"
  shows "received decode_pppoe_session (L_pppoe_session pppoe # ls) (pppoe_wire pppoe q)"
  unfolding received_def
proof (intro allI impI)
  fix pad and n sp :: u16 and eth :: bbl_ethernet_header
  assume n: "length (pppoe_wire pppoe q) \<le> unat n" "unat n \<le> length (pppoe_wire pppoe q @ pad)"
    and sp: "sp_size (L_pppoe_session pppoe # ls) \<le> unat sp"
  let ?x = "\<lparr>pses_session_id = pses_session_id pppoe, pses_protocol = pses_protocol pppoe, pses_raw_len = 0, pses_lwip = False\<rparr>"
  have u: "unat (of_nat (length q) :: u16) = length q" using assms(3) by (intro unat_u16_of_nat) simp
  have n8: "8 + length q \<le> unat n" using n(1) by (simp add: pppoe_wire_def)
  have g: "\<not> (n < 8 \<or> sp < 16)" "\<not> (of_nat (length q) > n - 8)"
    using n8 sp u by (simp_all add: runs_arith)
  have h: "pppoe_session_header (pppoe_wire pppoe q @ pad) n sp = Some (Inr (?x, q @ pad, of_nat (length q)))"
    using g(2) unfolding pppoe_session_header_def if_not_P [OF g(1)] by (simp add: pppoe_wire_def)
  have "sp_size ls \<le> unat (sp - 16)" using sp unat_minus [of 16 sp] by simp
  then show "\<exists>t l b ls'. decode_pppoe_session (pppoe_wire pppoe q @ pad) n sp eth =
      Some (eth\<lparr>eth_tos := t, eth_ttl := l, eth_bbl := Some b\<rparr>, Inr ls') \<and> list_all2 same_layer (L_pppoe_session pppoe # ls) ls' \<and> last ls' = L_bbl b \<and> ls' \<noteq> []"
    using received_on_top_same [OF assms(1), of "L_pppoe_session pppoe" "L_pppoe_session ?x" "of_nat (length q)" pad] u
    unfolding decode_pppoe_session_def pppoe_session_with_def h
    by (simp add: same_pppoe_session_def assms(2) ppp_with_ip)
qed

lemma encode_pppoe:
  assumes "pses_raw_len pppoe = 0" "\<not> pses_lwip pppoe" "pses_protocol pppoe = ppp_protocol ls"
  shows "encode_pppoe_session old len (L_pppoe_session pppoe # ls) =
    and_then (encode_ip (drop 8 old) (len + 8) ls) (\<lambda>(bs, rest). Some (Inr (pppoe_wire pppoe bs, L_pppoe_session pppoe # rest)))"
  using assms by (simp add: encode_pppoe_session_def encode_pppoe_session_with_def encode_ppp_ip pppoe_wire_def)

section \<open>VLAN tags and MPLS labels\<close>

lemma bit_less: "unat (w :: 'a::len word) < 2 ^ k \<Longrightarrow> bit w n \<Longrightarrow> n < k"
proof (rule ccontr)
  assume "unat w < 2 ^ k" "bit w n" "\<not> n < k"
  then have "bit (unat w) n" "unat w < 2 ^ n"
    by (auto simp: bit_unsigned_iff intro: order_less_le_trans power_increasing)
  then show False by (simp add: bit_iff_odd)
qed

lemma bit_ff: "bit (0xff :: u16) n \<longleftrightarrow> n < 8" "bit (4095 :: u16) n \<longleftrightarrow> n < 12"
proof -
  have "(0xff :: u16) = mask 8" "(4095 :: u16) = mask 12" by (simp_all add: mask_eq_exp_minus_1)
  then show "bit (0xff :: u16) n \<longleftrightarrow> n < 8" "bit (4095 :: u16) n \<longleftrightarrow> n < 12"
    by (simp_all only: bit_mask_iff possible_bit_word) auto
qed

lemma be16toh_eq: "be16toh x = push_bit 8 x OR drop_bit 8 x"
proof -
  have "push_bit 8 (x AND m) = push_bit 8 x" if "\<And>n. bit m n \<longleftrightarrow> n < 8" for m :: u16
    by (rule bit_word_eqI) (auto simp: bit_simps that)
  then show ?thesis unfolding be16toh_def by (simp only: bit_ff)
qed

lemma be16toh_be16toh [simp]: "be16toh (be16toh x) = x"
  unfolding be16toh_eq by (rule bit_word_eqI) (auto simp: bit_simps dest: bit_imp_le_length)

lemma rd_ne16_be: "rd_ne16 (w_be16 x @ r) = Some (be16toh x)"
proof -
  have "ucast (ucast (drop_bit 8 x) :: u8) OR push_bit 8 (ucast (ucast x :: u8)) = (be16toh x :: u16)"
    unfolding be16toh_eq by (rule bit_word_eqI) (auto simp: bit_simps dest: bit_imp_le_length)
  then show ?thesis by (simp add: w_be16_def)
qed

lemma tci_bits:
  fixes v m :: u16 and p :: u8
  assumes "\<And>n. bit v n \<Longrightarrow> n < 12" "\<And>n. bit p n \<Longrightarrow> n < 3" "\<And>n. bit m n \<longleftrightarrow> n < 12"
  shows "drop_bit 5 (ucast (drop_bit 8 (v OR push_bit 13 (ucast p))) :: u8) = p" "(v OR push_bit 13 (ucast p)) AND m = v"
proof -
  show "drop_bit 5 (ucast (drop_bit 8 (v OR push_bit 13 (ucast p))) :: u8) = p"
    by (rule bit_word_eqI) (auto simp: bit_simps dest: assms(1,2))
  show "(v OR push_bit 13 (ucast p)) AND m = v"
    by (rule bit_word_eqI) (auto simp: bit_simps assms(3) dest: assms(1,2))
qed

lemma tci_round_trip:
  fixes v :: u16 and p :: u8
  assumes "v < 4096" "p < 8"
  shows "drop_bit 5 (ucast (drop_bit 8 (v OR push_bit 13 (ucast p))) :: u8) = p" "(v OR push_bit 13 (ucast p)) AND 4095 = v"
  using tci_bits [OF bit_less [of v 12] bit_less [of p 3] bit_ff(2)] assms by (simp_all add: word_less_nat_alt)

definition mpls_ok :: "bbl_mpls \<Rightarrow> bool" where
  "mpls_ok m \<longleftrightarrow> mpls_label m < 0x100000 \<and> mpls_exp m < 8"

lemma mpls_bits:
  fixes label c :: u32 and e exp ttl m1 m7 :: u8
  assumes "\<And>n. bit label n \<Longrightarrow> n < 20" "\<And>n. bit exp n \<Longrightarrow> n < 3" "\<And>n. bit c n \<longleftrightarrow> bos \<and> n = 8"
    "\<And>n. bit m1 n \<longleftrightarrow> n = 0" "\<And>n. bit m7 n \<longleftrightarrow> n < 3"
    "\<And>n. bit e n \<longleftrightarrow> 1 \<le> n \<and> bit exp (n - 1)"
  defines "w \<equiv> push_bit 12 label OR push_bit 8 (ucast e) OR ucast ttl OR c"
  shows "drop_bit 12 w = label" "drop_bit 1 (ucast (drop_bit 8 (ucast w :: u16)) :: u8) AND m7 = exp"
    "ucast (ucast w :: u16) = ttl" "(ucast (drop_bit 8 (ucast w :: u16)) :: u8) AND m1 = (if bos then m1 else 0)"
proof -
  show "drop_bit 12 w = label" unfolding w_def
    by (rule bit_word_eqI) (auto simp: bit_simps assms(3,6) dest: assms(1,2) bit_imp_le_length)
  show "drop_bit 1 (ucast (drop_bit 8 (ucast w :: u16)) :: u8) AND m7 = exp" unfolding w_def
    by (rule bit_word_eqI) (auto simp: bit_simps assms(3,5,6) dest: assms(1,2) bit_imp_le_length)
  show "ucast (ucast w :: u16) = ttl" unfolding w_def
    by (rule bit_word_eqI) (auto simp: bit_simps assms(3,6) dest: assms(1,2) bit_imp_le_length)
  show "(ucast (drop_bit 8 (ucast w :: u16)) :: u8) AND m1 = (if bos then m1 else 0)" unfolding w_def
    by (rule bit_word_eqI) (auto simp: bit_simps assms(3,4,6) dest: assms(1,2) bit_imp_le_length)
qed

lemma mpls_consts: "bit (0x100 :: u32) n \<longleftrightarrow> n = 8" "bit (1 :: u8) n \<longleftrightarrow> n = 0" "bit (7 :: u8) n \<longleftrightarrow> n < 3"
proof -
  have "(0x100 :: u32) = push_bit 8 (mask 1)" "(7 :: u8) = mask 3" by (simp_all add: mask_eq_exp_minus_1)
  then show "bit (0x100 :: u32) n \<longleftrightarrow> n = 8" "bit (7 :: u8) n \<longleftrightarrow> n < 3"
    by (simp_all only: bit_push_bit_iff bit_mask_iff possible_bit_word) auto
  show "bit (1 :: u8) n \<longleftrightarrow> n = 0" by (simp add: bit_1_iff)
qed

lemma mpls_word_round_trip:
  fixes bos :: bool
  assumes "mpls_ok m"
  defines "w \<equiv> mpls_word m OR (if bos then 0x100 else 0)"
  shows "drop_bit 12 w = mpls_label m" "drop_bit 1 (ucast (drop_bit 8 (ucast w :: u16)) :: u8) AND 7 = mpls_exp m"
    "ucast (ucast w :: u16) = mpls_ttl m" "(ucast (drop_bit 8 (ucast w :: u16)) :: u8) AND 1 \<noteq> 0 \<longleftrightarrow> bos"
proof -
  have l: "unat (mpls_label m) < 2 ^ 20" "unat (mpls_exp m) < 2 ^ 3" using assms(1) by (simp_all add: mpls_ok_def word_less_nat_alt)
  have c: "bit (if bos then 0x100 else 0 :: u32) n \<longleftrightarrow> bos \<and> n = 8" for n
    by (cases bos) (simp_all only: mpls_consts(1) if_True if_False simp_thms bit_0_eq bot_fun_def bot_bool_def)
  have e: "bit (push_bit 1 (mpls_exp m)) n \<longleftrightarrow> 1 \<le> n \<and> bit (mpls_exp m) (n - 1)" for n
    using bit_less [OF l(2), of "n - 1"] by (simp only: bit_push_bit_iff possible_bit_word) auto
  note b = mpls_bits [OF bit_less [OF l(1)] bit_less [OF l(2)] c mpls_consts(2,3) e, where ttl = "mpls_ttl m"]
  show "drop_bit 12 w = mpls_label m" "drop_bit 1 (ucast (drop_bit 8 (ucast w :: u16)) :: u8) AND 7 = mpls_exp m"
    "ucast (ucast w :: u16) = mpls_ttl m" "(ucast (drop_bit 8 (ucast w :: u16)) :: u8) AND 1 \<noteq> 0 \<longleftrightarrow> bos"
    using b unfolding w_def mpls_word_def or.assoc by (simp_all only: if_splits) auto
qed


lemma mpls_reads:
  "rd_be32 (w_be32 w @ r) = Some w" "rd8 (drop 2 (w_be32 w @ r)) = Some (ucast (drop_bit 8 (ucast w :: u16)))"
  "rd8 (drop 3 (w_be32 w @ r)) = Some (ucast (ucast w :: u16))" "drop 4 (w_be32 w @ r) = r"
  by (simp_all) (simp_all add: w_be32_def w_be16_def)

lemma length_mpls_bytes [simp]: "length (mpls_bytes ms) = 4 * length ms"
  by (induction ms rule: mpls_bytes.induct) simp_all

lemma mpls_loop_round_trip:
  assumes "ms \<noteq> []" "list_all mpls_ok ms" "4 * length ms < unat n" "16 * (length ms - 1) \<le> unat sp"
  shows "mpls_loop (mpls_bytes ms @ r) n sp = Some (Inr (ms, r, n - of_nat (4 * length ms), sp - of_nat (16 * (length ms - 1))))"
  using assms
proof (induction ms arbitrary: n sp rule: mpls_bytes.induct)
  case (2 m)
  have g: "\<not> n < 5" using 2(3) by (simp add: runs_arith)
  define w where "w = mpls_word m OR 0x100"
  note w = mpls_word_round_trip [of m True, unfolded if_True, folded w_def]
  show ?case using 2(2) unfolding mpls_bytes.simps w_def [symmetric]
    by (subst mpls_loop.simps) (simp add: g mpls_reads w Let_def del: drop_append One_nat_def)
next
  case (3 m m' ms)
  have g: "\<not> n < 5" "\<not> sp < 16" using 3(4,5) by (simp_all add: runs_arith)
  define w where "w = mpls_word m"
  note w = mpls_word_round_trip [of m False, unfolded if_False or.right_neutral, folded w_def]
  have n: "unat (n - 4) = unat n - 4" "unat (sp - 16) = unat sp - 16"
    using 3(4,5) unat_minus [of 4 n] unat_minus [of 16 sp] by simp_all
  have "mpls_loop (mpls_bytes (m' # ms) @ r) (n - 4) (sp - 16) =
      Some (Inr (m' # ms, r, n - 4 - of_nat (4 * length (m' # ms)), sp - 16 - of_nat (16 * (length (m' # ms) - 1))))"
    using 3(3-5) n by (intro 3(1)) simp_all
  then show ?case using 3(3) unfolding mpls_bytes.simps append_assoc w_def [symmetric]
    by (subst mpls_loop.simps) (simp add: g mpls_reads w Let_def algebra_simps del: drop_append One_nat_def)
qed simp

definition vlan_ok :: "bbl_ethernet_header \<Rightarrow> bool" where
  "vlan_ok eth \<longleftrightarrow>
     eth_vlan_outer eth < 4096 \<and> eth_vlan_inner eth < 4096 \<and> eth_vlan_three eth < 4096 \<and>
     eth_vlan_outer_priority eth < 8 \<and> eth_vlan_inner_priority eth < 8 \<and>
     (eth_vlan_outer eth = 0 \<longrightarrow> eth_vlan_inner eth = 0 \<and> eth_vlan_outer_priority eth = 0) \<and>
     (eth_vlan_inner eth = 0 \<longrightarrow> eth_vlan_three eth = 0 \<and> eth_vlan_inner_priority eth = 0)"

lemma eth_tag_round_trip:
  assumes "v < 4096" "p < 8" "4 \<le> unat n"
  shows "eth_tag (w_be16 (v OR push_bit 13 (ucast p)) @ w_be16 t @ r) n = Some (Inr (p, v, be16toh t))"
proof -
  have g: "\<not> n < 4" using assms(3) by (simp add: runs_arith)
  have r: "rd8 (w_be16 x @ y) = Some (ucast (drop_bit 8 x))" for x y by (simp add: w_be16_def)
  have d: "drop 2 (w_be16 x @ y) = y" for x y by simp
  show ?thesis
    by (simp only: eth_tag_def g if_False r rd_be16_w d rd_ne16_be Option.bind.simps tci_round_trip [OF assms(1,2)])
qed


lemma vlan_bytes_cases:
  "eth_vlan_outer e = 0 \<Longrightarrow> vlan_bytes e = []"
  "eth_vlan_outer e \<noteq> 0 \<Longrightarrow> eth_vlan_inner e = 0 \<Longrightarrow> vlan_bytes e = w_be16 (if eth_qinq e then 0x88A8 else 0x8100) @
     w_be16 (eth_vlan_outer e OR push_bit 13 (ucast (eth_vlan_outer_priority e)))"
  "eth_vlan_outer e \<noteq> 0 \<Longrightarrow> eth_vlan_inner e \<noteq> 0 \<Longrightarrow> eth_vlan_three e = 0 \<Longrightarrow> vlan_bytes e = w_be16 (if eth_qinq e then 0x88A8 else 0x8100) @
     w_be16 (eth_vlan_outer e OR push_bit 13 (ucast (eth_vlan_outer_priority e))) @ w_be16 0x8100 @
     w_be16 (eth_vlan_inner e OR push_bit 13 (ucast (eth_vlan_inner_priority e)))"
  "eth_vlan_outer e \<noteq> 0 \<Longrightarrow> eth_vlan_inner e \<noteq> 0 \<Longrightarrow> eth_vlan_three e \<noteq> 0 \<Longrightarrow> vlan_bytes e = w_be16 (if eth_qinq e then 0x88A8 else 0x8100) @
     w_be16 (eth_vlan_outer e OR push_bit 13 (ucast (eth_vlan_outer_priority e))) @ w_be16 0x8100 @
     w_be16 (eth_vlan_inner e OR push_bit 13 (ucast (eth_vlan_inner_priority e))) @ w_be16 0x8100 @ w_be16 (eth_vlan_three e)"
  by (simp_all add: vlan_bytes_def eth_set_priorities_def)

lemma is_vlan_tpid: "is_vlan (be16toh (if q then 0x88A8 else 0x8100))" "is_vlan (be16toh 0x8100)" "be16toh (if q then 0x88A8 else 0x8100) \<noteq> 0x88A8"
  by (simp_all add: is_vlan_def be16toh_def)

lemma eth_tags_round_trip:
  assumes "vlan_ok e" "\<not> is_vlan (be16toh t)" "length (vlan_bytes e) \<le> unat n"
    and z_def: "z = zero_ethernet\<lparr>eth_length := a, eth_dst := b, eth_src := c\<rparr>"
  shows "\<exists>t0. rd_ne16 (vlan_bytes e @ w_be16 t @ r) = Some t0 \<and>
    eth_tags (z\<lparr>eth_type := t0\<rparr>) (drop 2 (vlan_bytes e @ w_be16 t @ r)) n =
      Some (Inr (z\<lparr>eth_vlan_outer := eth_vlan_outer e, eth_vlan_inner := eth_vlan_inner e, eth_vlan_three := eth_vlan_three e,
        eth_vlan_outer_priority := eth_vlan_outer_priority e, eth_vlan_inner_priority := eth_vlan_inner_priority e, eth_type := be16toh t\<rparr>,
        r, n - of_nat (length (vlan_bytes e))))"
proof -
  have d: "drop 2 (w_be16 x @ y) = y" "drop 4 (w_be16 x @ w_be16 x' @ y) = y" for x x' y by simp_all
  have v: "eth_vlan_outer e < 4096" "eth_vlan_inner e < 4096" "eth_vlan_three e < 4096" "eth_vlan_outer_priority e < 8" "eth_vlan_inner_priority e < 8"
    using assms(1) by (simp_all add: vlan_ok_def)
  have p: "(0 :: u8) < 8" by simp
  note tag = eth_tag_round_trip [OF v(1,4)] eth_tag_round_trip [OF v(2,5)] eth_tag_round_trip [OF v(3) p, simplified]
  consider (none) "eth_vlan_outer e = 0" | (one) "eth_vlan_outer e \<noteq> 0" "eth_vlan_inner e = 0"
    | (two) "eth_vlan_outer e \<noteq> 0" "eth_vlan_inner e \<noteq> 0" "eth_vlan_three e = 0"
    | (three) "eth_vlan_outer e \<noteq> 0" "eth_vlan_inner e \<noteq> 0" "eth_vlan_three e \<noteq> 0" by blast
  then show ?thesis
  proof cases
    case none
    then show ?thesis using assms(1,2) by (simp add: vlan_bytes_cases(1) rd_ne16_be eth_tags_def vlan_ok_def z_def zero_ethernet_def)
  next
    case one
    then have "4 \<le> unat n" using assms(3) by (simp add: vlan_bytes_cases(2))
    then show ?thesis using assms(1,2) one is_vlan_tpid(3)
      unfolding vlan_bytes_cases(2) [OF one] append_assoc rd_ne16_be d eth_tags_def
      by (simp add: d tag is_vlan_tpid vlan_ok_def z_def zero_ethernet_def del: drop_append)
  next
    case two
    then have n: "8 \<le> unat n" using assms(3) by (simp add: vlan_bytes_cases(3))
    then have "4 \<le> unat (n - 4)" using unat_minus [of 4 n] by simp
    with n show ?thesis using assms(1,2) two is_vlan_tpid(3)
      unfolding vlan_bytes_cases(3) [OF two] append_assoc rd_ne16_be d eth_tags_def
      by (simp add: d tag is_vlan_tpid vlan_ok_def z_def zero_ethernet_def del: drop_append)
  next
    case three
    then have n: "12 \<le> unat n" using assms(3) by (simp add: vlan_bytes_cases(4))
    then have "4 \<le> unat (n - 4)" "4 \<le> unat (n - 8)" using unat_minus [of 4 n] unat_minus [of 8 n] by simp_all
    with n show ?thesis using assms(1,2) three is_vlan_tpid(3)
      unfolding vlan_bytes_cases(4) [OF three] append_assoc rd_ne16_be d eth_tags_def
      by (simp add: d tag is_vlan_tpid vlan_ok_def z_def zero_ethernet_def del: drop_append)
  qed
qed

lemma length_vlan_bytes: "length (vlan_bytes e) = (if eth_vlan_outer e = 0 then 0
    else 4 + (if eth_vlan_inner e = 0 then 0 else 4 + (if eth_vlan_three e = 0 then 0 else 4)))"
  by (simp add: vlan_bytes_def Let_def)

section \<open>Ethernet\<close>

definition eth_ok :: "bbl_ethernet_header \<Rightarrow> bool" where
  "eth_ok eth \<longleftrightarrow> (case eth_dst eth of None \<Rightarrow> True | Some dst \<Rightarrow> length dst = 6) \<and>
     (case eth_src eth of None \<Rightarrow> False | Some src \<Rightarrow> length src = 6) \<and>
     vlan_ok eth \<and> list_all mpls_ok (eth_mpls eth) \<and> eth_raw_len eth = 0 \<and> \<not> eth_lwip eth"

definition eth_addrs :: "bbl_ethernet_header \<Rightarrow> u8 list \<times> u8 list" where
  "eth_addrs eth = (case eth_dst eth of None \<Rightarrow> replicate 6 0xff | Some d \<Rightarrow> d, the (eth_src eth))"

definition eth_wire :: "bbl_ethernet_header \<Rightarrow> u8 list" where
  "eth_wire eth = fst (eth_addrs eth) @ snd (eth_addrs eth) @ vlan_bytes eth @ ethertype_bytes eth"

lemma eth_addrs_length:
  assumes "eth_ok eth"
  shows "length (fst (eth_addrs eth)) = 6" "length (snd (eth_addrs eth)) = 6" "eth_src eth = Some (snd (eth_addrs eth))"
  using assms by (auto simp: eth_ok_def eth_addrs_def split: option.splits)

lemma length_eth_wire: "eth_ok eth \<Longrightarrow> length (eth_wire eth) = layer_size (L_ethernet eth)"
  by (simp add: eth_wire_def eth_addrs_length length_vlan_bytes ethertype_bytes_def)

text \<open>The first nibble of an IP packet tells the decoder what follows the labels.\<close>

definition eth_carries :: "bbl_ethernet_header \<Rightarrow> u8 list \<Rightarrow> bool" where
  "eth_carries eth r \<longleftrightarrow> r \<noteq> [] \<and> eth_type eth \<in> {0x0800, 0x86dd, 0x8864} \<and>
     (eth_mpls eth \<noteq> [] \<longrightarrow> (eth_type eth = 0x0800 \<and> drop_bit 4 (hd r) AND 0xf = 4 \<or> eth_type eth = 0x86dd \<and> drop_bit 4 (hd r) AND 0xf = 6))"

lemma eth_labels_round_trip:
  assumes "eth_carries e r" "list_all mpls_ok (eth_mpls e)" "4 * length (eth_mpls e) < unat n" "16 * length (eth_mpls e) \<le> unat sp"
    "eth_mpls z = []" "eth_type z = be16toh (if eth_mpls e = [] then eth_type e else 0x8847)"
  shows "eth_labels z (mpls_bytes (eth_mpls e) @ r) n sp =
    Some (Inr (z\<lparr>eth_mpls := eth_mpls e, eth_type := be16toh (eth_type e)\<rparr>, r, n - of_nat (4 * length (eth_mpls e)), sp - of_nat (16 * length (eth_mpls e))))"
proof (cases "eth_mpls e = []")
  case True
  have "be16toh (eth_type e) \<noteq> 0x4788" using assms(1) by (auto simp: eth_carries_def be16toh_def)
  moreover have "z = z\<lparr>eth_mpls := [], eth_type := be16toh (eth_type e)\<rparr>" using assms(5,6) True by simp
  ultimately show ?thesis using assms(6) True by (simp add: eth_labels_def)
next
  case False
  have s: "16 \<le> unat sp" using assms(4) False by (cases "eth_mpls e") simp_all
  then have g: "\<not> sp < 16" "unat (sp - 16) = unat sp - 16" using unat_minus [of 16 sp] by (simp_all add: runs_arith)
  have m: "mpls_loop (mpls_bytes (eth_mpls e) @ r) n (sp - 16) =
      Some (Inr (eth_mpls e, r, n - of_nat (4 * length (eth_mpls e)), sp - 16 - of_nat (16 * (length (eth_mpls e) - 1))))"
    using assms(2-4) g(2) False by (intro mpls_loop_round_trip) simp_all
  have "of_nat (16 * length (eth_mpls e)) = 16 + (of_nat (16 * (length (eth_mpls e) - 1)) :: u16)" using False by (cases "eth_mpls e") simp_all
  then have sp: "sp - 16 - of_nat (16 * (length (eth_mpls e) - 1)) = sp - of_nat (16 * length (eth_mpls e))" by simp
  have t: "eth_type z = 0x4788" using assms(6) False by (simp add: be16toh_def)
  have r: "rd8 r = Some (hd r)" using assms(1) by (cases r) (simp_all add: eth_carries_def)
  have v: "be16toh 0x0800 = 0x0008" "be16toh 0x86dd = 0xdd86" by (simp_all add: be16toh_def)
  show ?thesis
    using assms(1) False
    by (simp only: eth_labels_def t simp_thms if_False g(1) m sp and_then_Inr prod.case r Option.bind.simps Let_def) (auto simp: eth_carries_def v)
qed

lemma eth_header_round_trip:
  assumes "eth_ok e" "eth_carries e r" "layer_size (L_ethernet e) < unat n" "layer_sp (L_ethernet e) \<le> unat sp"
  shows "\<exists>x. eth_header (eth_wire e @ r) n sp =
      Some (Inr (x, r, n - of_nat (layer_size (L_ethernet e)), sp - of_nat (layer_sp (L_ethernet e)))) \<and> same_ethernet e x"
proof -
  obtain D S where a: "eth_addrs e = (D, S)" by fastforce
  have DS: "length D = 6" "length S = 6" "eth_src e = Some S" using eth_addrs_length [OF assms(1)] a by simp_all
  define T where "T = (if eth_mpls e = [] then eth_type e else 0x8847)"
  let ?M = "mpls_bytes (eth_mpls e)" and ?buf = "eth_wire e @ r" and ?V = "length (vlan_bytes e)"
  have w: "?buf = D @ S @ vlan_bytes e @ w_be16 T @ ?M @ r" by (simp add: eth_wire_def a ethertype_bytes_def T_def)
  have vT: "\<not> is_vlan (be16toh T)" using assms(2) by (auto simp: T_def eth_carries_def is_vlan_def be16toh_def)
  have size: "layer_size (L_ethernet e) = 14 + ?V + 4 * length (eth_mpls e)" by (simp add: length_vlan_bytes)
  have n: "unat (n - 14) = unat n - 14" "unat (n - 14 - of_nat ?V) = unat n - 14 - ?V" "unat (sp - 80) = unat sp - 80"
    using assms(3,4) size unat_minus [of 14 n] unat_minus [of ?V "n - 14"] unat_minus [of 80 sp] by (simp_all add: length_vlan_bytes split: if_splits)
  define z where "z = zero_ethernet\<lparr>eth_length := n, eth_dst := Some D, eth_src := Some S\<rparr>"
  define y where "y = z\<lparr>eth_vlan_outer := eth_vlan_outer e, eth_vlan_inner := eth_vlan_inner e, eth_vlan_three := eth_vlan_three e,
        eth_vlan_outer_priority := eth_vlan_outer_priority e, eth_vlan_inner_priority := eth_vlan_inner_priority e, eth_type := be16toh T\<rparr>"
  have ok: "vlan_ok e" "list_all mpls_ok (eth_mpls e)" using assms(1) by (simp_all add: eth_ok_def)
  have "?V \<le> unat (n - 14)" using n(1) assms(3) size by simp
  then obtain t0 where tags: "rd_ne16 (vlan_bytes e @ w_be16 T @ ?M @ r) = Some t0"
    "eth_tags (z\<lparr>eth_type := t0\<rparr>) (drop 2 (vlan_bytes e @ w_be16 T @ ?M @ r)) (n - 14) = Some (Inr (y, ?M @ r, n - 14 - of_nat ?V))"
    using eth_tags_round_trip [OF ok(1) vT _ z_def, of "n - 14" "?M @ r"] unfolding y_def by blast
  have labels: "eth_labels y (?M @ r) (n - 14 - of_nat ?V) (sp - 80) = Some (Inr (y\<lparr>eth_mpls := eth_mpls e, eth_type := be16toh (eth_type e)\<rparr>, r,
      n - 14 - of_nat ?V - of_nat (4 * length (eth_mpls e)), sp - 80 - of_nat (16 * length (eth_mpls e))))"
    using assms(2-4) ok(2) n size by (intro eth_labels_round_trip) (simp_all add: y_def z_def zero_ethernet_def T_def)
  have reads: "ld_range ?buf 0 6 = Some D" "ld_range ?buf 6 6 = Some S" "drop 12 ?buf = vlan_bytes e @ w_be16 T @ ?M @ r"
    "drop 14 ?buf = drop 2 (vlan_bytes e @ w_be16 T @ ?M @ r)"
    unfolding w using DS by (simp_all add: ld_range_def)
  have g: "\<not> (n < 14 \<or> sp < 80)" using assms(3,4) size by (simp add: runs_arith)
  have z: "zero_ethernet\<lparr>eth_length := n, eth_dst := Some D, eth_src := Some S, eth_type := t0\<rparr> = z\<lparr>eth_type := t0\<rparr>" by (simp add: z_def)
  have "eth_header ?buf n sp = Some (Inr (y\<lparr>eth_mpls := eth_mpls e, eth_type := be16toh (be16toh (eth_type e))\<rparr>, r,
      n - of_nat (layer_size (L_ethernet e)), sp - of_nat (layer_sp (L_ethernet e))))"
    using size unfolding eth_header_def if_not_P [OF g] reads Option.bind.simps tags(1) z tags(2) and_then_Inr prod.case labels
    by (simp add: algebra_simps)
  moreover have "same_ethernet e (y\<lparr>eth_mpls := eth_mpls e, eth_type := be16toh (be16toh (eth_type e))\<rparr>)"
    using a DS(3) by (simp add: same_ethernet_def y_def z_def eth_addrs_def)
  ultimately show ?thesis by blast
qed

text \<open>A frame of a stream: IPoE or PPPoE.\<close>

definition stream_payload :: "bbl_ethernet_header \<Rightarrow> layer list \<Rightarrow> bool" where
  "stream_payload eth rest =
     (case rest of
        L_pppoe_session pppoe # ip \<Rightarrow>
          eth_type eth = 0x8864 \<and> eth_mpls eth = [] \<and> pses_raw_len pppoe = 0 \<and> \<not> pses_lwip pppoe \<and>
          pses_protocol pppoe = ppp_protocol ip \<and> stream_packet ip
      | _ \<Rightarrow> eth_type eth = (if is_ipv4 rest then 0x0800 else 0x86dd) \<and> stream_packet rest)"

definition stream_frame :: "layer list \<Rightarrow> bool" where
  "stream_frame layers = (case layers of L_ethernet eth # rest \<Rightarrow> eth_ok eth \<and> stream_payload eth rest | _ \<Rightarrow> False)"

text \<open>The blaster header that the receiver finds in the Ethernet header.\<close>

definition frame_bbl :: "layer list \<Rightarrow> bbl_bbl option" where
  "frame_bbl layers = (case layers of L_ethernet eth # _ \<Rightarrow> eth_bbl eth | _ \<Rightarrow> None)"

lemma eth_payload_round_trip:
  assumes "stream_frame (L_ethernet eth # ls)" "wire_size ls < 65536" "wire_size ls \<le> length old"
  shows "\<exists>bs d. eth_next encode_udp (eth_set_priorities eth) old len ls = Some (Inr (bs, ls)) \<and> length bs = wire_size ls \<and> eth_carries eth bs \<and>
    received d ls bs \<and> (\<forall>b n s x. eth_type x = eth_type eth \<longrightarrow> eth_payload decode_udp b n s x = d b n s x)"
proof (cases "\<exists>pppoe ip. ls = L_pppoe_session pppoe # ip")
  case True
  then obtain pppoe ip where ls: "ls = L_pppoe_session pppoe # ip" by blast
  then have e: "eth_type eth = 0x8864" "eth_mpls eth = []" "eth_raw_len eth = 0" "\<not> eth_lwip eth" "pses_raw_len pppoe = 0" "\<not> pses_lwip pppoe"
    "pses_protocol pppoe = ppp_protocol ip" "stream_packet ip"
    using assms(1) by (simp_all add: stream_frame_def stream_payload_def eth_ok_def)
  have "wire_size ip \<le> length (drop 8 old)" "wire_size ip < 65536" using assms(2,3) by (simp_all add: ls)
  then obtain q where q: "encode_ip (drop 8 old) (len + 8) ip = Some (Inr (q, ip))" "length q = wire_size ip" "received (decode_ip ip) ip q"
    using packet_round_trip [OF e(8)] unfolding ip_carried_def by blast
  have "received decode_pppoe_session ls (pppoe_wire pppoe q)" unfolding ls using q(2,3) e(7) assms(2) by (intro pppoe_received) (simp_all add: ls)
  moreover have "eth_next encode_udp (eth_set_priorities eth) old len ls = Some (Inr (pppoe_wire pppoe q, ls))"
    using encode_pppoe [OF e(5-7), of old len] q(1) e(1-4)
    by (simp add: eth_next_def encode_eth_payload_def ls eth_set_priorities_def Let_def encode_pppoe_session_def)
  moreover have "eth_carries eth (pppoe_wire pppoe q)" "length (pppoe_wire pppoe q) = wire_size ls"
    using e(1,2) q(2) by (simp_all add: eth_carries_def pppoe_wire_def ls)
  ultimately show ?thesis using e(1)
    by (intro exI [of _ "pppoe_wire pppoe q"] exI [of _ decode_pppoe_session]) (simp add: eth_payload_def decode_pppoe_session_def)
next
  case False
  then have e: "eth_type eth = (if is_ipv4 ls then 0x0800 else 0x86dd)" "eth_raw_len eth = 0" "\<not> eth_lwip eth" "stream_packet ls"
    using assms(1) by (auto simp: stream_frame_def stream_payload_def eth_ok_def split: list.splits layer.splits)
  obtain q where q: "encode_ip old len ls = Some (Inr (q, ls))" "ip_carried ls q"
    using packet_round_trip [OF e(4) assms(2,3)] by blast
  moreover have "eth_next encode_udp (eth_set_priorities eth) old len ls = encode_ip old len ls"
    using e(1-3) by (simp add: eth_next_def encode_eth_payload_def eth_set_priorities_def Let_def encode_ip_def encode_ipv4_def encode_ipv6_def)
  moreover have "eth_carries eth q" using q(2) e(1) by (simp add: eth_carries_def ip_carried_def)
  ultimately show ?thesis using e(1) unfolding ip_carried_def
    by (intro exI [of _ q] exI [of _ "decode_ip ls"]) (simp add: eth_payload_def decode_ip_def decode_ipv4_def decode_ipv6_def)
qed

lemma encode_eth:
  assumes "eth_ok eth" "eth_type eth \<noteq> 0x83"
    "eth_next encode_udp (eth_set_priorities eth) (drop (length (eth_wire eth)) old) (len + of_nat (length (eth_wire eth))) ls = Some (Inr (bs, ls'))"
  shows "encode_ethernet old len (L_ethernet eth # ls) = Some (Inr (eth_wire eth @ bs, L_ethernet (eth_set_priorities eth) # ls'))"
proof -
  have s: "eth_mpls (eth_set_priorities eth) = eth_mpls eth" "eth_type (eth_set_priorities eth) = eth_type eth"
    "ethertype_bytes (eth_set_priorities eth) = ethertype_bytes eth"
    by (simp_all add: eth_set_priorities_def Let_def ethertype_bytes_def)
  have a: "(case eth_dst eth of None \<Rightarrow> Some (replicate 6 0xff) | Some d \<Rightarrow> ld_range d 0 6) = Some (fst (eth_addrs eth))"
    "ptr_range (eth_src eth) 6 = Some (snd (eth_addrs eth))"
    using assms(1) by (auto simp: eth_ok_def eth_addrs_def ptr_range_def ld_range_def split: option.splits)
  show ?thesis
    using assms(2,3) unfolding encode_ethernet_def encode_ethernet_with_def list.case layer.case a Option.bind.simps Let_def s
    by (simp add: eth_wire_def)
qed

lemma stream_frame_transfer:
  assumes "stream_frame ls" "wire_size ls + length pad < 65536" "wire_size ls \<le> length old" "sp_size ls \<le> unat sp"
  shows "\<exists>bs sent ls' b. encode_ethernet old len ls = Some (Inr (bs, sent)) \<and> length bs = wire_size ls \<and>
    decode_ethernet (bs @ pad @ junk) (of_nat (length (bs @ pad))) sp = Some (Inr ls') \<and>
    list_all2 same_layer ls ls' \<and> last ls' = L_bbl b \<and> frame_bbl ls' = Some b"
proof -
  obtain eth rest where ls: "ls = L_ethernet eth # rest" and e: "eth_ok eth"
    using assms(1) unfolding stream_frame_def by (auto split: list.splits layer.splits)
  have w: "length (eth_wire eth) = layer_size (L_ethernet eth)" by (rule length_eth_wire [OF e])
  have "wire_size rest < 65536" "wire_size rest \<le> length (drop (length (eth_wire eth)) old)" using assms(2,3) w by (simp_all add: ls)
  then obtain bs d where p: "eth_next encode_udp (eth_set_priorities eth) (drop (length (eth_wire eth)) old) (len + of_nat (length (eth_wire eth))) rest = Some (Inr (bs, rest))"
    "length bs = wire_size rest" "eth_carries eth bs" "received d rest bs"
    "\<And>b n s x. eth_type x = eth_type eth \<Longrightarrow> eth_payload decode_udp b n s x = d b n s x"
    using eth_payload_round_trip assms(1) unfolding ls by blast
  have t: "eth_type eth \<noteq> 0x83" using p(3) by (auto simp: eth_carries_def)
  let ?f = "eth_wire eth @ bs" and ?n = "of_nat (length ((eth_wire eth @ bs) @ pad)) :: u16"
  have n: "unat ?n = layer_size (L_ethernet eth) + length bs + length pad"
    using unat_u16_of_nat [of "length (?f @ pad)"] assms(2) w p(2) by (simp add: ls)
  have "bs \<noteq> []" using p(3) by (simp add: eth_carries_def)
  then have "eth_carries eth (bs @ pad @ junk)" "layer_size (L_ethernet eth) < unat ?n" using p(3) n by (auto simp: eth_carries_def)
  then obtain x where h: "eth_header (?f @ pad @ junk) ?n sp =
      Some (Inr (x, bs @ pad @ junk, ?n - of_nat (layer_size (L_ethernet eth)), sp - of_nat (layer_sp (L_ethernet eth))))" and x: "same_ethernet eth x"
    using eth_header_round_trip [OF e, of "bs @ pad @ junk" ?n sp] assms(4) by (auto simp: ls)
  have m: "unat (?n - of_nat (layer_size (L_ethernet eth))) = length bs + length pad"
    "unat (sp - of_nat (layer_sp (L_ethernet eth))) = unat sp - layer_sp (L_ethernet eth)"
    using unat_minus [of "layer_size (L_ethernet eth)" ?n] unat_minus [of "layer_sp (L_ethernet eth)" sp] n assms(2,4)
      unat_u16_less [of ?n] unat_u16_less [of sp] by (simp_all add: ls del: of_nat_add layer_size.simps layer_sp.simps)
  have m': "length bs \<le> unat (?n - of_nat (layer_size (L_ethernet eth)))" "unat (?n - of_nat (layer_size (L_ethernet eth))) \<le> length (bs @ pad @ junk)"
    "sp_size rest \<le> unat (sp - of_nat (layer_sp (L_ethernet eth)))"
    using assms(4) unfolding m by (simp_all add: ls del: layer_size.simps layer_sp.simps)
  obtain t l b ls' where r: "d (bs @ pad @ junk) (?n - of_nat (layer_size (L_ethernet eth))) (sp - of_nat (layer_sp (L_ethernet eth))) x =
      Some (x\<lparr>eth_tos := t, eth_ttl := l, eth_bbl := Some b\<rparr>, Inr ls')" "list_all2 same_layer rest ls'" "last ls' = L_bbl b" "ls' \<noteq> []"
    by (rule receivedD [OF p(4) m'])
  have xt: "eth_type x = eth_type eth" using x by (simp add: same_ethernet_def)
  have "decode_ethernet (?f @ pad @ junk) ?n sp = Some (Inr (L_ethernet (x\<lparr>eth_tos := t, eth_ttl := l, eth_bbl := Some b\<rparr>) # ls'))"
    by (simp only: decode_ethernet_def ethernet_with_def h p(5) [OF xt] r(1) option.case sum.case prod.case)
  moreover have "encode_ethernet old len ls = Some (Inr (?f, L_ethernet (eth_set_priorities eth) # rest))"
    unfolding ls by (rule encode_eth [OF e t p(1)])
  moreover have "same_ethernet eth (x\<lparr>eth_tos := t, eth_ttl := l, eth_bbl := Some b\<rparr>)" using x by (simp add: same_ethernet_def)
  ultimately show ?thesis using r(2-4) w p(2)
    by (simp only:) (rule exI [of _ ?f], rule exI [of _ "L_ethernet (eth_set_priorities eth) # rest"],
      rule exI [of _ "L_ethernet (x\<lparr>eth_tos := t, eth_ttl := l, eth_bbl := Some b\<rparr>) # ls'"], rule exI [of _ b], simp add: ls frame_bbl_def)
qed

text \<open>
  C39. What one blaster sends, another one receives: for every frame of a stream - IPv4 or IPv6, with or
  without PPPoE, VLAN tags, MPLS labels, nested L2TP tunnels with their optional fields, and
  padding - \<open>encode_ethernet\<close> succeeds with the expected number of bytes, and \<open>decode_ethernet\<close> on these bytes,
  followed by any padding of the link, succeeds and shows every layer with the values that were sent.
  The blaster header with its flow id, sequence number and time stamp is also found in the Ethernet
  header, where the statistics of the streams read it.
\<close>

theorem stream_frame_round_trip:
  assumes "stream_frame ls" "wire_size ls + length pad < 65536" "wire_size ls \<le> length old" "sp_size ls \<le> unat sp"
  shows "\<exists>bs sent ls' b. encode_ethernet old len ls = Some (Inr (bs, sent)) \<and> length bs = wire_size ls \<and>
    decode_ethernet (bs @ pad) (of_nat (length (bs @ pad))) sp = Some (Inr ls') \<and>
    list_all2 same_layer ls ls' \<and> last ls' = L_bbl b \<and> frame_bbl ls' = Some b"
  using stream_frame_transfer [OF assms, of len "[]"] by simp

definition frame_example :: "layer list" where
  "frame_example =
     [L_ethernet (zero_ethernet\<lparr>eth_type := 0x8864, eth_vlan_outer := 128, eth_vlan_outer_priority := 5, eth_vlan_inner := 7,
        eth_src := Some [2, 0, 0, 0, 0, 1], eth_dst := Some [2, 0, 0, 0, 0, 2]\<rparr>),
      L_pppoe_session \<lparr>pses_session_id = 9, pses_protocol = 0x0021, pses_raw_len = 0, pses_lwip = False\<rparr>,
      L_ipv4 \<lparr>ip4_src = 0x0100000a, ip4_dst = 0x0200000a, ip4_tos = 0, ip4_ttl = 64, ip4_protocol = 17, ip4_router_alert_option = False,
        ip4_id = 1, ip4_offset = 0x4000, ip4_len = 0, ip4_hdr = [], ip4_payload = [], ip4_payload_len = 0\<rparr>,
      L_udp \<lparr>udp_src = 1701, udp_dst = 1701, udp_payload_len = 0, udp_protocol = 3\<rparr>,
      L_l2tp (zero_l2tp\<lparr>l2tp_with_length := True, l2tp_with_offset := True, l2tp_offset := 3, l2tp_tunnel_id := 4, l2tp_session_id := 5, l2tp_protocol := 0x0057\<rparr>),
      L_ipv6 \<lparr>ip6_src = replicate 16 1, ip6_dst = replicate 16 2, ip6_tos = 0x20, ip6_ttl = 63, ip6_protocol = 17, ip6_len = 0,
        ip6_hdr = [], ip6_payload = [], ip6_payload_len = 0\<rparr>,
      L_udp \<lparr>udp_src = 65056, udp_dst = 65056, udp_payload_len = 0, udp_protocol = 2\<rparr>,
      L_bbl \<lparr>bbl_padding = Some 6, bbl_type = 1, bbl_sub_type = 2, bbl_direction = 1, bbl_tos = 0, bbl_session_id = 3, bbl_ifindex = Some 4,
        bbl_outer_vlan_id = Some 128, bbl_inner_vlan_id = Some 7, bbl_mc_source = None, bbl_mc_group = None, bbl_flow_id = 11, bbl_flow_seq = 12,
        bbl_tv_sec = 13, bbl_tv_nsec = 14\<rparr>]"

theorem stream_frame_round_trip_witness:
  "stream_frame frame_example \<and> wire_size frame_example = 177 \<and>
    (\<exists>bs sent ls' b. encode_ethernet (replicate 200 0) 0 frame_example = Some (Inr (bs, sent)) \<and> length bs = wire_size frame_example \<and>
    decode_ethernet (bs @ [0, 0]) (of_nat (length (bs @ [0, 0]))) 4096 = Some (Inr ls') \<and>
    list_all2 same_layer frame_example ls' \<and> last ls' = L_bbl b \<and> frame_bbl ls' = Some b)"
proof -
  have "stream_frame frame_example" by code_simp
  moreover have "wire_size frame_example = 177" "sp_size frame_example = 368" by code_simp+
  ultimately show ?thesis
    using stream_frame_round_trip [of frame_example "[0, 0]" "replicate 200 0" 4096 0] by simp
qed

end
