(* ===== verification/Spec2Isabelle.thy ===== *)
theory Spec2Isabelle
  imports Byte_Order Checksum Net_Addr Text_Utils Timer Txq PPP_Codec Control_Codec DHCP_Codec Stream_Frame
begin

text \<open>
  Header to be written.
\<close>

section \<open>The transmit path\<close>

text \<open>
  The encoder of frames as the transmit queue uses it: \<open>bbl_txq_to_buffer\<close> lets \<open>encode_ethernet\<close> write into
  the packet of a slot. The queue's encoder has no value for undefined behaviour and for a frame that is
  larger than the slot, which the code does not check: both are a failure here, and the theorem below is
  about frames that fit.
\<close>

definition encode_slot :: "layer list \<Rightarrow> u8 list \<Rightarrow> bool \<times> u8 list \<times> u16" where
  "encode_slot layers packet =
     (case encode_ethernet packet 0 layers of
        Some (Inr (bs, _)) \<Rightarrow>
          if length bs \<le> length packet then (True, bs @ drop (length bs) packet, of_nat (length bs)) else (False, packet, 0)
      | _ \<Rightarrow> (False, packet, 0))"

fun send_all :: "layer list list \<Rightarrow> txq \<Rightarrow> txq option" where
  "send_all [] q = Some q"
| "send_all (layers # rest) q =
     (case bbl_txq_to_buffer encode_slot layers q of Some (BBL_TXQ_OK, q) \<Rightarrow> send_all rest q | _ \<Rightarrow> None)"

text \<open>Frames are taken out of the queue and decoded as the receiver of the link does it.\<close>

fun receive_all :: "nat \<Rightarrow> txq \<Rightarrow> (layer list list \<times> txq) option" where
  "receive_all 0 q = Some ([], q)"
| "receive_all (Suc n) q =
     (case bbl_txq_from_buffer q (replicate BBL_TXQ_BUFFER_LEN 0) of
        Some (len, buf, q) \<Rightarrow>
          (case decode_ethernet buf len 4096 of
             Some (Inr layers) \<Rightarrow> (case receive_all n q of Some (ls, q) \<Rightarrow> Some (layers # ls, q) | None \<Rightarrow> None)
           | _ \<Rightarrow> None)
      | None \<Rightarrow> None)"

definition sendable :: "layer list \<Rightarrow> bool" where
  "sendable layers \<longleftrightarrow> stream_frame layers \<and> wire_size layers \<le> BBL_TXQ_BUFFER_LEN \<and> sp_size layers \<le> 4096"

lemma encode_slot_ok: "encoder_ok encode_slot"
  unfolding encoder_ok_def encode_slot_def
  by (auto split: option.splits sum.splits prod.splits if_splits simp: unat_of_nat)

text \<open>The bytes of a slot from which the decoder reads the layers of a frame.\<close>

definition slot_carries :: "layer list \<Rightarrow> txq_slot \<Rightarrow> bool" where
  "slot_carries layers s \<longleftrightarrow> (\<forall>pad. unat (sl_packet_len s) + length pad \<le> BBL_TXQ_BUFFER_LEN \<longrightarrow>
     (\<exists>ls. decode_ethernet (take (unat (sl_packet_len s)) (sl_packet s) @ pad) (sl_packet_len s) 4096 = Some (Inr ls) \<and> list_all2 same_layer layers ls))"

end
